(* ===== verification/Prelude.thy ===== *)
theory Prelude
  imports Main "HOL-Library.Word" "HOL-Library.AList" "HOL-Library.Multiset"
begin

unbundle bit_operations_syntax

text \<open>
  What the components share: the types that stand for Go's own (\<open>byte\<close>, the fixed-width
  integers, byte strings, points in time), the three ways a Go call can end, byte slices and
  buffers, the big-endian integers of \<open>encoding/binary\<close>, Go maps as association lists, and the
  generic lemmas about them.

  Go strings and byte slices are both sequences of bytes, so both are \<open>bytes\<close>; the conversions
  \<open>string(b)\<close> and \<open>[]byte(s)\<close> of the source are the identity on them.
\<close>

named_theorems buffer_simps \<open>writing consecutive fields into a zeroed buffer\<close>
named_theorems go_map_simps \<open>lookup, size and keys of a Go map after an operation\<close>

section \<open>Types\<close>

type_synonym byte = "8 word"
type_synonym u16 = "16 word"
type_synonym u32 = "32 word"
type_synonym u64 = "64 word"
type_synonym bytes = "byte list"

text \<open>A \<open>time.Time\<close> is a number of nanoseconds since the Unix epoch. Its range in Go is far wider
  than 64 bits of nanoseconds, so it is an integer here; the 64-bit conversions are below. A
  \<open>time.Duration\<close> is a signed 64-bit number of nanoseconds, given by its integer value.\<close>

type_synonym gotime = int
type_synonym duration = int

text \<open>How a Go call ends: with a value, with a non-nil error, or with a run-time panic.\<close>

datatype ('e, 'a) go = Ok 'a | Err 'e | Panic

fun go_map :: "('a \<Rightarrow> 'b) \<Rightarrow> ('e, 'a) go \<Rightarrow> ('e, 'b) go" where
  "go_map f (Ok a) = Ok (f a)"
| "go_map f (Err e) = Err e"
| "go_map f Panic = Panic"

text \<open>A string literal of the source.\<close>

definition str :: "string \<Rightarrow> bytes" where
  "str s = map of_char s"

section \<open>Slices and buffers\<close>

text \<open>\<open>data[lo:hi]\<close> where the bounds are constants already covered by a length check.\<close>

definition sub :: "'a list \<Rightarrow> nat \<Rightarrow> nat \<Rightarrow> 'a list" where
  "sub data lo hi = take (hi - lo) (drop lo data)"

text \<open>\<open>data[lo:hi]\<close> with Go's bounds check; \<open>None\<close> is the run-time panic.\<close>

definition slice :: "'a list \<Rightarrow> nat \<Rightarrow> nat \<Rightarrow> 'a list option" where
  "slice data lo hi = (if lo \<le> hi \<and> hi \<le> length data then Some (sub data lo hi) else None)"

text \<open>The reads \<open>data[lo:hi]\<close> and \<open>data[i]\<close> as a step of a function that goes on with what was read: a bound
  outside the data panics.\<close>

definition at_slice :: "'a list \<Rightarrow> nat \<Rightarrow> nat \<Rightarrow> ('a list \<Rightarrow> ('e, 'b) go) \<Rightarrow> ('e, 'b) go" where
  "at_slice data lo hi f = (case slice data lo hi of None \<Rightarrow> Panic | Some x \<Rightarrow> f x)"

definition at_index :: "'a list \<Rightarrow> nat \<Rightarrow> ('a \<Rightarrow> ('e, 'b) go) \<Rightarrow> ('e, 'b) go" where
  "at_index data i f = (if i < length data then f (data ! i) else Panic)"

text \<open>\<open>make([]byte, n)\<close> and \<open>copy(buf[off:], src)\<close>; \<open>copy\<close> stops at the end of the buffer.\<close>

definition make_buf :: "nat \<Rightarrow> bytes" where
  "make_buf n = replicate n 0"

definition copy_at :: "nat \<Rightarrow> 'a list \<Rightarrow> 'a list \<Rightarrow> 'a list" where
  "copy_at off src buf = take off buf @ take (length buf - off) src @ drop (off + length src) buf"

section \<open>Big-endian integers\<close>

text \<open>\<open>be_put k w\<close> are the \<open>k\<close> low bytes of \<open>w\<close>, most significant first, and \<open>be_get\<close> shifts the
  bytes of a slice into a word: \<open>binary.BigEndian.PutUint16\<close> and its kin.\<close>

fun be_put :: "nat \<Rightarrow> 'a::len word \<Rightarrow> bytes" where
  "be_put 0 w = []"
| "be_put (Suc k) w = be_put k (drop_bit 8 w) @ [ucast w]"

definition be_get :: "bytes \<Rightarrow> 'a::len word" where
  "be_get bs = fold (\<lambda>b acc. push_bit 8 acc OR ucast b) bs 0"

definition PutUint16 :: "u16 \<Rightarrow> bytes" where
  "PutUint16 v = be_put 2 v"

definition PutUint32 :: "u32 \<Rightarrow> bytes" where
  "PutUint32 v = be_put 4 v"

definition PutUint64 :: "u64 \<Rightarrow> bytes" where
  "PutUint64 v = be_put 8 v"

definition Uint16 :: "bytes \<Rightarrow> u16" where
  "Uint16 b = be_get b"

definition Uint32 :: "bytes \<Rightarrow> u32" where
  "Uint32 b = be_get b"

definition Uint64 :: "bytes \<Rightarrow> u64" where
  "Uint64 b = be_get b"

section \<open>Time\<close>

text \<open>\<open>uint64(t.UnixNano())\<close> keeps the low 64 bits of the nanosecond count, and
  \<open>time.Unix(0, int64(n))\<close> reads them as a two's complement number.\<close>

definition unix_nano :: "gotime \<Rightarrow> u64" where
  "unix_nano t = word_of_int t"

definition from_nano :: "u64 \<Rightarrow> gotime" where
  "from_nano w = sint w"

text \<open>The times whose nanosecond count fits 64 bits: the years 1677 to 2262.\<close>

definition nano_range :: "gotime \<Rightarrow> bool" where
  "nano_range t \<longleftrightarrow> - (2 ^ 63) \<le> t \<and> t < 2 ^ 63"

section \<open>Go maps\<close>

text \<open>A Go map is an association list with distinct keys. The order of the list carries no
  meaning: where the source ranges over a map, the definitions take the order of that iteration as
  an argument.\<close>

type_synonym ('k, 'v) gomap = "('k \<times> 'v) list"

definition gomap_wf :: "('k, 'v) gomap \<Rightarrow> bool" where
  "gomap_wf m \<longleftrightarrow> distinct (map fst m)"

abbreviation gomap_get :: "('k, 'v) gomap \<Rightarrow> 'k \<Rightarrow> 'v option" where
  "gomap_get \<equiv> map_of"

abbreviation gomap_set :: "'k \<Rightarrow> 'v \<Rightarrow> ('k, 'v) gomap \<Rightarrow> ('k, 'v) gomap" where
  "gomap_set \<equiv> AList.update"

abbreviation gomap_delete :: "'k \<Rightarrow> ('k, 'v) gomap \<Rightarrow> ('k, 'v) gomap" where
  "gomap_delete \<equiv> AList.delete"

text \<open>An iteration order ranks the keys of a map. Go chooses an order afresh for every loop; the rank
  may depend on the size of the map, so that the loops over a map that shrinks between them are not
  bound to the same order. Every arrangement of the entries is the order of some ranking.\<close>

type_synonym 'k map_order = "nat \<Rightarrow> 'k \<Rightarrow> nat"

definition in_order :: "'k map_order \<Rightarrow> ('k, 'v) gomap \<Rightarrow> ('k, 'v) gomap" where
  "in_order ord m = sort_key (\<lambda>(k, v). ord (length m) k) m"

section \<open>Lemmas\<close>

subsection \<open>Slices and buffers\<close>

lemma length_make_buf [simp]: "length (make_buf n) = n"
  by (simp add: make_buf_def)

lemma length_sub [simp]: "hi \<le> length data \<Longrightarrow> length (sub data lo hi) = hi - lo"
  by (simp add: sub_def)

lemma length_copy_at [simp]: "off \<le> length buf \<Longrightarrow> length (copy_at off src buf) = length buf"
  by (simp add: copy_at_def)

lemma slice_Some [simp]:
  "lo \<le> hi \<Longrightarrow> hi \<le> length data \<Longrightarrow> slice data lo hi = Some (sub data lo hi)"
  by (simp add: slice_def)

lemma slice_None [simp]: "hi < lo \<Longrightarrow> slice data lo hi = None"
  by (simp add: slice_def)

lemma at_slice_in [simp]:
  "lo \<le> hi \<Longrightarrow> hi \<le> length data \<Longrightarrow> at_slice data lo hi f = f (sub data lo hi)"
  by (simp add: at_slice_def)

lemma at_index_in [simp]: "i < length data \<Longrightarrow> at_index data i f = f (data ! i)"
  by (simp add: at_index_def)

lemma at_slice_panics: "at_slice data lo hi f = Panic \<longleftrightarrow>
    (lo \<le> hi \<and> hi \<le> length data \<longrightarrow> f (sub data lo hi) = Panic)"
  by (auto simp: at_slice_def slice_def)

lemma at_index_panics: "at_index data i f = Panic \<longleftrightarrow> (i < length data \<longrightarrow> f (data ! i) = Panic)"
  by (simp add: at_index_def)

lemma copy_at_append [buffer_simps]:
  "length pre \<le> off \<Longrightarrow> copy_at off src (pre @ rest) = pre @ copy_at (off - length pre) src rest"
  by (simp add: copy_at_def add.commute)

lemma copy_at_Cons [buffer_simps]:
  "0 < off \<Longrightarrow> copy_at off src (x # rest) = x # copy_at (off - 1) src rest"
  by (cases off) (simp_all add: copy_at_def)

lemma copy_at_make_buf [buffer_simps]:
  "length src \<le> n \<Longrightarrow> copy_at 0 src (make_buf n) = src @ make_buf (n - length src)"
  by (simp add: copy_at_def make_buf_def)

lemma copy_at_make_buf_skip [buffer_simps]:
  "0 < off \<Longrightarrow> off \<le> n \<Longrightarrow> copy_at off src (make_buf n) = make_buf off @ copy_at 0 src (make_buf (n - off))"
  by (simp add: copy_at_def make_buf_def flip: replicate_add)

lemma copy_at_exact: "length src = length buf \<Longrightarrow> copy_at 0 src buf = src"
  by (simp add: copy_at_def)

lemma make_buf_0 [simp]: "make_buf 0 = []"
  by (simp add: make_buf_def)

lemma make_buf_1 [simp]: "make_buf (Suc 0) = [0]"
  by (simp add: make_buf_def)

lemma split_at:
  obtains (before) "n < h" | (at) k where "n = h + (k::nat)"
  using le_Suc_ex not_less by blast

lemma sub_append_le [simp]: "hi \<le> length xs \<Longrightarrow> sub (xs @ ys) lo hi = sub xs lo hi"
  by (simp add: sub_def)

lemma sub_append_ge [simp]:
  "length xs \<le> lo \<Longrightarrow> sub (xs @ ys) lo hi = sub ys (lo - length xs) (hi - length xs)"
  by (simp add: sub_def)

lemma sub_all [simp]: "length xs \<le> hi \<Longrightarrow> sub xs 0 hi = xs"
  by (simp add: sub_def)

lemma sub_Cons [simp]: "0 < lo \<Longrightarrow> sub (x # xs) lo hi = sub xs (lo - 1) (hi - 1)"
  by (cases lo) (simp_all add: sub_def)

subsection \<open>Big-endian integers\<close>

lemma length_be_put [simp]: "length (be_put k w) = k"
  by (induction k arbitrary: w) simp_all

text \<open>For closed instances.\<close>

lemma be_put_numeral:
  "be_put (numeral k) w = be_put (pred_numeral k) (drop_bit 8 w) @ [ucast w]"
  by (simp add: numeral_eq_Suc)

lemma be_get_snoc: "be_get (bs @ [b]) = push_bit 8 (be_get bs) OR ucast b"
  by (simp add: be_get_def)

lemma be_get_be_put: "be_get (be_put k w) = take_bit (8 * k) w"
proof (induction k arbitrary: w)
  case 0
  then show ?case by (simp add: be_get_def)
next
  case (Suc k)
  show ?case
    by (rule bit_word_eqI) (auto simp: be_get_snoc Suc.IH bit_simps not_less)
qed

lemma length_PutUint16 [simp]: "length (PutUint16 v) = 2"
  by (simp add: PutUint16_def)

lemma length_PutUint32 [simp]: "length (PutUint32 v) = 4"
  by (simp add: PutUint32_def)

lemma length_PutUint64 [simp]: "length (PutUint64 v) = 8"
  by (simp add: PutUint64_def)

lemma Uint16_PutUint16 [simp]: "Uint16 (PutUint16 v) = v"
  by (simp add: Uint16_def PutUint16_def be_get_be_put take_bit_word_eq_self)

lemma Uint32_PutUint32 [simp]: "Uint32 (PutUint32 v) = v"
  by (simp add: Uint32_def PutUint32_def be_get_be_put take_bit_word_eq_self)

lemma Uint64_PutUint64 [simp]: "Uint64 (PutUint64 v) = v"
  by (simp add: Uint64_def PutUint64_def be_get_be_put take_bit_word_eq_self)

subsection \<open>Lengths as fixed-width integers\<close>

lemma unat_u16_small [simp]: "n < 65536 \<Longrightarrow> unat (word_of_nat n :: u16) = n"
  by (simp add: unat_of_nat)

lemma unat_u32_small [simp]: "n < 4294967296 \<Longrightarrow> unat (word_of_nat n :: u32) = n"
  by (simp add: unat_of_nat)

lemma unat_u16_bound: "unat (w :: u16) < 65536"
  by (rule order_less_le_trans [OF unsigned_less]) simp

lemma unat_u32_bound: "unat (w :: u32) < 4294967296"
  by (rule order_less_le_trans [OF unsigned_less]) simp

lemma unat_plus_u16: "unat ((c :: u16) + w) = (unat c + unat w) mod 65536"
  by (simp add: unat_word_ariths)

lemma unat_plus_u32: "unat ((c :: u32) + w) = (unat c + unat w) mod 4294967296"
  by (simp add: unat_word_ariths)

text \<open>The same sums with the wrap-around as a case distinction.\<close>

lemma wrap_u16:
  "unat ((c :: u16) + w) =
     (if unat c + unat w < 65536 then unat c + unat w else unat c + unat w - 65536)"
  using unat_u16_bound [of c] unat_u16_bound [of w]
  by (simp add: unat_plus_u16 mod_if [of "unat c + unat w"])

lemma wrap_u32:
  "unat ((c :: u32) + w) =
     (if unat c + unat w < 4294967296 then unat c + unat w else unat c + unat w - 4294967296)"
  using unat_u32_bound [of c] unat_u32_bound [of w]
  by (simp add: unat_plus_u32 mod_if [of "unat c + unat w"])

subsection \<open>Time\<close>

lemma from_nano_unix_nano: "nano_range t \<Longrightarrow> from_nano (unix_nano t) = t"
  by (simp add: from_nano_def unix_nano_def nano_range_def signed_of_int signed_take_bit_int_eq_self)

lemma unix_nano_from_nano: "unix_nano (from_nano w) = w"
  by (simp add: from_nano_def unix_nano_def)

lemma nano_range_from_nano: "nano_range (from_nano w)"
  using sint_range_size [of w] by (simp add: nano_range_def from_nano_def word_size)

subsection \<open>Go maps\<close>

lemma gomap_wf_Nil [simp]: "gomap_wf []"
  by (simp add: gomap_wf_def)

lemma gomap_wf_set [simp]: "gomap_wf m \<Longrightarrow> gomap_wf (gomap_set k v m)"
  by (simp add: gomap_wf_def distinct_update)

lemma gomap_wf_delete [simp]: "gomap_wf m \<Longrightarrow> gomap_wf (gomap_delete k m)"
  by (simp add: gomap_wf_def distinct_delete)

lemma gomap_get_set [go_map_simps]: "gomap_get (gomap_set k v m) = (gomap_get m)(k \<mapsto> v)"
  by (rule update_conv')

lemma gomap_get_delete [go_map_simps]: "gomap_get (gomap_delete k m) = (gomap_get m)(k := None)"
  by (rule delete_conv')

lemma gomap_get_Some_iff: "gomap_wf m \<Longrightarrow> gomap_get m k = Some v \<longleftrightarrow> (k, v) \<in> set m"
  by (simp add: gomap_wf_def)

lemma gomap_get_None_iff: "gomap_get m k = None \<longleftrightarrow> k \<notin> fst ` set m"
  by (rule map_of_eq_None_iff)

lemma mset_in_order [simp]: "mset (in_order ord m) = mset m"
  by (simp add: in_order_def)

lemma set_in_order [simp]: "set (in_order ord m) = set m"
  by (simp add: in_order_def)

lemma length_in_order [simp]: "length (in_order ord m) = length m"
  by (simp add: in_order_def)

lemma gomap_wf_in_order [simp]: "gomap_wf (in_order ord m) \<longleftrightarrow> gomap_wf m"
proof -
  have "mset (map fst (in_order ord m)) = mset (map fst m)"
    by (simp only: mset_map mset_in_order)
  then show ?thesis
    unfolding gomap_wf_def by (rule mset_eq_imp_distinct_iff)
qed

lemma gomap_get_in_order: "gomap_wf m \<Longrightarrow> gomap_get (in_order ord m) = gomap_get m"
proof
  fix k
  assume "gomap_wf m"
  then have "gomap_get (in_order ord m) k = Some v \<longleftrightarrow> gomap_get m k = Some v" for v
    by (simp add: gomap_get_Some_iff)
  then show "gomap_get (in_order ord m) k = gomap_get m k"
    by (metis option.exhaust)
qed

lemma length_gomap_delete:
  "gomap_wf m \<Longrightarrow> k \<in> fst ` set m \<Longrightarrow> length (gomap_delete k m) + 1 = length m"
  by (induction m) (auto simp: gomap_wf_def)

lemma length_gomap_delete_less: "k \<in> fst ` set m \<Longrightarrow> length (gomap_delete k m) < length m"
  by (induction m) (auto simp: length_delete_le less_Suc_eq_le Suc_le_eq image_iff)

lemma keys_gomap_delete [simp]: "fst ` set (gomap_delete k m) = fst ` set m - {k}"
  by (induction m) auto

lemma keys_gomap_set [simp]: "fst ` set (gomap_set k v m) = insert k (fst ` set m)"
  by (simp add: dom_update)

lemma gomap_set_absent: "k \<notin> fst ` set m \<Longrightarrow> gomap_set k v m = m @ [(k, v)]"
  by (induction m) auto

section \<open>Transition systems\<close>

text \<open>Runs, recorded as the events of their steps.\<close>

inductive trace :: "('s \<Rightarrow> 'e \<Rightarrow> 's \<Rightarrow> bool) \<Rightarrow> 's \<Rightarrow> 'e list \<Rightarrow> 's \<Rightarrow> bool" for st where
  empty: "trace st s [] s"
| next_step: "st s e s' \<Longrightarrow> trace st s' es s'' \<Longrightarrow> trace st s (e # es) s''"

inductive_simps trace_Nil [simp]: "trace st s [] s'"
inductive_simps trace_Cons: "trace st s (e # es) s'"

lemma trace_append: "trace st s (es @ es') s'' \<longleftrightarrow> (\<exists>s'. trace st s es s' \<and> trace st s' es' s'')"
  by (induction es arbitrary: s) (auto simp: trace_Cons)

text \<open>A step of a system is matched by one step of its specification with the same event.\<close>

locale simulation =
  fixes conc :: "'s \<Rightarrow> 'e \<Rightarrow> 's \<Rightarrow> bool" and spec :: "'a \<Rightarrow> 'e \<Rightarrow> 'a \<Rightarrow> bool"
    and inv :: "'s \<Rightarrow> bool" and abs :: "'s \<Rightarrow> 'a"
  assumes inv_step: "inv s \<Longrightarrow> conc s e s' \<Longrightarrow> inv s'"
    and sim_step: "inv s \<Longrightarrow> conc s e s' \<Longrightarrow> spec (abs s) e (abs s')"
begin

lemma inv_trace: "trace conc s es s' \<Longrightarrow> inv s \<Longrightarrow> inv s'"
  by (induction rule: trace.induct) (auto intro: inv_step)

lemma sim_trace: "trace conc s es s' \<Longrightarrow> inv s \<Longrightarrow> trace spec (abs s) es (abs s')"
  by (induction rule: trace.induct) (auto intro: trace.intros sim_step inv_step)

end

end
