(* ===== verification/Go_IO.thy ===== *)
theory Go_IO
  imports Prelude
begin

text \<open>
  The parts of Go's \<open>io\<close> and \<open>os\<close> packages the components share. A source of bytes (a connection, a
  file) is a \<open>Reader\<close>: the bytes that are still to come and the error the reads return after them.
  The value \<open>StillWaiting\<close> in the place of that error is no error: no further byte comes and the connection stays
  open, so that a read beyond the bytes that came does not return. Only a connection without a read deadline ends so. A write is given its outcome by the environment: all bytes accepted, or an error after a part of
  them.
\<close>

datatype IOError = EOF | ErrUnexpectedEOF | IOFailure string | StillWaiting

record Reader =
  rd_data :: bytes
  rd_end :: IOError

text \<open>\<open>io.ReadFull\<close> into a buffer of \<open>n\<close> bytes: the bytes, or the error and what it leaves. An end of
  input after at least one byte is \<open>ErrUnexpectedEOF\<close>.\<close>

definition ReadFull :: "Reader \<Rightarrow> nat \<Rightarrow> (IOError, bytes) go \<times> Reader" where
  "ReadFull r n =
     (if n \<le> length (rd_data r)
      then (Ok (take n (rd_data r)), r\<lparr>rd_data := drop n (rd_data r)\<rparr>)
      else (Err (if rd_end r = EOF \<and> rd_data r \<noteq> [] then ErrUnexpectedEOF else rd_end r),
            r\<lparr>rd_data := []\<rparr>))"

datatype write_outcome = WriteOk | WriteErr nat IOError

text \<open>The bytes of a write that reach the other side, and the error the call returns.\<close>

fun written :: "write_outcome \<Rightarrow> bytes \<Rightarrow> bytes" where
  "written WriteOk b = b"
| "written (WriteErr n e) b = take n b"

fun write_error :: "write_outcome \<Rightarrow> IOError option" where
  "write_error WriteOk = None"
| "write_error (WriteErr n e) = Some e"

text \<open>What dialling gives: an error, or a connection on which one request is written and an answer comes back.\<close>

type_synonym dialed = "IOError + write_outcome \<times> Reader"

lemma ReadFull_prefix [simp]:
  "length b = n \<Longrightarrow> ReadFull \<lparr>rd_data = b @ rest, rd_end = e\<rparr> n = (Ok b, \<lparr>rd_data = rest, rd_end = e\<rparr>)"
  by (simp add: ReadFull_def)

lemma ReadFull_all [simp]:
  "length b = n \<Longrightarrow> ReadFull \<lparr>rd_data = b, rd_end = e\<rparr> n = (Ok b, \<lparr>rd_data = [], rd_end = e\<rparr>)"
  using ReadFull_prefix [of b n "[]" e] by simp

lemma ReadFull_empty [simp]:
  "0 < n \<Longrightarrow> ReadFull \<lparr>rd_data = [], rd_end = EOF\<rparr> n = (Err EOF, \<lparr>rd_data = [], rd_end = EOF\<rparr>)"
  by (simp add: ReadFull_def)

lemma ReadFull_short [simp]:
  "length b < n \<Longrightarrow> b \<noteq> [] \<Longrightarrow>
   ReadFull \<lparr>rd_data = b, rd_end = EOF\<rparr> n = (Err ErrUnexpectedEOF, \<lparr>rd_data = [], rd_end = EOF\<rparr>)"
  by (simp add: ReadFull_def)

lemma ReadFull_Ok_length:
  "ReadFull r n = (Ok b, r') \<Longrightarrow> length b = n \<and> length (rd_data r') + n = length (rd_data r)"
  by (auto simp: ReadFull_def split: if_splits)

end
