(* ===== verification/WAL_Record.thy ===== *)
theory WAL_Record
  imports Go_IO
begin

text \<open>
  The log's on-disk format and its replay: \<open>storage/wal/wal_record.go\<close> and
  \<open>storage/wal/wal_replay.go\<close>. A record is a 15-byte header, the key and, for a set, the value;
  records follow one another with no separator.
\<close>

section \<open>Records\<close>

definition WAL_OpSet :: byte where "WAL_OpSet = 1"
definition WAL_OpDelete :: byte where "WAL_OpDelete = 2"

definition recordHeaderSize :: nat where
  "recordHeaderSize = 1 + 2 + 4 + 8"

record Record =
  wr_Op :: byte
  wr_Key :: bytes
  wr_Value :: bytes
  wr_ExpiresAt :: gotime

text \<open>The zero \<open>time.Time\<close>, midnight of January 1 of year 1, which a delete record carries.\<close>

definition zero_time :: gotime where
  "zero_time = - 62135596800 * 1000000000"

definition encode :: "Record \<Rightarrow> bytes" where
  "encode r =
     (let buf = make_buf (recordHeaderSize + length (wr_Key r) + length (wr_Value r));
          buf = copy_at 0 [wr_Op r] buf;
          buf = copy_at 1 (PutUint16 (word_of_nat (length (wr_Key r)))) buf;
          buf = copy_at 3 (PutUint32 (word_of_nat (length (wr_Value r)))) buf;
          buf = (if wr_Op r = WAL_OpSet then copy_at 7 (PutUint64 (unix_nano (wr_ExpiresAt r))) buf else buf);
          buf = copy_at recordHeaderSize (wr_Key r) buf
      in copy_at (recordHeaderSize + length (wr_Key r)) (wr_Value r) buf)"

fun unexpectedEOF :: "IOError \<Rightarrow> IOError" where
  "unexpectedEOF e = (if e = EOF then ErrUnexpectedEOF else e)"

definition readRecord :: "Reader \<Rightarrow> (IOError, Record) go \<times> Reader" where
  "readRecord r =
     (case ReadFull r recordHeaderSize of
        (Err e, r1) \<Rightarrow> (Err e, r1)
      | (Panic, r1) \<Rightarrow> (Panic, r1)
      | (Ok header, r1) \<Rightarrow>
          (let op = header ! 0;
               keyLen = Uint16 (sub header 1 3);
               valLen = Uint32 (sub header 3 7);
               expiresAt = Uint64 (sub header 7 15)
           in case ReadFull r1 (unat keyLen) of
                (Err e, r2) \<Rightarrow> (Err (unexpectedEOF e), r2)
              | (Panic, r2) \<Rightarrow> (Panic, r2)
              | (Ok key, r2) \<Rightarrow>
                  (if op = WAL_OpSet
                   then (case ReadFull r2 (unat valLen) of
                           (Err e, r3) \<Rightarrow> (Err (unexpectedEOF e), r3)
                         | (Panic, r3) \<Rightarrow> (Panic, r3)
                         | (Ok val, r3) \<Rightarrow>
                             (Ok \<lparr>wr_Op = op, wr_Key = key, wr_Value = val,
                                  wr_ExpiresAt = from_nano expiresAt\<rparr>, r3))
                   else (Ok \<lparr>wr_Op = op, wr_Key = key, wr_Value = [],
                             wr_ExpiresAt = from_nano expiresAt\<rparr>, r2))))"

text \<open>The records the store appends: a set, or a delete without value, whose lengths fit their
  fields.\<close>

definition Record_valid :: "Record \<Rightarrow> bool" where
  "Record_valid r \<longleftrightarrow> length (wr_Key r) < 65536 \<and> length (wr_Value r) < 4294967296 \<and>
     (wr_Op r = WAL_OpSet \<or> wr_Op r = WAL_OpDelete \<and> wr_Value r = [])"

text \<open>What reading a record back gives: the expiry of a set as 64 bits of nanoseconds keep it, the
  epoch for a delete.\<close>

definition as_read :: "Record \<Rightarrow> Record" where
  "as_read r = r\<lparr>wr_ExpiresAt := if wr_Op r = WAL_OpSet then from_nano (unix_nano (wr_ExpiresAt r)) else 0\<rparr>"

section \<open>Lemmas on records\<close>

lemma encode_layout:
  "encode r = [wr_Op r] @ PutUint16 (word_of_nat (length (wr_Key r))) @
     PutUint32 (word_of_nat (length (wr_Value r))) @
     (if wr_Op r = WAL_OpSet then PutUint64 (unix_nano (wr_ExpiresAt r)) else make_buf 8) @
     wr_Key r @ wr_Value r"
  by (simp add: encode_def recordHeaderSize_def Let_def buffer_simps)

lemma length_encode: "length (encode r) = 15 + length (wr_Key r) + length (wr_Value r)"
  by (simp add: encode_layout)

lemma Uint64_zero [simp]: "Uint64 (make_buf 8) = 0"
  by (simp add: Uint64_def be_get_def make_buf_def numeral_eq_Suc)

text \<open>The header in one piece, so that a read of 15 bytes meets exactly it.\<close>

definition header :: "Record \<Rightarrow> bytes" where
  "header r = [wr_Op r] @ PutUint16 (word_of_nat (length (wr_Key r))) @
     PutUint32 (word_of_nat (length (wr_Value r))) @
     (if wr_Op r = WAL_OpSet then PutUint64 (unix_nano (wr_ExpiresAt r)) else make_buf 8)"

lemma encode_header: "encode r = header r @ wr_Key r @ wr_Value r"
  by (simp add: encode_layout header_def)

lemma length_header [simp]: "length (header r) = recordHeaderSize"
  by (simp add: header_def recordHeaderSize_def)

lemma header_fields [simp]:
  "header r ! 0 = wr_Op r"
  "Uint16 (sub (header r) (Suc 0) 3) = word_of_nat (length (wr_Key r))"
  "Uint32 (sub (header r) 3 7) = word_of_nat (length (wr_Value r))"
  "Uint64 (sub (header r) 7 15) = (if wr_Op r = WAL_OpSet then unix_nano (wr_ExpiresAt r) else 0)"
  by (simp_all add: header_def)

lemma from_nano_0 [simp]: "from_nano 0 = 0"
  by (simp add: from_nano_def)

lemma readRecord_encode:
  assumes "Record_valid r"
  shows "readRecord \<lparr>rd_data = encode r @ rest, rd_end = e\<rparr> = (Ok (as_read r), \<lparr>rd_data = rest, rd_end = e\<rparr>)"
  using assms
  by (cases r) (auto simp: readRecord_def encode_header Record_valid_def as_read_def WAL_OpSet_def WAL_OpDelete_def)

lemma readRecord_end: "readRecord \<lparr>rd_data = [], rd_end = EOF\<rparr> = (Err EOF, \<lparr>rd_data = [], rd_end = EOF\<rparr>)"
  by (simp add: readRecord_def recordHeaderSize_def)

lemma readRecord_torn:
  assumes "Record_valid r" and "0 < n" and "n < length (encode r)"
  shows "readRecord \<lparr>rd_data = take n (encode r), rd_end = EOF\<rparr> =
    (Err ErrUnexpectedEOF, \<lparr>rd_data = [], rd_end = EOF\<rparr>)"
proof (cases rule: split_at [of n recordHeaderSize])
  case before
  moreover have "take n (encode r) \<noteq> []"
    using assms(2) by (simp add: encode_layout take_Cons')
  ultimately show ?thesis
    using assms(3) by (simp add: readRecord_def)
next
  case (at k)
  have k: "k < length (wr_Key r) + length (wr_Value r)"
    using assms(3) at by (simp add: length_encode recordHeaderSize_def)
  show ?thesis
  proof (cases rule: split_at [of k "length (wr_Key r)"])
    case before
    with at k assms(1) show ?thesis
      by (auto simp: readRecord_def encode_header Record_valid_def ReadFull_def Let_def)
  next
    case (at j)
    with \<open>n = recordHeaderSize + k\<close> k assms(1) show ?thesis
      by (auto simp: readRecord_def encode_header Record_valid_def ReadFull_def Let_def)
  qed
qed

lemma readRecord_consumes: "readRecord r = (Ok x, r') \<Longrightarrow> length (rd_data r') < length (rd_data r)"
  by (auto simp: readRecord_def Let_def recordHeaderSize_def split: prod.splits go.splits if_splits
      dest!: ReadFull_Ok_length)

section \<open>Replay\<close>

text \<open>The loop of \<open>Replay\<close>; \<open>cb\<close> is the callback \<open>apply\<close> on the caller's state. It ends because every
  record read consumes its header.\<close>

function replay_loop :: "(Record \<Rightarrow> 's \<Rightarrow> 's) \<Rightarrow> Reader \<Rightarrow> 's \<Rightarrow> (IOError, unit) go \<times> 's" where
  "replay_loop cb r s =
     (case readRecord r of
        (Ok rec, r') \<Rightarrow> replay_loop cb r' (cb rec s)
      | (Err e, r') \<Rightarrow> (if e = EOF then (Ok (), s) else (Err e, s))
      | (Panic, r') \<Rightarrow> (Panic, s))"
  by pat_completeness auto
termination
  by (relation "measure (\<lambda>(cb, r, s). length (rd_data r))") (auto dest: readRecord_consumes [OF sym])

declare replay_loop.simps [simp del]

text \<open>The file at the log's path: absent, present, or not openable for another reason.\<close>

datatype log_file = NoFile | File Reader | OpenError IOError

fun Replay :: "log_file \<Rightarrow> (Record \<Rightarrow> 's \<Rightarrow> 's) \<Rightarrow> 's \<Rightarrow> (IOError, unit) go \<times> 's" where
  "Replay NoFile cb s = (Ok (), s)"
| "Replay (OpenError e) cb s = (Err e, s)"
| "Replay (File r) cb s = replay_loop cb r s"

text \<open>The contents of a log that holds the given records.\<close>

definition log_bytes :: "Record list \<Rightarrow> bytes" where
  "log_bytes rs = concat (map encode rs)"

abbreviation file_of :: "bytes \<Rightarrow> log_file" where
  "file_of b \<equiv> File \<lparr>rd_data = b, rd_end = EOF\<rparr>"

lemma log_bytes_simps [simp]:
  "log_bytes [] = []"
  "log_bytes (r # rs) = encode r @ log_bytes rs"
  "log_bytes (rs @ rs') = log_bytes rs @ log_bytes rs'"
  by (simp_all add: log_bytes_def)

lemma replay_loop_log:
  "list_all Record_valid rs \<Longrightarrow>
   replay_loop cb \<lparr>rd_data = log_bytes rs @ tail, rd_end = e\<rparr> s =
   replay_loop cb \<lparr>rd_data = tail, rd_end = e\<rparr> (fold cb (map as_read rs) s)"
proof (induction rs arbitrary: s)
  case Nil
  then show ?case by simp
next
  case (Cons r rs)
  then show ?case
    by (subst replay_loop.simps) (simp add: readRecord_encode)
qed

lemma replay_loop_end: "replay_loop cb \<lparr>rd_data = [], rd_end = EOF\<rparr> s = (Ok (), s)"
  by (subst replay_loop.simps) (simp add: readRecord_end)

section \<open>Properties\<close>

text \<open>Replaying a log hands the callback exactly the records that were appended to it,
  oldest first, and ends without an error.\<close>

lemma replay_round_trip:
  assumes "list_all Record_valid rs"
  shows "Replay (file_of (log_bytes rs)) cb s = (Ok (), fold cb (map as_read rs) s)"
  using replay_loop_log [OF assms, of cb "[]" EOF s] by (simp add: replay_loop_end)

text \<open>C38 (error): a log whose last record was cut off, as a crash in the middle of a write leaves it,
  is replayed up to that record and then fails with \<open>ErrUnexpectedEOF\<close>, wherever the cut is.\<close>

theorem replay_torn_tail:
  assumes "list_all Record_valid rs" and "Record_valid r" and "0 < n" and "n < length (encode r)"
  shows "Replay (file_of (log_bytes rs @ take n (encode r))) cb s =
    (Err ErrUnexpectedEOF, fold cb (map as_read rs) s)"
proof -
  have "replay_loop cb \<lparr>rd_data = take n (encode r), rd_end = EOF\<rparr> t = (Err ErrUnexpectedEOF, t)" for t
    by (subst replay_loop.simps) (simp add: readRecord_torn [OF assms(2-4)])
  then show ?thesis
    using replay_loop_log [OF assms(1), of cb "take n (encode r)" EOF s] by simp
qed

theorem replay_torn_tail_witness:
  "Replay (file_of (log_bytes [] @ take 16 (encode \<lparr>wr_Op = WAL_OpSet, wr_Key = [1], wr_Value = [2],
      wr_ExpiresAt = 50\<rparr>))) (#) [] = (Err ErrUnexpectedEOF, [])"
  by (subst replay_torn_tail) (simp_all add: Record_valid_def length_encode)

text \<open>The expiry survives the log exactly when its nanosecond count fits a signed 64-bit
  integer, that is up to the year 2262; a later expiry comes back as a different time.\<close>

lemma logged_expiry_exact_iff:
  "wr_Op r = WAL_OpSet \<Longrightarrow> wr_ExpiresAt (as_read r) = wr_ExpiresAt r \<longleftrightarrow> nano_range (wr_ExpiresAt r)"
  using nano_range_from_nano [of "unix_nano (wr_ExpiresAt r)"] from_nano_unix_nano
  by (auto simp: as_read_def)

end
