(* ===== verification/WAL.thy ===== *)
theory WAL
  imports WAL_Record
begin

text \<open>
  The log writer: \<open>storage/wal/wal_writer.go\<close>, \<open>wal_options.go\<close> and \<open>wal_compaction.go\<close>. In the
  modes \<open>always\<close> and \<open>none\<close> an append writes the file itself; in the mode \<open>interval\<close> it sends the
  record over a buffered channel to a flusher goroutine that writes batches. The steps of that
  goroutine, of the callers and of \<open>Close\<close> are events, and a run is any sequence of events that are
  possible one after the other.

  Every call into the operating system is given its outcome. \<open>w_disk\<close> is the content of the file at
  the log's path and \<open>w_synced\<close> the length of the part that is on stable storage. \<open>w_detached\<close> says
  that the open handle no longer refers to the file at the path.
\<close>

section \<open>State\<close>

type_synonym SyncMode = string

definition SyncAlways :: SyncMode where "SyncAlways = ''always''"
definition SyncInterval :: SyncMode where "SyncInterval = ''interval''"
definition SyncNone :: SyncMode where "SyncNone = ''none''"

record Options =
  o_Mode :: SyncMode
  o_FlushInterval :: duration
  o_MaxBatchSize :: int

record WAL =
  w_options :: Options
  w_disk :: bytes
  w_synced :: nat
  w_detached :: bool
  w_closed :: bool
  w_writeCh :: "bytes list"
  w_batch :: "bytes list"
  w_stopCh :: bool
  w_flusher :: bool

abbreviation w_Mode :: "WAL \<Rightarrow> SyncMode" where
  "w_Mode w \<equiv> o_Mode (w_options w)"

abbreviation w_MaxBatchSize :: "WAL \<Rightarrow> int" where
  "w_MaxBatchSize w \<equiv> o_MaxBatchSize (w_options w)"

section \<open>The file\<close>

definition file_write :: "write_outcome \<Rightarrow> bytes \<Rightarrow> WAL \<Rightarrow> IOError option \<times> WAL" where
  "file_write out b w =
     (if w_closed w then (Some (IOFailure ''file already closed''), w)
      else (write_error out, if w_detached w then w else w\<lparr>w_disk := w_disk w @ written out b\<rparr>))"

definition file_sync :: "IOError option \<Rightarrow> WAL \<Rightarrow> IOError option \<times> WAL" where
  "file_sync sy w =
     (if w_closed w then (Some (IOFailure ''file already closed''), w)
      else case sy of
             Some e \<Rightarrow> (Some e, w)
           | None \<Rightarrow> (None, if w_detached w then w else w\<lparr>w_synced := length (w_disk w)\<rparr>))"

section \<open>Opening and appending\<close>

text \<open>\<open>os.OpenFile\<close> either fails or yields the file with its present contents, empty if it was just
  created; what the file holds then counts as stable. A channel of negative capacity and a ticker without a positive period panic.\<close>

definition open_state :: "bytes \<Rightarrow> Options \<Rightarrow> WAL" where
  "open_state contents opts =
     \<lparr>w_options = opts, w_disk = contents, w_synced = length contents, w_detached = False,
      w_closed = False, w_writeCh = [], w_batch = [], w_stopCh = False,
      w_flusher = (o_Mode opts = SyncInterval)\<rparr>"

definition Open :: "IOError + bytes \<Rightarrow> Options \<Rightarrow> (IOError, WAL) go" where
  "Open opened opts =
     (case opened of
        Inl e \<Rightarrow> Err e
      | Inr contents \<Rightarrow>
          (if o_Mode opts = SyncInterval \<and> (o_MaxBatchSize opts < 0 \<or> o_FlushInterval opts \<le> 0) then Panic
           else Ok (open_state contents opts)))"

text \<open>\<open>None\<close> means that the call blocks: the channel, of capacity \<open>MaxBatchSize*2\<close>, is full. (An
  unbuffered channel, \<open>MaxBatchSize = 0\<close>, is not modelled; \<open>config.Load\<close> only sets positive values.)\<close>

definition append :: "write_outcome \<Rightarrow> IOError option \<Rightarrow> Record \<Rightarrow> WAL \<Rightarrow> (IOError option \<times> WAL) option" where
  "append out sy r w =
     (let buf = encode r
      in if w_Mode w = SyncInterval
         then (if int (length (w_writeCh w)) < w_MaxBatchSize w * 2
               then Some (None, w\<lparr>w_writeCh := w_writeCh w @ [buf]\<rparr>) else None)
         else case file_write out buf w of
                (Some e, w1) \<Rightarrow> Some (Some e, w1)
              | (None, w1) \<Rightarrow>
                  (if w_Mode w = SyncAlways then Some (file_sync sy w1) else Some (None, w1)))"

definition set_record :: "bytes \<Rightarrow> bytes \<Rightarrow> gotime \<Rightarrow> Record" where
  "set_record key val expiresAt =
     \<lparr>wr_Op = WAL_OpSet, wr_Key = key, wr_Value = val, wr_ExpiresAt = expiresAt\<rparr>"

definition delete_record :: "bytes \<Rightarrow> Record" where
  "delete_record key = \<lparr>wr_Op = WAL_OpDelete, wr_Key = key, wr_Value = [], wr_ExpiresAt = zero_time\<rparr>"

definition AppendSet :: "write_outcome \<Rightarrow> IOError option \<Rightarrow> bytes \<Rightarrow> bytes \<Rightarrow> gotime \<Rightarrow> WAL \<Rightarrow>
    (IOError option \<times> WAL) option" where
  "AppendSet out sy key val expiresAt w = append out sy (set_record key val expiresAt) w"

definition AppendDelete :: "write_outcome \<Rightarrow> IOError option \<Rightarrow> bytes \<Rightarrow> WAL \<Rightarrow>
    (IOError option \<times> WAL) option" where
  "AppendDelete out sy key w = append out sy (delete_record key) w"

section \<open>The flusher\<close>

text \<open>\<open>flush\<close> ignores the errors of its writes; \<open>outs i\<close> is the outcome of the \<open>i\<close>-th write.\<close>

fun write_batch :: "(nat \<Rightarrow> write_outcome) \<Rightarrow> nat \<Rightarrow> bytes list \<Rightarrow> WAL \<Rightarrow> WAL" where
  "write_batch outs i [] w = w"
| "write_batch outs i (b # bs) w = write_batch outs (Suc i) bs (snd (file_write (outs i) b w))"

definition flush :: "(nat \<Rightarrow> write_outcome) \<Rightarrow> IOError option \<Rightarrow> WAL \<Rightarrow> WAL" where
  "flush outs sy w =
     (if w_batch w = [] then w
      else (snd (file_sync sy (write_batch outs 0 (w_batch w) w)))\<lparr>w_batch := []\<rparr>)"

text \<open>The three cases of the \<open>select\<close> in \<open>runFlusher\<close>; \<open>None\<close> where the case is not ready. Go picks
  any case that is ready.\<close>

definition flusher_stop :: "(nat \<Rightarrow> write_outcome) \<Rightarrow> IOError option \<Rightarrow> WAL \<Rightarrow> WAL option" where
  "flusher_stop outs sy w =
     (if w_flusher w \<and> w_stopCh w then Some ((flush outs sy w)\<lparr>w_flusher := False\<rparr>) else None)"

definition flusher_recv :: "(nat \<Rightarrow> write_outcome) \<Rightarrow> IOError option \<Rightarrow> WAL \<Rightarrow> WAL option" where
  "flusher_recv outs sy w =
     (if w_flusher w
      then case w_writeCh w of
             [] \<Rightarrow> None
           | d # q \<Rightarrow>
               (let w1 = w\<lparr>w_writeCh := q, w_batch := w_batch w @ [d]\<rparr>
                in Some (if int (length (w_batch w1)) \<ge> w_MaxBatchSize w1 then flush outs sy w1 else w1))
      else None)"

definition flusher_tick :: "(nat \<Rightarrow> write_outcome) \<Rightarrow> IOError option \<Rightarrow> WAL \<Rightarrow> WAL option" where
  "flusher_tick outs sy w = (if w_flusher w then Some (flush outs sy w) else None)"

section \<open>Closing\<close>

text \<open>\<open>Close\<close> in the mode \<open>interval\<close> closes \<open>stopCh\<close>, waits for the flusher to return and closes the
  file; otherwise it syncs and closes.\<close>

definition Close_begin :: "IOError option \<Rightarrow> WAL \<Rightarrow> WAL" where
  "Close_begin sy w =
     (if w_Mode w = SyncInterval then w\<lparr>w_stopCh := True\<rparr> else snd (file_sync sy w))"

definition Close_end :: "WAL \<Rightarrow> WAL option" where
  "Close_end w =
     (if w_Mode w = SyncInterval \<and> w_flusher w then None else Some (w\<lparr>w_closed := True\<rparr>))"

section \<open>Compaction\<close>

fun first_error :: "IOError option list \<Rightarrow> IOError option" where
  "first_error [] = None"
| "first_error (Some e # es) = Some e"
| "first_error (None # es) = first_error es"

text \<open>\<open>writeSnapshot\<close> ends with the first error among opening the temporary file, the snapshot callback,
  the flush of the buffer, the sync and the close.\<close>

definition writeSnapshot :: "IOError option list \<Rightarrow> Record list \<Rightarrow> IOError option \<times> bytes" where
  "writeSnapshot errs recs = (first_error errs, concat (map encode recs))"

definition Compact :: "IOError option list \<Rightarrow> IOError option \<Rightarrow> IOError option \<Rightarrow> Record list \<Rightarrow> WAL \<Rightarrow>
    IOError option \<times> WAL" where
  "Compact snapErrs renameErr openErr recs w =
     (case writeSnapshot snapErrs recs of
        (Some e, tmp) \<Rightarrow> (Some e, w)
      | (None, tmp) \<Rightarrow>
          (case renameErr of
             Some e \<Rightarrow> (Some e, w)
           | None \<Rightarrow>
               (let w1 = w\<lparr>w_disk := tmp, w_synced := length tmp, w_detached := True\<rparr>
                in case openErr of
                     Some e \<Rightarrow> (Some e, w1)
                   | None \<Rightarrow> (None, w1\<lparr>w_detached := False, w_closed := False\<rparr>))))"

section \<open>Runs\<close>

datatype wal_event =
    Append write_outcome "IOError option" Record
  | Recv "nat \<Rightarrow> write_outcome" "IOError option"
  | Tick "nat \<Rightarrow> write_outcome" "IOError option"
  | CloseCall "IOError option"
  | Stop "nat \<Rightarrow> write_outcome" "IOError option"
  | CloseReturn

fun wal_exec :: "wal_event \<Rightarrow> WAL \<Rightarrow> WAL option" where
  "wal_exec (Append out sy r) w = map_option snd (append out sy r w)"
| "wal_exec (Recv outs sy) w = flusher_recv outs sy w"
| "wal_exec (Tick outs sy) w = flusher_tick outs sy w"
| "wal_exec (CloseCall sy) w = Some (Close_begin sy w)"
| "wal_exec (Stop outs sy) w = flusher_stop outs sy w"
| "wal_exec CloseReturn w = Close_end w"

fun wal_run :: "wal_event list \<Rightarrow> WAL \<Rightarrow> WAL option" where
  "wal_run [] w = Some w"
| "wal_run (e # es) w = (case wal_exec e w of None \<Rightarrow> None | Some w' \<Rightarrow> wal_run es w')"

text \<open>The records whose append was called in a run, and the events in which the operating system
  reports no error.\<close>

fun appended :: "wal_event list \<Rightarrow> Record list" where
  "appended [] = []"
| "appended (Append out sy r # es) = r # appended es"
| "appended (_ # es) = appended es"

fun event_ok :: "wal_event \<Rightarrow> bool" where
  "event_ok (Append out sy r) \<longleftrightarrow> out = WriteOk \<and> sy = None"
| "event_ok (Recv outs sy) \<longleftrightarrow> outs = (\<lambda>_. WriteOk) \<and> sy = None"
| "event_ok (Tick outs sy) \<longleftrightarrow> outs = (\<lambda>_. WriteOk) \<and> sy = None"
| "event_ok (CloseCall sy) \<longleftrightarrow> sy = None"
| "event_ok (Stop outs sy) \<longleftrightarrow> outs = (\<lambda>_. WriteOk) \<and> sy = None"
| "event_ok CloseReturn \<longleftrightarrow> True"

text \<open>Where the records of a log are: the first \<open>k\<close> on disk, the others waiting, in order.\<close>

definition pending :: "WAL \<Rightarrow> bytes list" where
  "pending w = w_batch w @ w_writeCh w"

definition log_inv :: "bytes \<Rightarrow> Record list \<Rightarrow> WAL \<Rightarrow> bool" where
  "log_inv base rs w \<longleftrightarrow> w_Mode w = SyncInterval \<and> \<not> w_detached w \<and> (w_flusher w \<longrightarrow> \<not> w_closed w) \<and>
     (\<not> w_flusher w \<longrightarrow> w_batch w = []) \<and> w_synced w = length (w_disk w) \<and>
     (\<exists>k \<le> length rs. w_disk w = base @ log_bytes (take k rs) \<and> pending w = map encode (drop k rs))"

text \<open>How much can be waiting: less than a batch at the flusher, two batches in the channel.\<close>

definition window_inv :: "WAL \<Rightarrow> bool" where
  "window_inv w \<longleftrightarrow> w_Mode w = SyncInterval \<and> 0 < w_MaxBatchSize w \<and>
     int (length (w_batch w)) < w_MaxBatchSize w \<and> int (length (w_writeCh w)) \<le> w_MaxBatchSize w * 2"

section \<open>Lemmas\<close>

lemma write_batch_ok:
  "\<not> w_closed w \<Longrightarrow> \<not> w_detached w \<Longrightarrow>
   write_batch (\<lambda>_. WriteOk) i bs w = w\<lparr>w_disk := w_disk w @ concat bs\<rparr>"
  by (induction bs arbitrary: i w) (simp_all add: file_write_def)

lemma flush_ok:
  "\<not> w_closed w \<Longrightarrow> \<not> w_detached w \<Longrightarrow> w_synced w = length (w_disk w) \<Longrightarrow>
   flush (\<lambda>_. WriteOk) None w =
     w\<lparr>w_disk := w_disk w @ concat (w_batch w), w_synced := length (w_disk w @ concat (w_batch w)), w_batch := []\<rparr>"
  by (simp add: flush_def write_batch_ok file_sync_def)

lemma log_inv_flush:
  assumes "log_inv base rs w" and "w_flusher w"
  shows "log_inv base rs (flush (\<lambda>_. WriteOk) None w)"
proof -
  from assms obtain k where k: "k \<le> length rs" "w_disk w = base @ log_bytes (take k rs)"
    and p: "w_batch w @ w_writeCh w = map encode (drop k rs)"
    by (auto simp: log_inv_def pending_def)
  let ?k = "k + length (w_batch w)"
  have "length (w_batch w) \<le> length rs - k"
    using arg_cong [OF p, of length] by simp
  moreover from p have "w_batch w = map encode (take (length (w_batch w)) (drop k rs))"
    and "w_writeCh w = map encode (drop ?k rs)"
    by (metis append_eq_conv_conj take_map) (metis add.commute append_eq_conv_conj drop_drop drop_map p)
  ultimately have "?k \<le> length rs" "log_bytes (take ?k rs) = log_bytes (take k rs) @ concat (w_batch w)"
    using k by (simp_all add: take_add log_bytes_def)
  with assms k(2) \<open>w_writeCh w = _\<close> show ?thesis
    by (auto simp: log_inv_def pending_def flush_ok intro!: exI [of _ ?k])
qed

lemma log_inv_append:
  assumes "log_inv base rs w" and "append out sy r w = Some (err, w')"
  shows "log_inv base (rs @ [r]) w'"
proof -
  have w': "w' = w\<lparr>w_writeCh := w_writeCh w @ [encode r]\<rparr>"
    using assms by (auto simp: append_def log_inv_def Let_def split: if_splits)
  from assms(1) obtain k where k: "k \<le> length rs" "w_disk w = base @ log_bytes (take k rs)"
    "w_batch w @ w_writeCh w = map encode (drop k rs)"
    by (auto simp: log_inv_def pending_def)
  then have "w_batch w' @ w_writeCh w' = map encode (drop k (rs @ [r]))"
    using w' by (simp flip: append_assoc)
  with k w' assms(1) show ?thesis
    by (auto simp: log_inv_def pending_def intro!: exI [of _ k])
qed

lemma log_inv_recv:
  assumes "log_inv base rs w" and "flusher_recv (\<lambda>_. WriteOk) None w = Some w'"
  shows "log_inv base rs w'"
proof -
  from assms(2) obtain d q where q: "w_flusher w" "w_writeCh w = d # q"
    by (auto simp: flusher_recv_def split: if_splits list.splits)
  let ?w1 = "w\<lparr>w_writeCh := q, w_batch := w_batch w @ [d]\<rparr>"
  have w1: "log_inv base rs ?w1"
    using assms(1) q by (simp add: log_inv_def pending_def)
  then have "log_inv base rs (flush (\<lambda>_. WriteOk) None ?w1)"
    using q by (intro log_inv_flush) simp_all
  with w1 assms(2) q show ?thesis
    by (auto simp: flusher_recv_def Let_def split: if_splits)
qed

lemma log_inv_stop:
  assumes "log_inv base rs w" and "flusher_stop (\<lambda>_. WriteOk) None w = Some w'"
  shows "log_inv base rs w'"
proof -
  from assms(2) have w: "w_flusher w" "w' = (flush (\<lambda>_. WriteOk) None w)\<lparr>w_flusher := False\<rparr>"
    by (auto simp: flusher_stop_def split: if_splits)
  have "w_batch (flush (\<lambda>_. WriteOk) None w) = []"
    by (simp add: flush_def)
  with log_inv_flush [OF assms(1) w(1)] w(2) show ?thesis
    by (simp add: log_inv_def pending_def)
qed

lemma log_inv_close:
  "log_inv base rs w \<Longrightarrow> log_inv base rs (Close_begin None w)"
  "log_inv base rs w \<Longrightarrow> Close_end w = Some w' \<Longrightarrow> log_inv base rs w'"
  by (auto simp: log_inv_def pending_def Close_begin_def Close_end_def split: if_splits)

lemma log_inv_exec:
  assumes "log_inv base rs w" and "event_ok ev" and "wal_exec ev w = Some w'"
  shows "log_inv base (rs @ appended [ev]) w'"
  using assms
  by (cases ev) (auto simp: flusher_tick_def intro: log_inv_append log_inv_recv log_inv_stop log_inv_flush
      log_inv_close split: if_splits)

lemma appended_Cons: "appended (e # es) = appended [e] @ appended es"
  by (cases e) simp_all

lemma log_inv_run:
  "log_inv base rs w \<Longrightarrow> list_all event_ok es \<Longrightarrow> wal_run es w = Some w' \<Longrightarrow>
   log_inv base (rs @ appended es) w'"
proof (induction es arbitrary: w rs)
  case Nil
  then show ?case by simp
next
  case (Cons e es)
  then obtain w1 where "wal_exec e w = Some w1" and "wal_run es w1 = Some w'"
    by (auto split: option.splits)
  with Cons.IH [of "rs @ appended [e]" w1] log_inv_exec [of base rs w e w1] Cons.prems show ?case
    by (simp add: appended_Cons [of e es])
qed

lemma log_inv_open: "o_Mode opts = SyncInterval \<Longrightarrow> log_inv base [] (open_state base opts)"
  by (simp add: open_state_def log_inv_def pending_def)

lemma write_batch_fields [simp]:
  "w_options (write_batch outs i bs w) = w_options w"
  "w_writeCh (write_batch outs i bs w) = w_writeCh w"
  by (induction bs arbitrary: i w) (simp_all add: file_write_def)

lemma flush_fields [simp]:
  "w_options (flush outs sy w) = w_options w"
  "w_writeCh (flush outs sy w) = w_writeCh w"
  "w_batch (flush outs sy w) = []"
  by (simp_all add: flush_def file_sync_def split: option.splits)

lemma window_inv_flush: "window_inv w \<Longrightarrow> window_inv (flush outs sy w)"
  by (simp add: window_inv_def)

lemma window_inv_exec: "window_inv w \<Longrightarrow> wal_exec ev w = Some w' \<Longrightarrow> window_inv w'"
proof (cases ev)
  case (Recv outs sy)
  assume w: "window_inv w" "wal_exec ev w = Some w'"
  then obtain d q where q: "w_writeCh w = d # q"
    using Recv by (auto simp: flusher_recv_def split: if_splits list.splits)
  let ?w1 = "w\<lparr>w_writeCh := q, w_batch := w_batch w @ [d]\<rparr>"
  have w': "w' = (if w_MaxBatchSize ?w1 \<le> int (length (w_batch ?w1)) then flush outs sy ?w1 else ?w1)"
    using w Recv q by (auto simp: flusher_recv_def Let_def split: if_splits)
  show ?thesis
  proof (cases "w_MaxBatchSize ?w1 \<le> int (length (w_batch ?w1))")
    case True
    then have "w_options w' = w_options w \<and> w_writeCh w' = q \<and> w_batch w' = []"
      using w' by simp
    then show ?thesis using w(1) q by (simp add: window_inv_def)
  next
    case False
    then show ?thesis using w(1) w' q by (simp add: window_inv_def)
  qed
qed (auto simp: flusher_tick_def flusher_stop_def append_def Close_begin_def Close_end_def Let_def
    window_inv_def split: if_splits)

lemma window_inv_run: "window_inv w \<Longrightarrow> wal_run es w = Some w' \<Longrightarrow> window_inv w'"
proof (induction es arbitrary: w)
  case (Cons e es)
  then obtain w1 where "wal_exec e w = Some w1" and "wal_run es w1 = Some w'"
    by (auto split: option.splits)
  with Cons show ?case using window_inv_exec by blast
qed simp

lemma append_options: "append out sy r w = Some (err, w') \<Longrightarrow> w_options w' = w_options w"
  by (auto simp: append_def file_write_def file_sync_def Let_def split: if_splits option.splits)

lemma recv_options: "flusher_recv outs sy w = Some w' \<Longrightarrow> w_options w' = w_options w"
  by (auto simp: flusher_recv_def Let_def split: if_splits list.splits)

lemma wal_exec_options: "wal_exec ev w = Some w' \<Longrightarrow> w_options w' = w_options w"
  by (cases ev)
    (auto simp: flusher_tick_def flusher_stop_def Close_begin_def Close_end_def file_sync_def
      dest: append_options recv_options split: if_splits option.splits)

lemma wal_run_options: "wal_run es w = Some w' \<Longrightarrow> w_options w' = w_options w"
  by (induction es arbitrary: w) (auto dest: wal_exec_options split: option.splits)

lemmas wal_eval = open_state_def append_def flusher_recv_def flusher_tick_def flusher_stop_def flush_def
  file_write_def file_sync_def Close_begin_def Close_end_def pending_def Let_def

section \<open>Properties\<close>

text \<open>In the mode \<open>interval\<close>, as long as the operating system reports no error, the file
  always holds what it held when it was opened followed by the first \<open>k\<close> appended records, whole and
  in order and on stable storage, and the remaining ones wait in order in the batch and the channel.
  Whenever the process dies, the log it leaves replays cleanly.\<close>

lemma interval_log_is_prefix:
  assumes "o_Mode opts = SyncInterval" and "list_all event_ok es"
    and "wal_run es (open_state base opts) = Some w"
  shows "\<exists>k \<le> length (appended es). w_disk w = base @ log_bytes (take k (appended es)) \<and>
    pending w = map encode (drop k (appended es)) \<and> w_synced w = length (w_disk w)"
  using log_inv_run [OF log_inv_open [OF assms(1)] assms(2,3)] by (auto simp: log_inv_def)

text \<open>In the mode \<open>interval\<close> at most \<open>3*MaxBatchSize-1\<close> records wait to be written between the steps of the
  flusher, whatever the callers, the flusher and the operating system do; a crash there loses no more than those.\<close>

lemma interval_loss_window:
  assumes "o_Mode opts = SyncInterval" and "0 < o_MaxBatchSize opts"
    and "wal_run es (open_state base opts) = Some w"
  shows "int (length (pending w)) \<le> 3 * o_MaxBatchSize opts - 1"
proof -
  have "window_inv (open_state base opts)"
    using assms(1,2) by (simp add: open_state_def window_inv_def)
  then have "window_inv w" using assms(3) by (rule window_inv_run)
  moreover have "w_options w = opts"
    using wal_run_options [OF assms(3)] by (simp add: open_state_def)
  ultimately show ?thesis by (auto simp: window_inv_def pending_def)
qed

text \<open>In the mode \<open>always\<close> an append that returns no error has put its record at the end
  of the file and on stable storage.\<close>

lemma always_append_durable:
  assumes "append out sy r w = Some (None, w')" and "w_Mode w = SyncAlways" and "\<not> w_detached w"
  shows "w_disk w' = w_disk w @ encode r \<and> w_synced w' = length (w_disk w')"
proof -
  have "SyncAlways \<noteq> SyncInterval" by (simp add: SyncAlways_def SyncInterval_def)
  with assms show ?thesis
    by (cases out) (auto simp: append_def file_write_def file_sync_def Let_def split: if_splits option.splits)
qed

text \<open>C39 (safety): \<open>Close\<close> in the mode \<open>interval\<close> can return while acknowledged records are still in the
  channel: an append returns no error, \<open>Close\<close> closes \<open>stopCh\<close>, the flusher takes that case of its
  \<open>select\<close>, flushes its empty batch and returns, and the closed file does not hold the record.\<close>

theorem close_can_drop_acknowledged:
  assumes "o_Mode opts = SyncInterval" and "0 < o_MaxBatchSize opts"
  shows "\<exists>w1 w. append WriteOk None r (open_state base opts) = Some (None, w1) \<and>
    wal_run [CloseCall None, Stop (\<lambda>_. WriteOk) None, CloseReturn] w1 = Some w \<and>
    w_closed w \<and> w_disk w = base \<and> w_writeCh w = [encode r]"
  using assms by (simp add: wal_eval)

theorem close_can_drop_acknowledged_witness:
  "\<exists>w1 w. append WriteOk None (delete_record [1])
      (open_state [] \<lparr>o_Mode = SyncInterval, o_FlushInterval = 500, o_MaxBatchSize = 1000\<rparr>) = Some (None, w1) \<and>
    wal_run [CloseCall None, Stop (\<lambda>_. WriteOk) None, CloseReturn] w1 = Some w \<and>
    w_closed w \<and> w_disk w = [] \<and> w_writeCh w = [encode (delete_record [1])]"
  by (rule close_can_drop_acknowledged) simp_all

text \<open>When the flusher has received everything before it stops, closing loses nothing:
  the closed file holds every appended record.\<close>

lemma close_when_drained:
  assumes "o_Mode opts = SyncInterval" and "list_all event_ok es"
    and "wal_run es (open_state base opts) = Some w" and "w_closed w" and "w_writeCh w = []"
  shows "w_disk w = base @ log_bytes (appended es)"
proof -
  have "log_inv base (appended es) w"
    using log_inv_run [OF log_inv_open [OF assms(1)] assms(2,3)] by simp
  with assms(4,5) obtain k where "k \<le> length (appended es)"
    "w_disk w = base @ log_bytes (take k (appended es))" "map encode (drop k (appended es)) = []"
    by (auto simp: log_inv_def pending_def)
  then show ?thesis by simp
qed

text \<open>A compaction that fails before its rename leaves the log as it was; one that fails in
  reopening the file returns an error with the new log in place, and from then on every append still
  returns no error while nothing it writes reaches the file at the log's path.\<close>

lemma compact_failures:
  assumes "Compact snapErrs renameErr openErr recs w = (Some e, w')"
    and "w_Mode w \<noteq> SyncInterval" and "\<not> w_closed w"
  shows "(first_error snapErrs \<noteq> None \<or> renameErr \<noteq> None) \<and> w' = w \<or>
    openErr \<noteq> None \<and> w_disk w' = log_bytes recs \<and>
    (\<forall>r. \<exists>w2. append WriteOk None r w' = Some (None, w2) \<and> w_disk w2 = log_bytes recs)"
  using assms
  by (auto simp: Compact_def writeSnapshot_def log_bytes_def append_def file_write_def file_sync_def Let_def
      split: option.splits)

end
