(* ===== verification/Eviction.thy ===== *)
theory Eviction
  imports Prelude
begin

text \<open>
  Memory-capped shards and the eviction policies: \<open>storage/store/shard.go\<close> and package
  \<open>storage/eviction\<close>. The part of a shard that a policy may see is \<open>ShardView\<close>; a shard extends it
  with its policy. The interface \<open>Policy\<close> is the datatype of its three implementations with one
  dispatching function per method. Its contract, as the comments of \<open>eviction_policy.go\<close> give it, is
  the locale \<open>eviction_policy\<close>, and each implementation and the dispatcher interpret it.
\<close>

section \<open>Shards\<close>

text \<open>\<open>store.Record\<close>, the value part of a shard's hash map.\<close>

record StoreRecord =
  rc_value :: bytes
  rc_createdAt :: gotime
  rc_expiredAt :: gotime

record ShardView =
  sh_data :: "(bytes, StoreRecord) gomap"
  sh_bytes :: int
  sh_budget :: int

text \<open>The methods through which a policy sees the shard.\<close>

definition Bytes :: "'a ShardView_scheme \<Rightarrow> int" where
  "Bytes s = sh_bytes s"

definition Budget :: "'a ShardView_scheme \<Rightarrow> int" where
  "Budget s = sh_budget s"

definition Len :: "'a ShardView_scheme \<Rightarrow> nat" where
  "Len s = length (sh_data s)"

text \<open>\<open>Range\<close> calls \<open>fn\<close> on the entries until it returns false; the variables \<open>fn\<close> assigns are its
  state.\<close>

fun range_loop :: "(bytes \<times> StoreRecord) list \<Rightarrow> (bytes \<Rightarrow> gotime \<Rightarrow> 'v \<Rightarrow> bool \<times> 'v) \<Rightarrow> 'v \<Rightarrow> 'v" where
  "range_loop [] fn v = v"
| "range_loop ((key, rec) # rest) fn v =
     (case fn key (rc_expiredAt rec) v of
        (True, v') \<Rightarrow> range_loop rest fn v'
      | (False, v') \<Rightarrow> v')"

definition Range :: "bytes map_order \<Rightarrow> 'a ShardView_scheme \<Rightarrow> (bytes \<Rightarrow> gotime \<Rightarrow> 'v \<Rightarrow> bool \<times> 'v) \<Rightarrow> 'v \<Rightarrow> 'v" where
  "Range ord s fn v = range_loop (in_order ord (sh_data s)) fn v"

definition Evict :: "bytes \<Rightarrow> 'a ShardView_scheme \<Rightarrow> 'a ShardView_scheme" where
  "Evict key s =
     (case gomap_get (sh_data s) key of
        None \<Rightarrow> s
      | Some rec \<Rightarrow>
          s\<lparr>sh_bytes := sh_bytes s - int (length key + length (rc_value rec)),
            sh_data := gomap_delete key (sh_data s)\<rparr>)"

abbreviation keys :: "'a ShardView_scheme \<Rightarrow> bytes set" where
  "keys s \<equiv> fst ` set (sh_data s)"

definition entry_size :: "bytes \<times> StoreRecord \<Rightarrow> int" where
  "entry_size e = int (length (fst e) + length (rc_value (snd e)))"

text \<open>The map is well formed and the byte counter is the sum of the sizes of its entries.\<close>

definition shard_ok :: "'a ShardView_scheme \<Rightarrow> bool" where
  "shard_ok s \<longleftrightarrow> gomap_wf (sh_data s) \<and> sh_bytes s = sum_list (map entry_size (sh_data s))"

section \<open>NoEvict\<close>

definition NoEvict_BeforeWrite :: "'a ShardView_scheme \<Rightarrow> int \<Rightarrow> bool" where
  "NoEvict_BeforeWrite s needed =
     (if Budget s = 0 then True else Bytes s + needed \<le> Budget s)"

section \<open>SamplingEvict\<close>

definition sampleN :: nat where
  "sampleN = 5"

text \<open>The closure of \<open>evictSoonestOfSample\<close> on its variables \<open>victim\<close>, \<open>victimExpiry\<close> and \<open>count\<close>.\<close>

definition sample_fn :: "bytes \<Rightarrow> gotime \<Rightarrow> bytes \<times> gotime \<times> nat \<Rightarrow> bool \<times> bytes \<times> gotime \<times> nat" where
  "sample_fn key expiresAt = (\<lambda>(victim, victimExpiry, count).
     let (victim, victimExpiry) =
           (if count = 0 \<or> expiresAt < victimExpiry then (key, expiresAt) else (victim, victimExpiry));
         count = count + 1
     in (count < sampleN, victim, victimExpiry, count))"

definition evictSoonestOfSample :: "bytes map_order \<Rightarrow> 'a ShardView_scheme \<Rightarrow> 'a ShardView_scheme" where
  "evictSoonestOfSample ord s =
     (let (victim, victimExpiry, count) = Range ord s sample_fn ([], 0, 0)
      in if count = 0 then s else Evict victim s)"

text \<open>After the first entry the closure keeps the soonest expiry of the entries it was called on, and
  it is called on at most \<open>sampleN\<close> of them.\<close>

lemma range_sample_fn:
  assumes "0 < cnt" and "cnt < sampleN"
  shows "case range_loop xs sample_fn (victim, ve, cnt) of (v, e, c) \<Rightarrow>
    0 < c \<and> e \<le> ve \<and> (\<forall>x \<in> set (take (sampleN - cnt) xs). e \<le> rc_expiredAt (snd x)) \<and>
    (v = victim \<and> e = ve \<or> (\<exists>x \<in> set (take (sampleN - cnt) xs). v = fst x \<and> e = rc_expiredAt (snd x)))"
  using assms
proof (induction xs arbitrary: victim ve cnt)
  case (Cons x xs)
  obtain key rec where x: "x = (key, rec)" by (cases x)
  obtain n where n: "sampleN - cnt = Suc n" using Cons.prems(2) by (metis Suc_diff_Suc)
  then have n': "sampleN - Suc cnt = n" by simp
  show ?case
  proof (cases "Suc cnt < sampleN")
    case True
    with Cons.prems Cons.IH [where cnt = "Suc cnt" and victim = key and ve = "rc_expiredAt rec"]
      Cons.IH [where cnt = "Suc cnt" and victim = victim and ve = ve] show ?thesis
      by (auto simp: x n n' sample_fn_def Let_def split: prod.splits)
  next
    case False
    then have "n = 0" using n by simp
    with False n Cons.prems show ?thesis
      by (auto simp: x sample_fn_def Let_def)
  qed
qed auto

lemma sampleN_pos: "sampleN = Suc (sampleN - 1)" and sampleN_gt: "Suc 0 < sampleN"
  by (simp_all add: sampleN_def)

lemma evictSoonestOfSample_soonest:
  assumes "sh_data s \<noteq> []"
  shows "\<exists>x \<in> set (take sampleN (in_order ord (sh_data s))). evictSoonestOfSample ord s = Evict (fst x) s \<and>
    (\<forall>y \<in> set (take sampleN (in_order ord (sh_data s))). rc_expiredAt (snd x) \<le> rc_expiredAt (snd y))"
proof -
  have "in_order ord (sh_data s) \<noteq> []"
    using assms by (metis length_0_conv length_in_order)
  then obtain key rec rest where o: "in_order ord (sh_data s) = (key, rec) # rest"
    by (metis neq_Nil_conv surj_pair)
  obtain v e c where r: "range_loop rest sample_fn (key, rc_expiredAt rec, Suc 0) = (v, e, c)"
    by (cases "range_loop rest sample_fn (key, rc_expiredAt rec, Suc 0)")
  have "Range ord s sample_fn ([], 0, 0) = (v, e, c)"
    using sampleN_gt by (simp add: Range_def o r sample_fn_def)
  moreover have "take sampleN ((key, rec) # rest) = (key, rec) # take (sampleN - 1) rest"
    using sampleN_pos by (metis take_Suc_Cons)
  ultimately show ?thesis
    using range_sample_fn [OF zero_less_one sampleN_gt [folded One_nat_def], where xs = rest and victim = key and ve = "rc_expiredAt rec"] r
    by (auto simp: o evictSoonestOfSample_def)
qed

lemma evictSoonestOfSample_eq:
  assumes "sh_data s \<noteq> []"
  shows "\<exists>victim \<in> keys s. evictSoonestOfSample ord s = Evict victim s"
  using evictSoonestOfSample_soonest [OF assms, of ord] by (metis imageI in_set_takeD set_in_order)

lemma length_Evict: "key \<in> keys s \<Longrightarrow> length (sh_data (Evict key s)) < length (sh_data s)"
  by (auto simp: Evict_def length_gomap_delete_less gomap_get_None_iff split: option.splits)

text \<open>The loop of \<open>BeforeWrite\<close>; it ends because every pass evicts a key.\<close>

function sampling_loop :: "bytes map_order \<Rightarrow> int \<Rightarrow> 'a ShardView_scheme \<Rightarrow> 'a ShardView_scheme" where
  "sampling_loop ord needed s =
     (if Bytes s + needed > Budget s \<and> Len s > 0
      then sampling_loop ord needed (evictSoonestOfSample ord s) else s)"
  by pat_completeness auto
termination
proof (relation "measure (\<lambda>(ord, needed, s). length (sh_data s))")
  fix ord needed and s :: "'a ShardView_scheme"
  assume "Bytes s + needed > Budget s \<and> Len s > 0"
  then have "sh_data s \<noteq> []" by (simp add: Len_def)
  from evictSoonestOfSample_eq [OF this, of ord] obtain victim
    where "victim \<in> keys s" "evictSoonestOfSample ord s = Evict victim s" ..
  then show "((ord, needed, evictSoonestOfSample ord s), ord, needed, s) \<in>
      measure (\<lambda>(ord, needed, s). length (sh_data s))"
    using length_Evict [of victim s] by simp
qed simp

declare sampling_loop.simps [simp del]

definition SamplingEvict_BeforeWrite :: "bytes map_order \<Rightarrow> 'a ShardView_scheme \<Rightarrow> int \<Rightarrow> bool \<times> 'a ShardView_scheme" where
  "SamplingEvict_BeforeWrite ord s needed =
     (if Budget s = 0 then (True, s) else (True, sampling_loop ord needed s))"

section \<open>LRUEvict\<close>

text \<open>\<open>lru_order\<close> is the doubly linked list, front first, each element with its identity; \<open>lru_elems\<close>
  maps a key to the identity of its element; \<open>lru_next\<close> is the next fresh identity.\<close>

record LRUEvict =
  lru_order :: "(nat \<times> bytes) list"
  lru_elems :: "(bytes, nat) gomap"
  lru_next :: nat

definition NewLRUEvict :: LRUEvict where
  "NewLRUEvict = \<lparr>lru_order = [], lru_elems = [], lru_next = 0\<rparr>"

text \<open>\<open>list.Remove\<close>, \<open>list.PushFront\<close> and \<open>list.MoveToFront\<close>.\<close>

definition list_remove :: "nat \<Rightarrow> (nat \<times> bytes) list \<Rightarrow> (nat \<times> bytes) list" where
  "list_remove i xs = filter (\<lambda>x. fst x \<noteq> i) xs"

definition list_move_to_front :: "nat \<Rightarrow> (nat \<times> bytes) list \<Rightarrow> (nat \<times> bytes) list" where
  "list_move_to_front i xs = filter (\<lambda>x. fst x = i) xs @ filter (\<lambda>x. fst x \<noteq> i) xs"

definition forget :: "bytes \<Rightarrow> LRUEvict \<Rightarrow> LRUEvict" where
  "forget key p =
     (case gomap_get (lru_elems p) key of
        None \<Rightarrow> p
      | Some elem \<Rightarrow> p\<lparr>lru_order := list_remove elem (lru_order p), lru_elems := gomap_delete key (lru_elems p)\<rparr>)"

text \<open>The loop of \<open>BeforeWrite\<close>; \<open>None\<close> would be a loop that does not end.\<close>

partial_function (option) lru_loop ::
    "int \<Rightarrow> LRUEvict \<Rightarrow> 'a ShardView_scheme \<Rightarrow> (LRUEvict \<times> 'a ShardView_scheme) option" where
  "lru_loop needed p s =
     (if Bytes s + needed > Budget s \<and> length (lru_order p) > 0
      then (let victim = snd (last (lru_order p))
            in lru_loop needed (forget victim p) (Evict victim s))
      else Some (p, s))"

definition LRUEvict_BeforeWrite :: "LRUEvict \<Rightarrow> 'a ShardView_scheme \<Rightarrow> bytes \<Rightarrow> int \<Rightarrow>
    (bool \<times> LRUEvict \<times> 'a ShardView_scheme) option" where
  "LRUEvict_BeforeWrite p s key needed =
     (let p = forget key p
      in if Budget s = 0 then Some (True, p, s)
         else map_option (\<lambda>(p', s'). (True, p', s')) (lru_loop needed p s))"

definition LRUEvict_AfterWrite :: "LRUEvict \<Rightarrow> bytes \<Rightarrow> LRUEvict" where
  "LRUEvict_AfterWrite p key =
     p\<lparr>lru_order := (lru_next p, key) # lru_order p,
       lru_elems := gomap_set key (lru_next p) (lru_elems p),
       lru_next := Suc (lru_next p)\<rparr>"

definition LRUEvict_AfterRead :: "LRUEvict \<Rightarrow> bytes \<Rightarrow> LRUEvict" where
  "LRUEvict_AfterRead p key =
     (case gomap_get (lru_elems p) key of
        None \<Rightarrow> p
      | Some elem \<Rightarrow> p\<lparr>lru_order := list_move_to_front elem (lru_order p)\<rparr>)"

definition LRUEvict_AfterDelete :: "LRUEvict \<Rightarrow> bytes \<Rightarrow> LRUEvict" where
  "LRUEvict_AfterDelete p key = forget key p"

section \<open>The interface\<close>

datatype Policy = NoEvict | SamplingEvict | LRU LRUEvict

fun BeforeWrite :: "bytes map_order \<Rightarrow> Policy \<Rightarrow> 'a ShardView_scheme \<Rightarrow> bytes \<Rightarrow> int \<Rightarrow>
    (bool \<times> Policy \<times> 'a ShardView_scheme) option" where
  "BeforeWrite ord NoEvict s key needed = Some (NoEvict_BeforeWrite s needed, NoEvict, s)"
| "BeforeWrite ord SamplingEvict s key needed =
     (let (ok, s') = SamplingEvict_BeforeWrite ord s needed in Some (ok, SamplingEvict, s'))"
| "BeforeWrite ord (LRU p) s key needed =
     map_option (\<lambda>(ok, p', s'). (ok, LRU p', s')) (LRUEvict_BeforeWrite p s key needed)"

fun AfterWrite :: "Policy \<Rightarrow> bytes \<Rightarrow> Policy" where
  "AfterWrite (LRU p) key = LRU (LRUEvict_AfterWrite p key)"
| "AfterWrite p key = p"

text \<open>\<open>BeforeRead\<close> and \<open>BeforeDelete\<close> are empty in all three implementations.\<close>

definition BeforeRead :: "Policy \<Rightarrow> bytes \<Rightarrow> Policy" where
  "BeforeRead p key = p"

fun AfterRead :: "Policy \<Rightarrow> bytes \<Rightarrow> Policy" where
  "AfterRead (LRU p) key = LRU (LRUEvict_AfterRead p key)"
| "AfterRead p key = p"

definition BeforeDelete :: "Policy \<Rightarrow> bytes \<Rightarrow> Policy" where
  "BeforeDelete p key = p"

fun AfterDelete :: "Policy \<Rightarrow> bytes \<Rightarrow> Policy" where
  "AfterDelete (LRU p) key = LRU (LRUEvict_AfterDelete p key)"
| "AfterDelete p key = p"

definition NameNoEvict :: string where "NameNoEvict = ''noevict''"
definition NameRelaxed :: string where "NameRelaxed = ''relaxed''"
definition NameStrict :: string where "NameStrict = ''strict''"

text \<open>The policy a fresh call of the factory returned by \<open>ByName\<close> creates.\<close>

definition ByName :: "string \<Rightarrow> Policy" where
  "ByName name =
     (if name = NameRelaxed then SamplingEvict
      else if name = NameStrict then LRU NewLRUEvict
      else NoEvict)"

section \<open>The contract\<close>

text \<open>\<open>tracks p K\<close>: the policy's own bookkeeping agrees with the set \<open>K\<close> of keys of its shard. On
  \<open>BeforeWrite\<close> the entry being replaced has left the shard but the policy may still know its key.
  A policy that accepts has made room or emptied the shard; it only removes entries. One that
  rejects has changed nothing.\<close>

locale eviction_policy =
  fixes before_write :: "'p \<Rightarrow> 'a ShardView_scheme \<Rightarrow> bytes \<Rightarrow> int \<Rightarrow> (bool \<times> 'p \<times> 'a ShardView_scheme) option"
    and after_write :: "'p \<Rightarrow> bytes \<Rightarrow> 'p"
    and after_read :: "'p \<Rightarrow> bytes \<Rightarrow> 'p"
    and after_delete :: "'p \<Rightarrow> bytes \<Rightarrow> 'p"
    and tracks :: "'p \<Rightarrow> bytes set \<Rightarrow> bool"
  assumes before_write_returns:
      "shard_ok s \<Longrightarrow> key \<notin> keys s \<Longrightarrow> tracks p K \<Longrightarrow> K - {key} = keys s \<Longrightarrow>
       \<exists>ok p' s'. before_write p s key needed = Some (ok, p', s')"
    and before_write_accept:
      "shard_ok s \<Longrightarrow> key \<notin> keys s \<Longrightarrow> tracks p K \<Longrightarrow> K - {key} = keys s \<Longrightarrow>
       before_write p s key needed = Some (True, p', s') \<Longrightarrow>
       shard_ok s' \<and> set (sh_data s') \<subseteq> set (sh_data s) \<and> sh_budget s' = sh_budget s \<and>
       tracks p' (keys s') \<and> (sh_budget s = 0 \<or> sh_bytes s' + needed \<le> sh_budget s \<or> sh_data s' = [])"
    and before_write_unlimited:
      "sh_budget s = 0 \<Longrightarrow> \<exists>p'. before_write p s key needed = Some (True, p', s)"
    and before_write_reject:
      "before_write p s key needed = Some (False, p', s') \<Longrightarrow> p' = p \<and> s' = s"
    and after_write_tracks: "tracks p K \<Longrightarrow> key \<notin> K \<Longrightarrow> tracks (after_write p key) (insert key K)"
    and after_read_tracks: "tracks p K \<Longrightarrow> tracks (after_read p key) K"
    and after_delete_tracks: "tracks p K \<Longrightarrow> tracks (after_delete p key) (K - {key})"

section \<open>Lemmas on shards\<close>

lemma sum_delete:
  "gomap_wf m \<Longrightarrow> gomap_get m key = Some rec \<Longrightarrow>
   sum_list (map entry_size (gomap_delete key m)) = sum_list (map entry_size m) - entry_size (key, rec)"
  by (induction m) (auto simp: gomap_wf_def split: if_splits)

lemma Evict_keys [simp]: "keys (Evict key s) = keys s - {key}"
  by (auto simp: Evict_def gomap_get_None_iff split: option.splits)

lemma Evict_budget [simp]: "sh_budget (Evict key s) = sh_budget s"
  by (simp add: Evict_def split: option.splits)

lemma Evict_get: "gomap_get (sh_data (Evict key s)) = (gomap_get (sh_data s))(key := None)"
  by (auto simp: Evict_def go_map_simps split: option.splits)

lemma Evict_bytes: "key \<in> keys s \<Longrightarrow> sh_bytes (Evict key s) = sh_bytes s - entry_size (key, the (gomap_get (sh_data s) key))"
  by (auto simp: Evict_def entry_size_def gomap_get_None_iff split: option.splits)

lemma Evict_subset: "set (sh_data (Evict key s)) \<subseteq> set (sh_data s)"
proof -
  have "set (gomap_delete key m) \<subseteq> set m" for m :: "(bytes, StoreRecord) gomap"
    by (induction m) auto
  then show ?thesis by (simp add: Evict_def split: option.splits)
qed

lemma Evict_ok: "shard_ok s \<Longrightarrow> shard_ok (Evict key s)"
  by (auto simp: Evict_def shard_ok_def sum_delete entry_size_def split: option.splits)

lemma entry_size_nonneg [simp]: "0 \<le> entry_size e"
  by (simp add: entry_size_def)

lemma shard_ok_bytes_nonneg: "shard_ok s \<Longrightarrow> 0 \<le> sh_bytes s"
  by (force simp: shard_ok_def intro: sum_list_nonneg)

section \<open>The policies meet the contract\<close>

interpretation no_evict: eviction_policy
  "\<lambda>(p::unit) s key needed. Some (NoEvict_BeforeWrite s needed, p, s)"
  "\<lambda>p key. p" "\<lambda>p key. p" "\<lambda>p key. p" "\<lambda>p K. True"
  by unfold_locales (auto simp: NoEvict_BeforeWrite_def Budget_def Bytes_def split: if_splits)

lemma sampling_loop_spec:
  "shard_ok s \<Longrightarrow>
   shard_ok (sampling_loop ord needed s) \<and> set (sh_data (sampling_loop ord needed s)) \<subseteq> set (sh_data s) \<and>
   sh_budget (sampling_loop ord needed s) = sh_budget s \<and>
   (sh_bytes (sampling_loop ord needed s) + needed \<le> sh_budget s \<or> sh_data (sampling_loop ord needed s) = [])"
proof (induction ord needed s rule: sampling_loop.induct)
  case (1 ord needed s)
  show ?case
  proof (cases "Bytes s + needed > Budget s \<and> Len s > 0")
    case True
    then have "sh_data s \<noteq> []" by (simp add: Len_def)
    from evictSoonestOfSample_eq [OF this, of ord] obtain victim
      where e: "evictSoonestOfSample ord s = Evict victim s" by auto
    with 1 True Evict_ok [of s victim] Evict_subset [of victim s] show ?thesis
      by (auto simp: sampling_loop.simps [of ord needed s])
  next
    case False
    with "1.prems" show ?thesis
      by (auto simp: sampling_loop.simps [of ord needed s] Bytes_def Budget_def Len_def)
  qed
qed

interpretation sampling: eviction_policy
  "\<lambda>(p::unit) s key needed. let (ok, s') = SamplingEvict_BeforeWrite ord s needed in Some (ok, p, s')"
  "\<lambda>p key. p" "\<lambda>p key. p" "\<lambda>p key. p" "\<lambda>p K. True"
proof unfold_locales
  fix s :: "'b ShardView_scheme" and key p K needed p' s'
  assume "shard_ok s"
    and "(let (ok, s') = SamplingEvict_BeforeWrite ord s needed in Some (ok, p, s')) = Some (True, p', s')"
  then show "shard_ok s' \<and> set (sh_data s') \<subseteq> set (sh_data s) \<and> sh_budget s' = sh_budget s \<and> True \<and>
      (sh_budget s = 0 \<or> sh_bytes s' + needed \<le> sh_budget s \<or> sh_data s' = [])"
    using sampling_loop_spec [of s ord needed]
    by (auto simp: SamplingEvict_BeforeWrite_def Budget_def Let_def split: if_splits)
qed (auto simp: SamplingEvict_BeforeWrite_def Budget_def split: if_splits)

text \<open>The list and the map of \<open>LRUEvict\<close> describe the same elements, one for each tracked key.\<close>

definition lru_tracks :: "LRUEvict \<Rightarrow> bytes set \<Rightarrow> bool" where
  "lru_tracks p K \<longleftrightarrow> distinct (map fst (lru_order p)) \<and> (\<forall>x \<in> set (lru_order p). fst x < lru_next p) \<and>
     gomap_wf (lru_elems p) \<and> (\<forall>k i. gomap_get (lru_elems p) k = Some i \<longleftrightarrow> (i, k) \<in> set (lru_order p)) \<and>
     snd ` set (lru_order p) = K"

lemma lru_tracks_elem: "lru_tracks p K \<Longrightarrow> (i, k) \<in> set (lru_order p) \<Longrightarrow> i < lru_next p \<and> k \<in> K"
  unfolding lru_tracks_def by (metis fst_conv image_eqI snd_conv)

lemma forget_tracks:
  assumes "lru_tracks p K"
  shows "lru_tracks (forget key p) (K - {key})"
proof (cases "gomap_get (lru_elems p) key")
  case None
  then have "(j, key) \<notin> set (lru_order p)" for j
    using assms by (metis lru_tracks_def option.distinct(1))
  then have "key \<notin> K" using assms by (auto simp: lru_tracks_def)
  with None assms show ?thesis by (simp add: forget_def)
next
  case (Some i)
  have u: "(j, k) \<in> set (lru_order p) \<Longrightarrow> j = i \<longleftrightarrow> k = key" for j k
  proof -
    assume jk: "(j, k) \<in> set (lru_order p)"
    have "(i, key) \<in> set (lru_order p)" using Some assms by (simp add: lru_tracks_def)
    moreover have "gomap_get (lru_elems p) k = Some j" using jk assms by (simp add: lru_tracks_def)
    moreover have "inj_on fst (set (lru_order p))" using assms by (simp add: lru_tracks_def distinct_map)
    ultimately show ?thesis using jk Some inj_onD [of fst "set (lru_order p)" "(j, k)" "(i, key)"] by auto
  qed
  have "x \<in> set (lru_order p) \<Longrightarrow> fst x \<noteq> i \<longleftrightarrow> snd x \<noteq> key" for x
    using u [of "fst x" "snd x"] by simp
  then have l: "set (list_remove i (lru_order p)) = {x \<in> set (lru_order p). snd x \<noteq> key}"
    unfolding list_remove_def set_filter by blast
  have "snd ` set (list_remove i (lru_order p)) = K - {key}"
    unfolding l using assms by (auto simp: lru_tracks_def)
  moreover have "distinct (map fst (list_remove i (lru_order p)))"
    using assms by (simp add: lru_tracks_def list_remove_def distinct_map_filter)
  moreover have "gomap_get (gomap_delete key (lru_elems p)) k = Some j \<longleftrightarrow> (j, k) \<in> set (list_remove i (lru_order p))"
    for k j
    unfolding l using assms by (simp add: lru_tracks_def go_map_simps)
  moreover have "\<forall>x \<in> set (list_remove i (lru_order p)). fst x < lru_next p"
    unfolding l using assms by (simp add: lru_tracks_def)
  moreover have "gomap_wf (gomap_delete key (lru_elems p))"
    using assms by (simp add: lru_tracks_def)
  ultimately show ?thesis
    using Some by (simp add: forget_def lru_tracks_def)
qed

lemma length_forget:
  assumes "lru_tracks p K" and "lru_order p \<noteq> []"
  shows "length (lru_order (forget (snd (last (lru_order p))) p)) < length (lru_order p)"
proof -
  have "last (lru_order p) \<in> set (lru_order p)" using assms(2) by simp
  then have "gomap_get (lru_elems p) (snd (last (lru_order p))) = Some (fst (last (lru_order p)))"
    using assms(1) by (simp add: lru_tracks_def)
  moreover have "length (filter (\<lambda>x. fst x \<noteq> fst (last (lru_order p))) (lru_order p)) < length (lru_order p)"
    using assms(2) by (intro length_filter_less [of "last (lru_order p)"]) simp_all
  ultimately show ?thesis by (simp add: forget_def list_remove_def)
qed

lemma lru_loop_spec:
  "shard_ok s \<Longrightarrow> lru_tracks p (keys s) \<Longrightarrow>
   \<exists>p' s'. lru_loop needed p s = Some (p', s') \<and> shard_ok s' \<and> set (sh_data s') \<subseteq> set (sh_data s) \<and>
     sh_budget s' = sh_budget s \<and> lru_tracks p' (keys s') \<and>
     (sh_bytes s' + needed \<le> sh_budget s \<or> sh_data s' = [])"
proof (induction "length (lru_order p)" arbitrary: p s rule: less_induct)
  case less
  show ?case
  proof (cases "Bytes s + needed > Budget s \<and> length (lru_order p) > 0")
    case True
    let ?v = "snd (last (lru_order p))"
    have "length (lru_order (forget ?v p)) < length (lru_order p)"
      using less.prems True by (intro length_forget) auto
    moreover have "lru_tracks (forget ?v p) (keys (Evict ?v s))"
      using forget_tracks [OF less.prems(2)] by simp
    ultimately obtain p' s' where "lru_loop needed (forget ?v p) (Evict ?v s) = Some (p', s')"
      "shard_ok s'" "set (sh_data s') \<subseteq> set (sh_data (Evict ?v s))" "sh_budget s' = sh_budget s"
      "lru_tracks p' (keys s')" "sh_bytes s' + needed \<le> sh_budget s \<or> sh_data s' = []"
      using less.hyps [of "forget ?v p" "Evict ?v s"] Evict_ok [OF less.prems(1), of ?v] by auto
    with True Evict_subset [of ?v s] show ?thesis
      by (subst lru_loop.simps) auto
  next
    case False
    with less.prems show ?thesis
      by (subst lru_loop.simps) (auto simp: lru_tracks_def Bytes_def Budget_def)
  qed
qed

lemma AfterWrite_tracks:
  assumes t: "lru_tracks p K" and "key \<notin> K"
  shows "lru_tracks (LRUEvict_AfterWrite p key) (insert key K)"
proof -
  have fresh: "i \<noteq> lru_next p" "k \<noteq> key" if "(i, k) \<in> set (lru_order p)" for i k
    using lru_tracks_elem [OF t that] \<open>key \<notin> K\<close> by auto
  have "gomap_get (gomap_set key (lru_next p) (lru_elems p)) k = Some i \<longleftrightarrow>
      (i, k) \<in> set ((lru_next p, key) # lru_order p)" for k i
    using t fresh [of i k] by (auto simp: lru_tracks_def go_map_simps)
  moreover have "distinct (map fst ((lru_next p, key) # lru_order p))"
    using t fresh by (auto simp: lru_tracks_def)
  ultimately show ?thesis
    using t by (auto simp: LRUEvict_AfterWrite_def lru_tracks_def)
qed

lemma set_move_to_front [simp]: "set (list_move_to_front i xs) = set xs"
  by (auto simp: list_move_to_front_def)

lemma distinct_move_to_front:
  "distinct (map fst xs) \<Longrightarrow> distinct (map fst (list_move_to_front i xs))"
  by (auto simp: list_move_to_front_def distinct_map_filter)

lemma AfterRead_tracks: "lru_tracks p K \<Longrightarrow> lru_tracks (LRUEvict_AfterRead p key) K"
  by (simp add: LRUEvict_AfterRead_def lru_tracks_def distinct_move_to_front split: option.splits)

interpretation lru: eviction_policy
  LRUEvict_BeforeWrite LRUEvict_AfterWrite LRUEvict_AfterRead LRUEvict_AfterDelete lru_tracks
proof unfold_locales
  fix s :: "'a ShardView_scheme" and p key K needed
  assume s: "shard_ok s" and t: "lru_tracks p K" and k: "K - {key} = keys s"
  note t' = forget_tracks [OF t, of key, unfolded k]
  from lru_loop_spec [OF s t', of needed] obtain p2 s2 where
    l: "lru_loop needed (forget key p) s = Some (p2, s2)" "shard_ok s2" "set (sh_data s2) \<subseteq> set (sh_data s)"
      "sh_budget s2 = sh_budget s" "lru_tracks p2 (keys s2)" "sh_bytes s2 + needed \<le> sh_budget s \<or> sh_data s2 = []"
    by blast
  show "\<exists>ok p' s'. LRUEvict_BeforeWrite p s key needed = Some (ok, p', s')"
    by (auto simp: LRUEvict_BeforeWrite_def Let_def l)
  fix p' s'
  assume "LRUEvict_BeforeWrite p s key needed = Some (True, p', s')"
  then show "shard_ok s' \<and> set (sh_data s') \<subseteq> set (sh_data s) \<and> sh_budget s' = sh_budget s \<and>
      lru_tracks p' (keys s') \<and> (sh_budget s = 0 \<or> sh_bytes s' + needed \<le> sh_budget s \<or> sh_data s' = [])"
    using l s t' by (auto simp: LRUEvict_BeforeWrite_def Budget_def Let_def split: if_splits)
next
  fix p key needed and s :: "'a ShardView_scheme"
  assume "sh_budget s = 0"
  then show "\<exists>p'. LRUEvict_BeforeWrite p s key needed = Some (True, p', s)"
    by (simp add: LRUEvict_BeforeWrite_def Budget_def)
next
  fix p key needed p' s' and s :: "'a ShardView_scheme"
  assume "LRUEvict_BeforeWrite p s key needed = Some (False, p', s')"
  then show "p' = p \<and> s' = s"
    by (auto simp: LRUEvict_BeforeWrite_def Let_def split: if_splits)
qed (simp_all add: AfterWrite_tracks AfterRead_tracks LRUEvict_AfterDelete_def forget_tracks)

fun tracks :: "Policy \<Rightarrow> bytes set \<Rightarrow> bool" where
  "tracks (LRU p) K = lru_tracks p K"
| "tracks p K = True"

lemma ByName_tracks [simp]: "tracks (ByName name) {}"
  by (simp add: ByName_def NewLRUEvict_def lru_tracks_def)

interpretation policy: eviction_policy "BeforeWrite ord" AfterWrite AfterRead AfterDelete tracks
proof unfold_locales
  fix s :: "'b ShardView_scheme" and p key K needed
  assume a: "shard_ok s" "key \<notin> keys s" "tracks p K" "K - {key} = keys s"
  show "\<exists>ok p' s'. BeforeWrite ord p s key needed = Some (ok, p', s')"
  proof (cases p)
    case (LRU q)
    with a lru.before_write_returns [of s key q K needed] show ?thesis by auto
  qed (simp_all add: Let_def split: prod.splits)
  fix p' s'
  assume "BeforeWrite ord p s key needed = Some (True, p', s')"
  then show "shard_ok s' \<and> set (sh_data s') \<subseteq> set (sh_data s) \<and> sh_budget s' = sh_budget s \<and>
      tracks p' (keys s') \<and> (sh_budget s = 0 \<or> sh_bytes s' + needed \<le> sh_budget s \<or> sh_data s' = [])"
  proof (cases p)
    case NoEvict
    with \<open>BeforeWrite ord p s key needed = Some (True, p', s')\<close> a
      no_evict.before_write_accept [of s key K needed "()" "()" s'] show ?thesis by auto
  next
    case SamplingEvict
    with \<open>BeforeWrite ord p s key needed = Some (True, p', s')\<close> a
      sampling.before_write_accept [of s key K ord needed "()" "()" s'] show ?thesis
      by (auto simp: Let_def split: prod.splits)
  next
    case (LRU q)
    with \<open>BeforeWrite ord p s key needed = Some (True, p', s')\<close> obtain q'
      where "p' = LRU q'" "LRUEvict_BeforeWrite q s key needed = Some (True, q', s')" by auto
    with LRU a lru.before_write_accept [of s key q K needed q' s'] show ?thesis by simp
  qed
next
  fix s :: "'b ShardView_scheme" and p key needed
  assume "sh_budget s = 0"
  then show "\<exists>p'. BeforeWrite ord p s key needed = Some (True, p', s)"
    by (cases p) (simp_all add: NoEvict_BeforeWrite_def SamplingEvict_BeforeWrite_def LRUEvict_BeforeWrite_def Budget_def)
next
  fix s :: "'b ShardView_scheme" and p key needed p' s'
  assume "BeforeWrite ord p s key needed = Some (False, p', s')"
  then show "p' = p \<and> s' = s"
    using lru.before_write_reject [of _ s key needed]
    by (cases p) (auto simp: SamplingEvict_BeforeWrite_def Let_def split: if_splits)
next
  fix p K key
  show "tracks p K \<Longrightarrow> key \<notin> K \<Longrightarrow> tracks (AfterWrite p key) (insert key K)"
    by (cases p) (simp_all add: lru.after_write_tracks)
  show "tracks p K \<Longrightarrow> tracks (AfterRead p key) K"
    by (cases p) (simp_all add: lru.after_read_tracks)
  show "tracks p K \<Longrightarrow> tracks (AfterDelete p key) (K - {key})"
    by (cases p) (simp_all add: lru.after_delete_tracks)
qed

section \<open>LRU order\<close>

text \<open>The abstract state of the strict policy: the tracked keys, most recently used first.\<close>

definition recency :: "LRUEvict \<Rightarrow> bytes list" where
  "recency p = map snd (lru_order p)"

lemma set_recency: "lru_tracks p K \<Longrightarrow> set (recency p) = K"
  by (auto simp: lru_tracks_def recency_def)

lemma lru_tracks_inj:
  assumes "lru_tracks p K" and "(i, k) \<in> set (lru_order p)" and "(j, l) \<in> set (lru_order p)"
  shows "i = j \<longleftrightarrow> k = l"
proof -
  have "gomap_get (lru_elems p) k = Some i" "gomap_get (lru_elems p) l = Some j" "inj_on fst (set (lru_order p))"
    using assms by (simp_all add: lru_tracks_def distinct_map)
  with assms inj_onD [of fst "set (lru_order p)" "(i, k)" "(j, l)"] show ?thesis by auto
qed

lemma distinct_recency:
  assumes "lru_tracks p K"
  shows "distinct (recency p)"
proof -
  have "inj_on snd (set (lru_order p))"
    using lru_tracks_inj [OF assms] by (auto intro!: inj_onI)
  with assms show ?thesis
    by (auto simp: recency_def lru_tracks_def distinct_map)
qed

lemma recency_filter:
  assumes "lru_tracks p K" and "gomap_get (lru_elems p) key = Some i"
  shows "map snd (filter (\<lambda>x. fst x \<noteq> i) (lru_order p)) = removeAll key (recency p)"
    and "map snd (filter (\<lambda>x. fst x = i) (lru_order p)) = [key]"
proof -
  have i: "(i, key) \<in> set (lru_order p)" using assms by (simp add: lru_tracks_def)
  have "x \<in> set (lru_order p) \<Longrightarrow> fst x = i \<longleftrightarrow> snd x = key" for x
    using lru_tracks_inj [OF assms(1) i, of "fst x" "snd x"] by auto
  then have f: "filter (\<lambda>x. fst x \<noteq> i) (lru_order p) = filter (\<lambda>x. snd x \<noteq> key) (lru_order p)"
    "filter (\<lambda>x. fst x = i) (lru_order p) = filter (\<lambda>x. snd x = key) (lru_order p)"
    by (auto intro!: filter_cong)
  show "map snd (filter (\<lambda>x. fst x \<noteq> i) (lru_order p)) = removeAll key (recency p)"
    unfolding f recency_def removeAll_filter_not_eq filter_map by (simp add: o_def eq_commute)
  have "map snd (filter (\<lambda>x. fst x = i) (lru_order p)) = filter (\<lambda>k. k = key) (recency p)"
    unfolding f recency_def filter_map by (simp add: o_def)
  also have "\<dots> = [key]"
  proof -
    have "key \<in> set (recency p)" using i by (force simp: recency_def)
    then obtain us vs where "recency p = us @ key # vs" by (auto simp: in_set_conv_decomp)
    with distinct_recency [OF assms(1)]
    have "filter (\<lambda>k. k = key) us = []" "filter (\<lambda>k. k = key) vs = []" and "recency p = us @ key # vs"
      by (auto simp: filter_empty_conv)
    then show ?thesis by simp
  qed
  finally show "map snd (filter (\<lambda>x. fst x = i) (lru_order p)) = [key]" .
qed

lemma recency_forget:
  assumes "lru_tracks p K"
  shows "recency (forget key p) = removeAll key (recency p)"
proof (cases "gomap_get (lru_elems p) key")
  case None
  then have "(i, key) \<notin> set (lru_order p)" for i
    using assms unfolding lru_tracks_def by (metis option.distinct(1))
  then have "key \<notin> set (recency p)" by (auto simp: recency_def)
  with None show ?thesis by (simp add: forget_def)
next
  case (Some i)
  with recency_filter(1) [OF assms Some] show ?thesis
    by (simp add: forget_def list_remove_def recency_def)
qed

text \<open>The back of the list is the victim of the next round.\<close>

lemma recency_victim:
  assumes "lru_tracks p (keys s)" and "lru_order p \<noteq> []"
  defines "v \<equiv> snd (last (lru_order p))"
  shows "recency p = recency (forget v p) @ [v]" and "v \<notin> set (recency (forget v p))" and "v \<in> keys s"
proof -
  have v: "recency p = butlast (recency p) @ [v]"
    using assms(2) append_butlast_last_id [of "recency p"] by (simp add: recency_def last_map v_def)
  have d: "distinct (butlast (recency p) @ [v])" "set (butlast (recency p) @ [v]) = keys s"
    unfolding v [symmetric] using assms(1) by (rule distinct_recency, rule set_recency)
  then have "removeAll v (butlast (recency p) @ [v]) = butlast (recency p)" by simp
  then have f: "recency (forget v p) = butlast (recency p)"
    using recency_forget [OF assms(1), of v] unfolding v [symmetric] by simp
  show "recency p = recency (forget v p) @ [v]" using v f by simp
  show "v \<notin> set (recency (forget v p))" "v \<in> keys s" using d unfolding f by auto
qed

lemma lru_loop_suffix:
  assumes "shard_ok s" and "lru_tracks p (keys s)" and "lru_loop needed p s = Some (p', s')"
  shows "\<exists>evicted. recency p = recency p' @ evicted \<and>
    gomap_get (sh_data s') = (\<lambda>k. if k \<in> set evicted then None else gomap_get (sh_data s) k) \<and>
    (if evicted = [] then s' = s
     else sh_budget s < sh_bytes s' + entry_size (hd evicted, the (gomap_get (sh_data s) (hd evicted))) + needed)"
  using assms
proof (induction "length (lru_order p)" arbitrary: p s rule: less_induct)
  case less
  show ?case
  proof (cases "Bytes s + needed > Budget s \<and> length (lru_order p) > 0")
    case True
    let ?v = "snd (last (lru_order p))"
    have ne: "lru_order p \<noteq> []" using True by simp
    note v = recency_victim [OF less.prems(2) ne]
    have "length (lru_order (forget ?v p)) < length (lru_order p)"
      using less.prems True by (intro length_forget) auto
    moreover have "lru_tracks (forget ?v p) (keys (Evict ?v s))"
      using forget_tracks [OF less.prems(2)] by simp
    moreover have "lru_loop needed (forget ?v p) (Evict ?v s) = Some (p', s')"
      using less.prems(3) True by (subst (asm) lru_loop.simps) (simp add: Let_def)
    ultimately obtain evicted where ev: "recency (forget ?v p) = recency p' @ evicted"
      "gomap_get (sh_data s') = (\<lambda>k. if k \<in> set evicted then None else gomap_get (sh_data (Evict ?v s)) k)"
      "if evicted = [] then s' = Evict ?v s
       else sh_budget (Evict ?v s) < sh_bytes s' + entry_size (hd evicted, the (gomap_get (sh_data (Evict ?v s)) (hd evicted))) + needed"
      using less.hyps [of "forget ?v p" "Evict ?v s"] Evict_ok [OF less.prems(1), of ?v] by blast
    have "recency p = recency p' @ (evicted @ [?v])"
      unfolding append_assoc [symmetric] ev(1) [symmetric] by (rule v(1))
    moreover have "gomap_get (sh_data s') = (\<lambda>k. if k \<in> set (evicted @ [?v]) then None else gomap_get (sh_data s) k)"
      by (simp add: fun_eq_iff ev(2) Evict_get)
    moreover have "sh_budget s < sh_bytes s' + entry_size (hd (evicted @ [?v]),
        the (gomap_get (sh_data s) (hd (evicted @ [?v])))) + needed"
    proof (cases "evicted = []")
      case [simp]: True
      from ev(3) have "s' = Evict ?v s" by simp
      with \<open>Bytes s + needed > Budget s \<and> length (lru_order p) > 0\<close> Evict_bytes [OF v(3)] show ?thesis
        by (simp add: Bytes_def Budget_def)
    next
      case False
      then have "hd evicted \<noteq> ?v"
        using v(2) ev(1) by (metis Un_iff hd_in_set set_append)
      with ev(3) False show ?thesis by (simp add: Evict_get)
    qed
    ultimately have "recency p = recency p' @ (evicted @ [?v]) \<and>
      gomap_get (sh_data s') = (\<lambda>k. if k \<in> set (evicted @ [?v]) then None else gomap_get (sh_data s) k) \<and>
      (if evicted @ [?v] = [] then s' = s else sh_budget s < sh_bytes s' + entry_size (hd (evicted @ [?v]),
        the (gomap_get (sh_data s) (hd (evicted @ [?v])))) + needed)"
      unfolding snoc_eq_iff_butlast by simp
    then show ?thesis by (rule exI)
  next
    case False
    with less.prems(3) have "p' = p" "s' = s"
      by (subst (asm) lru_loop.simps, simp only: if_False option.inject prod.inject)+
    then show ?thesis
      by (intro exI [of _ "[]"]) simp
  qed
qed

text \<open>C22 (functional). The strict policy evicts in least-recently-used order and no more than it must. On a
  well-formed capped shard \<open>LRUEvict.BeforeWrite\<close> returns and accepts; the keys it keeps are an initial
  part of the recency list (without the key being written), the keys it evicted are the rest of that
  list, the surviving entries are untouched, and without the last eviction the new entry would not
  have fitted.\<close>

theorem lru_evicts_least_recent:
  assumes "shard_ok s" and "key \<notin> keys s" and "lru_tracks p K" and "K - {key} = keys s" and "sh_budget s \<noteq> 0"
  shows "\<exists>p' s' evicted. LRUEvict_BeforeWrite p s key needed = Some (True, p', s') \<and>
    removeAll key (recency p) = recency p' @ evicted \<and>
    gomap_get (sh_data s') = (\<lambda>k. if k \<in> set evicted then None else gomap_get (sh_data s) k) \<and>
    (sh_bytes s' + needed \<le> sh_budget s \<or> sh_data s' = []) \<and>
    (evicted = [] \<or>
     sh_budget s < sh_bytes s' + entry_size (hd evicted, the (gomap_get (sh_data s) (hd evicted))) + needed)"
proof -
  note t = forget_tracks [OF assms(3), of key, unfolded assms(4)]
  from lru_loop_spec [OF assms(1) t, of needed] obtain p' s'
    where l: "lru_loop needed (forget key p) s = Some (p', s')" "sh_bytes s' + needed \<le> sh_budget s \<or> sh_data s' = []"
    by blast
  from lru_loop_suffix [OF assms(1) t l(1)] l assms(5) recency_forget [OF assms(3), of key] show ?thesis
    by (intro exI [of _ p'] exI [of _ s']) (auto simp: LRUEvict_BeforeWrite_def Budget_def split: if_splits)
qed

theorem lru_evicts_least_recent_witness:
  "let p = \<lparr>lru_order = [(1, [1]), (0, [0])], lru_elems = [([0], 0), ([1], 1)], lru_next = 2\<rparr>;
       s = \<lparr>sh_data = [([0], \<lparr>rc_value = [7], rc_createdAt = 0, rc_expiredAt = 9\<rparr>),
                      ([1], \<lparr>rc_value = [8], rc_createdAt = 0, rc_expiredAt = 5\<rparr>)],
            sh_bytes = 4, sh_budget = 4\<rparr>
   in \<exists>p' s' evicted. LRUEvict_BeforeWrite p s [2] 2 = Some (True, p', s') \<and>
    removeAll [2] (recency p) = recency p' @ evicted \<and>
    gomap_get (sh_data s') = (\<lambda>k. if k \<in> set evicted then None else gomap_get (sh_data s) k) \<and>
    (sh_bytes s' + 2 \<le> sh_budget s \<or> sh_data s' = []) \<and>
    (evicted = [] \<or> sh_budget s < sh_bytes s' + entry_size (hd evicted, the (gomap_get (sh_data s) (hd evicted))) + 2)"
  unfolding Let_def
  by (rule lru_evicts_least_recent [where K = "{[0], [1]}"])
    (auto simp: shard_ok_def entry_size_def lru_tracks_def gomap_wf_def)

text \<open>The victims of a run of the relaxed policy: each one was in the sample of the shard at its turn,
  none of that sample expires sooner, and the budget was still exceeded.\<close>

fun soonest_victims :: "bytes map_order \<Rightarrow> int \<Rightarrow> 'a ShardView_scheme \<Rightarrow> bytes list \<Rightarrow> bool" where
  "soonest_victims ord needed s [] \<longleftrightarrow> True"
| "soonest_victims ord needed s (v # vs) \<longleftrightarrow>
     sh_budget s < sh_bytes s + needed \<and>
     (\<exists>x \<in> set (take sampleN (in_order ord (sh_data s))). v = fst x \<and>
       (\<forall>y \<in> set (take sampleN (in_order ord (sh_data s))). rc_expiredAt (snd x) \<le> rc_expiredAt (snd y))) \<and>
     soonest_victims ord needed (Evict v s) vs"

lemma sampling_loop_victims:
  "\<exists>vs. sampling_loop ord needed s = fold Evict vs s \<and> soonest_victims ord needed s vs"
proof (induction ord needed s rule: sampling_loop.induct)
  case (1 ord needed s)
  show ?case
  proof (cases "Bytes s + needed > Budget s \<and> Len s > 0")
    case True
    then have "sh_data s \<noteq> []" by (simp add: Len_def)
    from evictSoonestOfSample_soonest [OF this, of ord] obtain x
      where x: "x \<in> set (take sampleN (in_order ord (sh_data s)))" "evictSoonestOfSample ord s = Evict (fst x) s"
        "\<forall>y \<in> set (take sampleN (in_order ord (sh_data s))). rc_expiredAt (snd x) \<le> rc_expiredAt (snd y)"
      by blast
    with 1 [OF True] obtain vs where "sampling_loop ord needed (Evict (fst x) s) = fold Evict vs (Evict (fst x) s)"
      "soonest_victims ord needed (Evict (fst x) s) vs" by auto
    with x True show ?thesis
      by (intro exI [of _ "fst x # vs"]) (auto simp: sampling_loop.simps [of ord needed s] Bytes_def Budget_def)
  next
    case False
    then show ?thesis
      by (intro exI [of _ "[]"]) (auto simp: sampling_loop.simps [of ord needed s])
  qed
qed

text \<open>C23 (functional). The relaxed policy always accepts. On a shard without a cap it evicts nothing; on a capped shard it
  evicts, one at a time and only while
  the new entry does not fit, an entry of the current sample (the first \<open>sampleN\<close> entries in Go's map
  iteration order, whatever that order is) that none of the sample undercuts in expiry; it ends, with
  room for the entry or with an empty shard, and the byte counter still exact.\<close>

theorem sampling_evicts_soonest:
  assumes "shard_ok s"
  shows "\<exists>vs. SamplingEvict_BeforeWrite ord s needed = (True, fold Evict vs s) \<and> shard_ok (fold Evict vs s) \<and>
    (if sh_budget s = 0 then vs = []
     else soonest_victims ord needed s vs \<and>
       (sh_bytes (fold Evict vs s) + needed \<le> sh_budget s \<or> sh_data (fold Evict vs s) = []))"
proof (cases "sh_budget s = 0")
  case True
  with assms show ?thesis by (intro exI [of _ "[]"]) (simp add: SamplingEvict_BeforeWrite_def Budget_def)
next
  case False
  with sampling_loop_victims [of ord needed s] sampling_loop_spec [OF assms, of ord needed] show ?thesis
    by (auto simp: SamplingEvict_BeforeWrite_def Budget_def)
qed

theorem sampling_evicts_soonest_witness:
  "let s = \<lparr>sh_data = [([0], \<lparr>rc_value = [7], rc_createdAt = 0, rc_expiredAt = 9\<rparr>),
                      ([1], \<lparr>rc_value = [8], rc_createdAt = 0, rc_expiredAt = 5\<rparr>)],
            sh_bytes = 4, sh_budget = 4\<rparr>
   in \<exists>vs. SamplingEvict_BeforeWrite (\<lambda>_ _. 0) s 2 = (True, fold Evict vs s) \<and> shard_ok (fold Evict vs s) \<and>
    soonest_victims (\<lambda>_ _. 0) 2 s vs \<and>
    (sh_bytes (fold Evict vs s) + 2 \<le> sh_budget s \<or> sh_data (fold Evict vs s) = [])"
  using sampling_evicts_soonest [of "\<lparr>sh_data = [([0], \<lparr>rc_value = [7], rc_createdAt = 0, rc_expiredAt = 9\<rparr>),
                      ([1], \<lparr>rc_value = [8], rc_createdAt = 0, rc_expiredAt = 5\<rparr>)],
            sh_bytes = 4, sh_budget = 4\<rparr>" "\<lambda>_ _. 0" 2]
  by (simp add: shard_ok_def entry_size_def gomap_wf_def)

end
