(* ===== verification/Store.thy ===== *)
theory Store
  imports WAL Eviction
begin

text \<open>
  The sharded store of package \<open>storage/store\<close> (\<open>kv_store.go\<close>, \<open>shard.go\<close>, \<open>errors.go\<close>). Every write
  goes to the log first and then to the shard of its key. The critical section of a write is
  \<open>shard_write\<close>, written over the operations of a policy so that what it keeps is proved once, from
  the contract \<open>eviction_policy\<close>.

  An operation returns its result and the new store, or blocks on a full log channel, or panics;
  \<open>Diverges\<close> stands for an eviction loop that does not end, which the theorems exclude.
\<close>

section \<open>State\<close>

datatype StoreError = ErrKeyNotFound | ErrMemoryFull | WALError IOError

record Shard = ShardView +
  sh_policy :: Policy

record KVStore =
  kv_shards :: "Shard list"
  kv_wal :: WAL
  kv_shardCount :: u32
  kv_defaultTTL :: duration

text \<open>\<open>store.Options\<close>. The factory is the policy that a call of it creates, \<open>None\<close> for nil.\<close>

record StoreOptions =
  so_ShardCount :: int
  so_DefaultTTL :: duration
  so_MaxMemoryBytes :: int
  so_NewEviction :: "Policy option"

datatype ('e, 's, 'a) outcome = Returns "'e + 'a" 's | Blocks | Diverges | Panics

text \<open>What an operation is given by its surroundings: the clock, the outcomes of the writes to the log
  file, and the order in which it finds the entries of a map.\<close>

record Env =
  env_now :: gotime
  env_write :: write_outcome
  env_sync :: "IOError option"
  env_order :: "bytes map_order"

section \<open>Placement\<close>

text \<open>\<open>hash/fnv.New32a\<close>.\<close>

definition fnv32a :: "bytes \<Rightarrow> u32" where
  "fnv32a key = fold (\<lambda>b h. (h XOR ucast b) * 16777619) key 2166136261"

text \<open>The index of the shard of a key; \<open>None\<close> for the panic on a store without shards.\<close>

definition getShard :: "KVStore \<Rightarrow> bytes \<Rightarrow> nat option" where
  "getShard kv key =
     (if kv_shardCount kv = 0 then None
      else let i = unat (fnv32a key mod kv_shardCount kv)
           in if i < length (kv_shards kv) then Some i else None)"

section \<open>Shard operations\<close>

text \<open>The critical section of \<open>SetWithExpiry\<close>: the result says whether the policy accepted.\<close>

definition shard_write ::
    "('p \<Rightarrow> 'a ShardView_scheme \<Rightarrow> bytes \<Rightarrow> int \<Rightarrow> (bool \<times> 'p \<times> 'a ShardView_scheme) option) \<Rightarrow>
     ('p \<Rightarrow> bytes \<Rightarrow> 'p) \<Rightarrow> 'p \<Rightarrow> 'a ShardView_scheme \<Rightarrow> bytes \<Rightarrow> StoreRecord \<Rightarrow>
     (bool \<times> 'p \<times> 'a ShardView_scheme) option" where
  "shard_write before_write after_write p s key rec =
     (let newSize = int (length key + length (rc_value rec));
          old = gomap_get (sh_data s) key;
          s1 = (case old of
                  None \<Rightarrow> s
                | Some o' \<Rightarrow> s\<lparr>sh_bytes := sh_bytes s - int (length key + length (rc_value o')),
                               sh_data := gomap_delete key (sh_data s)\<rparr>)
      in case before_write p s1 key newSize of
           None \<Rightarrow> None
         | Some (False, p', s2) \<Rightarrow>
             Some (False, p',
               case old of
                 None \<Rightarrow> s2
               | Some o' \<Rightarrow> s2\<lparr>sh_data := gomap_set key o' (sh_data s2),
                               sh_bytes := sh_bytes s2 + int (length key + length (rc_value o'))\<rparr>)
         | Some (True, p', s2) \<Rightarrow>
             Some (True, after_write p' key,
               s2\<lparr>sh_data := gomap_set key rec (sh_data s2), sh_bytes := sh_bytes s2 + newSize\<rparr>))"

text \<open>The critical section of \<open>Delete\<close>, which the sweeper shares.\<close>

definition shard_delete :: "bytes \<Rightarrow> StoreRecord \<Rightarrow> Shard \<Rightarrow> Shard" where
  "shard_delete key rec sh =
     (let p = BeforeDelete (sh_policy sh) key
      in sh\<lparr>sh_bytes := sh_bytes sh - int (length key + length (rc_value rec)),
            sh_data := gomap_delete key (sh_data sh),
            sh_policy := AfterDelete p key\<rparr>)"

section \<open>Store operations\<close>

definition set_shard :: "nat \<Rightarrow> Shard \<Rightarrow> KVStore \<Rightarrow> KVStore" where
  "set_shard i sh kv = kv\<lparr>kv_shards := (kv_shards kv)[i := sh]\<rparr>"

definition SetWithExpiry :: "Env \<Rightarrow> bytes \<Rightarrow> bytes \<Rightarrow> gotime \<Rightarrow> KVStore \<Rightarrow> (StoreError, KVStore, unit) outcome" where
  "SetWithExpiry env key val expiredAt kv =
     (case AppendSet (env_write env) (env_sync env) key val expiredAt (kv_wal kv) of
        None \<Rightarrow> Blocks
      | Some (Some e, w) \<Rightarrow> Returns (Inl (WALError e)) (kv\<lparr>kv_wal := w\<rparr>)
      | Some (None, w) \<Rightarrow>
          (let kv = kv\<lparr>kv_wal := w\<rparr>
           in case getShard kv key of
                None \<Rightarrow> Panics
              | Some i \<Rightarrow>
                  (let shard = kv_shards kv ! i;
                       rec = \<lparr>rc_value = val, rc_createdAt = env_now env, rc_expiredAt = expiredAt\<rparr>
                   in case shard_write (BeforeWrite (env_order env)) AfterWrite (sh_policy shard) shard key rec of
                        None \<Rightarrow> Diverges
                      | Some (accepted, p', shard') \<Rightarrow>
                          Returns (if accepted then Inr () else Inl ErrMemoryFull)
                            (set_shard i (shard'\<lparr>sh_policy := p'\<rparr>) kv))))"

text \<open>\<open>now\<close> is the clock when \<open>Set\<close> computes the expiry.\<close>

definition Set :: "Env \<Rightarrow> gotime \<Rightarrow> bytes \<Rightarrow> bytes \<Rightarrow> KVStore \<Rightarrow> (StoreError, KVStore, unit) outcome" where
  "Set env now key val kv = SetWithExpiry env key val (now + kv_defaultTTL kv) kv"

definition Get :: "gotime \<Rightarrow> bytes \<Rightarrow> KVStore \<Rightarrow> (StoreError, KVStore, bytes) outcome" where
  "Get now key kv =
     (case getShard kv key of
        None \<Rightarrow> Panics
      | Some i \<Rightarrow>
          (let shard = kv_shards kv ! i;
               p = BeforeRead (sh_policy shard) key
           in case gomap_get (sh_data shard) key of
                None \<Rightarrow> Returns (Inl ErrKeyNotFound) (set_shard i (shard\<lparr>sh_policy := p\<rparr>) kv)
              | Some record \<Rightarrow>
                  (if now > rc_expiredAt record
                   then Returns (Inl ErrKeyNotFound) (set_shard i (shard\<lparr>sh_policy := p\<rparr>) kv)
                   else Returns (Inr (rc_value record)) (set_shard i (shard\<lparr>sh_policy := AfterRead p key\<rparr>) kv))))"

definition Delete :: "Env \<Rightarrow> bytes \<Rightarrow> KVStore \<Rightarrow> (StoreError, KVStore, unit) outcome" where
  "Delete env key kv =
     (case AppendDelete (env_write env) (env_sync env) key (kv_wal kv) of
        None \<Rightarrow> Blocks
      | Some (Some e, w) \<Rightarrow> Returns (Inl (WALError e)) (kv\<lparr>kv_wal := w\<rparr>)
      | Some (None, w) \<Rightarrow>
          (let kv = kv\<lparr>kv_wal := w\<rparr>
           in case getShard kv key of
                None \<Rightarrow> Panics
              | Some i \<Rightarrow>
                  (let shard = kv_shards kv ! i
                   in case gomap_get (sh_data shard) key of
                        None \<Rightarrow> Returns (Inl ErrKeyNotFound) kv
                      | Some rec \<Rightarrow> Returns (Inr ()) (set_shard i (shard_delete key rec shard) kv))))"

text \<open>\<open>Close\<close> is the log's \<open>Close\<close>: it begins, and it returns once the flusher has.\<close>

definition KVStore_Close_begin :: "IOError option \<Rightarrow> KVStore \<Rightarrow> KVStore" where
  "KVStore_Close_begin sy kv = kv\<lparr>kv_wal := Close_begin sy (kv_wal kv)\<rparr>"

definition KVStore_Close_end :: "KVStore \<Rightarrow> KVStore option" where
  "KVStore_Close_end kv = map_option (\<lambda>w. kv\<lparr>kv_wal := w\<rparr>) (Close_end (kv_wal kv))"

section \<open>Specification\<close>

text \<open>A shard fits its budget, unless it is unlimited or holds a single entry.\<close>

definition capped :: "'a ShardView_scheme \<Rightarrow> bool" where
  "capped s \<longleftrightarrow> sh_budget s = 0 \<or> sh_bytes s \<le> sh_budget s \<or> length (sh_data s) \<le> 1"

definition shard_inv :: "Shard \<Rightarrow> bool" where
  "shard_inv sh \<longleftrightarrow> shard_ok sh \<and> tracks (sh_policy sh) (keys sh)"

text \<open>The invariant of a store: every shard is well formed, its policy tracks exactly its keys, and
  every key is in the shard it hashes to.\<close>

definition kv_inv :: "KVStore \<Rightarrow> bool" where
  "kv_inv kv \<longleftrightarrow> kv_shardCount kv \<noteq> 0 \<and> unat (kv_shardCount kv) \<le> length (kv_shards kv) \<and>
     (\<forall>i < length (kv_shards kv). shard_inv (kv_shards kv ! i) \<and>
        (\<forall>k \<in> keys (kv_shards kv ! i). getShard kv k = Some i))"

text \<open>The store as one map, and the part of a map that is live at a time.\<close>

definition contents :: "KVStore \<Rightarrow> bytes \<Rightarrow> StoreRecord option" where
  "contents kv key =
     (case getShard kv key of None \<Rightarrow> None | Some i \<Rightarrow> gomap_get (sh_data (kv_shards kv ! i)) key)"

text \<open>What a read at a time should return.\<close>

definition read_result :: "gotime \<Rightarrow> StoreRecord option \<Rightarrow> StoreError + bytes" where
  "read_result now r =
     (case r of
        None \<Rightarrow> Inl ErrKeyNotFound
      | Some rec \<Rightarrow> if rc_expiredAt rec < now then Inl ErrKeyNotFound else Inr (rc_value rec))"

definition unlimited :: "KVStore \<Rightarrow> bool" where
  "unlimited kv \<longleftrightarrow> (\<forall>sh \<in> set (kv_shards kv). sh_budget sh = 0)"

section \<open>Shard lemmas\<close>

lemma insert_ok:
  "shard_ok s \<Longrightarrow> key \<notin> keys s \<Longrightarrow>
   shard_ok (s\<lparr>sh_data := gomap_set key rec (sh_data s), sh_bytes := sh_bytes s + int (length key + length (rc_value rec))\<rparr>)"
  by (simp add: shard_ok_def gomap_set_absent [of key "sh_data s"] entry_size_def gomap_wf_def)

lemma shard_write_eq:
  "shard_write before_write after_write p s key rec =
     (case before_write p (Evict key s) key (entry_size (key, rec)) of
        None \<Rightarrow> None
      | Some (False, p', s2) \<Rightarrow>
          Some (False, p',
            case gomap_get (sh_data s) key of
              None \<Rightarrow> s2
            | Some o' \<Rightarrow> s2\<lparr>sh_data := gomap_set key o' (sh_data s2),
                            sh_bytes := sh_bytes s2 + int (length key + length (rc_value o'))\<rparr>)
      | Some (True, p', s2) \<Rightarrow>
          Some (True, after_write p' key,
            s2\<lparr>sh_data := gomap_set key rec (sh_data s2), sh_bytes := sh_bytes s2 + entry_size (key, rec)\<rparr>))"
  unfolding shard_write_def Evict_def entry_size_def Let_def fst_conv snd_conv by (rule refl)

text \<open>What a shard promises about a write, from the contract of its policy.\<close>

context eviction_policy
begin

lemma shard_write_returns:
  assumes "shard_ok s" and "tracks p (keys s)"
  shows "\<exists>accepted p' s'. shard_write before_write after_write p s key rec = Some (accepted, p', s')"
proof -
  have "\<exists>ok p' s'. before_write p (Evict key s) key (entry_size (key, rec)) = Some (ok, p', s')"
    using assms by (intro before_write_returns [where K = "keys s"]) (simp_all add: Evict_ok)
  then obtain ok p' s' where "before_write p (Evict key s) key (entry_size (key, rec)) = Some (ok, p', s')"
    by blast
  then show ?thesis by (cases ok) (auto simp: shard_write_eq)
qed

lemma shard_write_accepted:
  assumes "shard_ok s" and "tracks p (keys s)"
    and "shard_write before_write after_write p s key rec = Some (True, p', s')"
  shows "shard_ok s' \<and> tracks p' (keys s') \<and> sh_budget s' = sh_budget s \<and> capped s' \<and>
    gomap_get (sh_data s') key = Some rec \<and>
    (\<forall>k. k \<noteq> key \<longrightarrow> gomap_get (sh_data s') k = None \<or> gomap_get (sh_data s') k = gomap_get (sh_data s) k)"
proof -
  let ?n = "entry_size (key, rec)"
  obtain q s2 where b: "before_write p (Evict key s) key ?n = Some (True, q, s2)"
    and r: "p' = after_write q key"
      "s' = s2\<lparr>sh_data := gomap_set key rec (sh_data s2), sh_bytes := sh_bytes s2 + ?n\<rparr>"
    using assms(3) by (auto simp: shard_write_eq split: option.splits bool.splits)
  have c: "shard_ok s2 \<and> set (sh_data s2) \<subseteq> set (sh_data (Evict key s)) \<and> sh_budget s2 = sh_budget (Evict key s) \<and>
      tracks q (keys s2) \<and>
      (sh_budget (Evict key s) = 0 \<or> sh_bytes s2 + ?n \<le> sh_budget (Evict key s) \<or> sh_data s2 = [])"
    using assms(1,2) by (intro before_write_accept [OF _ _ _ _ b, where K = "keys s"]) (simp_all add: Evict_ok)
  then have key: "key \<notin> keys s2"
    using image_mono [of "set (sh_data s2)" "set (sh_data (Evict key s))" fst] by auto
  have "gomap_get (sh_data s2) k = None \<or> gomap_get (sh_data s2) k = gomap_get (sh_data s) k" for k
  proof (cases "gomap_get (sh_data s2) k")
    case (Some v)
    then have "(k, v) \<in> set (sh_data (Evict key s))" using c map_of_SomeD by fast
    then have "gomap_get (sh_data (Evict key s)) k = Some v"
      using Evict_ok [OF assms(1), of key] by (simp add: gomap_get_Some_iff shard_ok_def)
    with Some show ?thesis by (simp add: Evict_get split: if_splits)
  qed simp
  with c key r insert_ok [of s2 key rec] show ?thesis
    by (auto simp: after_write_tracks capped_def go_map_simps entry_size_def)
qed

lemma shard_write_rejected:
  assumes "shard_ok s" and "shard_write before_write after_write p s key rec = Some (False, p', s')"
  shows "shard_ok s' \<and> p' = p \<and> sh_budget s' = sh_budget s \<and> sh_bytes s' = sh_bytes s \<and>
    gomap_get (sh_data s') = gomap_get (sh_data s) \<and> keys s' = keys s \<and> length (sh_data s') = length (sh_data s)"
proof -
  have "before_write p (Evict key s) key (entry_size (key, rec)) = Some (False, p, Evict key s)" and [simp]: "p' = p"
    using assms(2) before_write_reject
    by (auto simp: shard_write_eq split: option.splits bool.splits)
  then have s': "s' = (case gomap_get (sh_data s) key of None \<Rightarrow> Evict key s
      | Some o' \<Rightarrow> (Evict key s)\<lparr>sh_data := gomap_set key o' (sh_data (Evict key s)),
          sh_bytes := sh_bytes (Evict key s) + int (length key + length (rc_value o'))\<rparr>)"
    using assms(2) by (simp add: shard_write_eq)
  show ?thesis
  proof (cases "gomap_get (sh_data s) key")
    case None
    then show ?thesis using s' assms(1) by (simp add: Evict_def)
  next
    case (Some o')
    then have "key \<in> keys s" by (metis gomap_get_None_iff option.distinct(1))
    moreover have d: "sh_data s' = gomap_set key o' (gomap_delete key (sh_data s))" "sh_bytes s' = sh_bytes s"
        "sh_budget s' = sh_budget s"
      using Some s' by (simp_all add: Evict_def)
    moreover have "length (sh_data s') = length (sh_data s)"
      using d(1) \<open>key \<in> keys s\<close> assms(1) length_gomap_delete [of "sh_data s" key]
      by (simp add: gomap_set_absent shard_ok_def)
    moreover have "shard_ok s'"
      using s' Some insert_ok [OF Evict_ok [OF assms(1), of key], of key o'] by simp
    ultimately show ?thesis
      using Some by (auto simp: go_map_simps insert_absorb)
  qed
qed

lemma shard_write_unlimited:
  assumes "sh_budget s = 0"
  shows "\<exists>p' s'. shard_write before_write after_write p s key rec = Some (True, p', s') \<and>
    gomap_get (sh_data s') = (gomap_get (sh_data s))(key \<mapsto> rec)"
proof -
  obtain q where "before_write p (Evict key s) key (entry_size (key, rec)) = Some (True, q, Evict key s)"
    using before_write_unlimited [of "Evict key s" p key "entry_size (key, rec)"] assms by auto
  then show ?thesis by (simp add: shard_write_eq Evict_get go_map_simps)
qed

end

section \<open>Store lemmas\<close>

lemma getShard_less: "getShard kv key = Some i \<Longrightarrow> i < length (kv_shards kv)"
  by (simp add: getShard_def Let_def split: if_splits)

lemma getShard_set_shard [simp]: "getShard (set_shard i sh kv) = getShard kv"
  by (simp add: getShard_def set_shard_def fun_eq_iff)

lemma getShard_wal [simp]: "getShard (kv\<lparr>kv_wal := w\<rparr>) = getShard kv"
  by (simp add: getShard_def fun_eq_iff)

lemma getShard_total:
  assumes "kv_inv kv"
  obtains i where "getShard kv key = Some i" "i < length (kv_shards kv)"
proof -
  have "fnv32a key mod kv_shardCount kv < kv_shardCount kv"
    using assms by (simp add: kv_inv_def word_mod_less_divisor word_neq_0_conv)
  then have "unat (fnv32a key mod kv_shardCount kv) < length (kv_shards kv)"
    using assms by (simp add: kv_inv_def word_less_nat_alt)
  with assms that show ?thesis
    by (simp add: getShard_def kv_inv_def)
qed

lemma kv_inv_wal [simp]: "kv_inv (kv\<lparr>kv_wal := w\<rparr>) \<longleftrightarrow> kv_inv kv"
  by (simp add: kv_inv_def)

lemma contents_wal [simp]: "contents (kv\<lparr>kv_wal := w\<rparr>) = contents kv"
  by (simp add: contents_def fun_eq_iff split: option.splits)

lemma set_shard_fields [simp]:
  "kv_wal (set_shard i sh kv) = kv_wal kv"
  "kv_shards (set_shard i sh kv) = (kv_shards kv)[i := sh]"
  "kv_defaultTTL (set_shard i sh kv) = kv_defaultTTL kv"
  by (simp_all add: set_shard_def)

lemma kv_inv_shard:
  "kv_inv kv \<Longrightarrow> i < length (kv_shards kv) \<Longrightarrow>
   shard_ok (kv_shards kv ! i) \<and> tracks (sh_policy (kv_shards kv ! i)) (keys (kv_shards kv ! i))"
  by (simp add: kv_inv_def shard_inv_def)

lemma kv_inv_set_shard:
  assumes "kv_inv kv" and "shard_inv sh" and "\<And>k. k \<in> keys sh \<Longrightarrow> getShard kv k = Some i"
  shows "kv_inv (set_shard i sh kv)"
proof -
  have "shard_inv ((kv_shards kv)[i := sh] ! j) \<and> (\<forall>k \<in> keys ((kv_shards kv)[i := sh] ! j). getShard kv k = Some j)"
    if "j < length (kv_shards kv)" for j
    using that assms by (cases "i = j") (auto simp: kv_inv_def)
  with assms(1) show ?thesis by (simp add: kv_inv_def set_shard_def getShard_set_shard [unfolded set_shard_def])
qed

lemma contents_set_shard:
  "i < length (kv_shards kv) \<Longrightarrow>
   contents (set_shard i sh kv) k = (if getShard kv k = Some i then gomap_get (sh_data sh) k else contents kv k)"
  by (auto simp: contents_def split: option.splits)

lemma contents_at: "getShard kv k = Some i \<Longrightarrow> contents kv k = gomap_get (sh_data (kv_shards kv ! i)) k"
  by (simp add: contents_def)

lemma keys_get: "k \<in> keys s \<longleftrightarrow> gomap_get (sh_data s) k \<noteq> None"
  by (simp add: gomap_get_None_iff)

lemma shard_inv_policy: "shard_ok s \<Longrightarrow> tracks p (keys s) \<Longrightarrow> shard_inv (s\<lparr>sh_policy := p\<rparr>)"
  by (simp add: shard_inv_def shard_ok_def)

lemma capped_policy [simp]: "capped (s\<lparr>sh_policy := p\<rparr>) \<longleftrightarrow> capped s"
  by (simp add: capped_def)

text \<open>How a write returns: the log refused it, the policy refused it, or it is stored.\<close>

lemma SetWithExpiry_returns:
  assumes "kv_inv kv" and "AppendSet (env_write env) (env_sync env) key val expiredAt (kv_wal kv) = Some (None, w)"
  obtains i accepted p' s' where "getShard kv key = Some i" "i < length (kv_shards kv)"
    "shard_write (BeforeWrite (env_order env)) AfterWrite (sh_policy (kv_shards kv ! i)) (kv_shards kv ! i) key
       \<lparr>rc_value = val, rc_createdAt = env_now env, rc_expiredAt = expiredAt\<rparr> = Some (accepted, p', s')"
    "SetWithExpiry env key val expiredAt kv = Returns (if accepted then Inr () else Inl ErrMemoryFull)
       (set_shard i (s'\<lparr>sh_policy := p'\<rparr>) (kv\<lparr>kv_wal := w\<rparr>))"
proof -
  obtain i where i: "getShard kv key = Some i" "i < length (kv_shards kv)"
    using assms(1) by (rule getShard_total)
  let ?s = "kv_shards kv ! i" and ?rec = "\<lparr>rc_value = val, rc_createdAt = env_now env, rc_expiredAt = expiredAt\<rparr>"
  have s: "shard_ok ?s" "tracks (sh_policy ?s) (keys ?s)"
    using kv_inv_shard [OF assms(1) i(2)] by simp_all
  obtain accepted p' s' where
    w: "shard_write (BeforeWrite (env_order env)) AfterWrite (sh_policy ?s) ?s key ?rec = Some (accepted, p', s')"
    using policy.shard_write_returns [OF s, of "env_order env" key ?rec] by blast
  show ?thesis
    by (rule that [OF i w]) (simp add: SetWithExpiry_def assms(2) i(1) w)
qed

lemma SetWithExpiry_cases:
  assumes "kv_inv kv" and "SetWithExpiry env key val expiredAt kv = Returns res kv'"
  obtains (failed) e w where "AppendSet (env_write env) (env_sync env) key val expiredAt (kv_wal kv) = Some (Some e, w)"
      "res = Inl (WALError e)" "kv' = kv\<lparr>kv_wal := w\<rparr>"
  | (rejected) w i sh where "AppendSet (env_write env) (env_sync env) key val expiredAt (kv_wal kv) = Some (None, w)"
      "getShard kv key = Some i" "res = Inl ErrMemoryFull" "kv' = set_shard i sh (kv\<lparr>kv_wal := w\<rparr>)"
      "shard_inv sh" "sh_budget sh = sh_budget (kv_shards kv ! i)" "capped (kv_shards kv ! i) \<Longrightarrow> capped sh"
      "gomap_get (sh_data sh) = gomap_get (sh_data (kv_shards kv ! i))"
  | (accepted) w i sh where "AppendSet (env_write env) (env_sync env) key val expiredAt (kv_wal kv) = Some (None, w)"
      "getShard kv key = Some i" "res = Inr ()" "kv' = set_shard i sh (kv\<lparr>kv_wal := w\<rparr>)"
      "shard_inv sh" "sh_budget sh = sh_budget (kv_shards kv ! i)" "capped sh"
      "gomap_get (sh_data sh) key = Some \<lparr>rc_value = val, rc_createdAt = env_now env, rc_expiredAt = expiredAt\<rparr>"
      "\<And>k. k \<noteq> key \<Longrightarrow> gomap_get (sh_data sh) k = None \<or> gomap_get (sh_data sh) k = gomap_get (sh_data (kv_shards kv ! i)) k"
proof (cases "\<exists>w. AppendSet (env_write env) (env_sync env) key val expiredAt (kv_wal kv) = Some (None, w)")
  case False
  with assms(2) failed show ?thesis
    by (auto simp: SetWithExpiry_def split: option.splits)
next
  case True
  then obtain w where log: "AppendSet (env_write env) (env_sync env) key val expiredAt (kv_wal kv) = Some (None, w)" ..
  with assms(1) obtain i ok p' s' where i: "getShard kv key = Some i" "i < length (kv_shards kv)" and
    w: "shard_write (BeforeWrite (env_order env)) AfterWrite (sh_policy (kv_shards kv ! i)) (kv_shards kv ! i) key
       \<lparr>rc_value = val, rc_createdAt = env_now env, rc_expiredAt = expiredAt\<rparr> = Some (ok, p', s')" and
    r: "SetWithExpiry env key val expiredAt kv = Returns (if ok then Inr () else Inl ErrMemoryFull)
       (set_shard i (s'\<lparr>sh_policy := p'\<rparr>) (kv\<lparr>kv_wal := w\<rparr>))"
    by (rule SetWithExpiry_returns)
  have s: "shard_ok (kv_shards kv ! i)" "tracks (sh_policy (kv_shards kv ! i)) (keys (kv_shards kv ! i))"
    using kv_inv_shard [OF assms(1) i(2)] by simp_all
  show ?thesis
  proof (cases ok)
    case [simp]: True
    note a = policy.shard_write_accepted [OF s w [simplified]]
    show ?thesis
      using r assms(2) a by (intro accepted [OF log i(1), of "s'\<lparr>sh_policy := p'\<rparr>"]) (auto intro: shard_inv_policy)
  next
    case [simp]: False
    note a = policy.shard_write_rejected [OF s(1) w [simplified]]
    then have "tracks p' (keys s')" "capped (kv_shards kv ! i) \<Longrightarrow> capped s'"
      using s(2) by (simp_all add: capped_def)
    then show ?thesis
      using r assms(2) a by (intro rejected [OF log i(1), of "s'\<lparr>sh_policy := p'\<rparr>"]) (auto intro: shard_inv_policy)
  qed
qed

lemma SetWithExpiry_total:
  assumes "kv_inv kv"
  shows "SetWithExpiry env key val expiredAt kv \<noteq> Diverges \<and> SetWithExpiry env key val expiredAt kv \<noteq> Panics"
proof (cases "\<exists>w. AppendSet (env_write env) (env_sync env) key val expiredAt (kv_wal kv) = Some (None, w)")
  case False
  then show ?thesis by (auto simp: SetWithExpiry_def split: option.splits)
next
  case True
  then show ?thesis using SetWithExpiry_returns [OF assms] by (metis outcome.distinct(3,5))
qed

lemma shard_inv_in_place:
  assumes "kv_inv kv" and "getShard kv key = Some i" and "shard_inv sh"
    and "\<And>k. k \<noteq> key \<Longrightarrow> gomap_get (sh_data sh) k = None \<or> gomap_get (sh_data sh) k = gomap_get (sh_data (kv_shards kv ! i)) k"
  shows "kv_inv (set_shard i sh kv)"
proof (rule kv_inv_set_shard [OF assms(1,3)])
  fix k
  assume "k \<in> keys sh"
  then have "k = key \<or> k \<in> keys (kv_shards kv ! i)"
    using assms(4) [of k] by (cases "k = key") (auto simp: keys_get)
  with assms(1,2) getShard_less [OF assms(2)] show "getShard kv k = Some i"
    by (auto simp: kv_inv_def)
qed

lemma SetWithExpiry_inv:
  assumes "kv_inv kv" and "SetWithExpiry env key val expiredAt kv = Returns res kv'"
  shows "kv_inv kv'"
  using assms
proof (cases rule: SetWithExpiry_cases)
  case failed
  with assms(1) show ?thesis by simp
next
  case (rejected w i sh)
  then show ?thesis
    using shard_inv_in_place [of "kv\<lparr>kv_wal := w\<rparr>" key i sh] assms(1) by simp
next
  case (accepted w i sh)
  then show ?thesis
    using shard_inv_in_place [of "kv\<lparr>kv_wal := w\<rparr>" key i sh] assms(1) by simp
qed

lemma Get_eq:
  assumes "kv_inv kv"
  obtains i p where "getShard kv key = Some i"
    "tracks p (keys (kv_shards kv ! i))"
    "Get now key kv = Returns (read_result now (contents kv key)) (set_shard i ((kv_shards kv ! i)\<lparr>sh_policy := p\<rparr>) kv)"
proof -
  obtain i where i: "getShard kv key = Some i" "i < length (kv_shards kv)"
    using assms by (rule getShard_total)
  let ?p = "sh_policy (kv_shards kv ! i)"
  have t: "tracks ?p (keys (kv_shards kv ! i))" "tracks (AfterRead ?p key) (keys (kv_shards kv ! i))"
    using kv_inv_shard [OF assms i(2)] by (simp_all add: policy.after_read_tracks)
  show ?thesis
  proof (cases "\<exists>rec. contents kv key = Some rec \<and> now \<le> rc_expiredAt rec")
    case True
    then show ?thesis
      by (intro that [OF i(1) t(2)]) (auto simp: Get_def i(1) contents_at Let_def BeforeRead_def read_result_def)
  next
    case False
    then show ?thesis
      by (intro that [OF i(1) t(1)]) (auto simp: Get_def i(1) contents_at Let_def BeforeRead_def read_result_def split: option.splits)
  qed
qed

lemma map_set_policy:
  "i < length shs \<Longrightarrow> (\<And>s. f (s\<lparr>sh_policy := p\<rparr>) = f s) \<Longrightarrow>
   map f (shs[i := (shs ! i)\<lparr>sh_policy := p\<rparr>]) = map f shs"
  by (simp add: map_update list_update_same_conv)

lemma Get_store:
  assumes "kv_inv kv" and "Get now key kv = Returns res kv'"
  shows "kv_inv kv' \<and> contents kv' = contents kv \<and> kv_wal kv' = kv_wal kv \<and>
    map sh_data (kv_shards kv') = map sh_data (kv_shards kv) \<and> map sh_bytes (kv_shards kv') = map sh_bytes (kv_shards kv) \<and>
    map sh_budget (kv_shards kv') = map sh_budget (kv_shards kv)"
proof -
  obtain i p where g: "getShard kv key = Some i" "tracks p (keys (kv_shards kv ! i))"
    "Get now key kv = Returns (read_result now (contents kv key)) (set_shard i ((kv_shards kv ! i)\<lparr>sh_policy := p\<rparr>) kv)"
    using assms(1) by (rule Get_eq)
  then have kv': "kv' = set_shard i ((kv_shards kv ! i)\<lparr>sh_policy := p\<rparr>) kv"
    using assms(2) by simp
  note i = getShard_less [OF g(1)]
  have "kv_inv kv'"
    unfolding kv' by (rule shard_inv_in_place [OF assms(1) g(1)])
      (use kv_inv_shard [OF assms(1) i] g(2) in \<open>auto intro: shard_inv_policy\<close>)
  moreover have "contents kv' = contents kv"
    using i by (auto simp: kv' contents_set_shard contents_at fun_eq_iff)
  ultimately show ?thesis by (simp add: kv' map_set_policy [OF i])
qed

lemma shard_delete_fields [simp]:
  "gomap_get (sh_data (shard_delete key rec sh)) = (gomap_get (sh_data sh))(key := None)"
  "keys (shard_delete key rec sh) = keys sh - {key}"
  "sh_budget (shard_delete key rec sh) = sh_budget sh"
  by (simp_all add: shard_delete_def Let_def go_map_simps)

lemma shard_delete_inv:
  assumes "shard_inv sh" and "gomap_get (sh_data sh) key = Some rec"
  shows "shard_inv (shard_delete key rec sh)"
  using assms policy.after_delete_tracks [of "sh_policy sh" "keys sh" key]
  by (auto simp: shard_inv_def shard_ok_def shard_delete_def Let_def BeforeDelete_def sum_delete entry_size_def)

lemma Delete_cases:
  assumes "kv_inv kv" and "Delete env key kv = Returns res kv'"
  obtains (failed) e w where "res = Inl (WALError e)" "kv' = kv\<lparr>kv_wal := w\<rparr>"
      "AppendDelete (env_write env) (env_sync env) key (kv_wal kv) = Some (Some e, w)"
  | (absent) w where "AppendDelete (env_write env) (env_sync env) key (kv_wal kv) = Some (None, w)"
      "contents kv key = None" "res = Inl ErrKeyNotFound" "kv' = kv\<lparr>kv_wal := w\<rparr>"
  | (deleted) w i rec where "AppendDelete (env_write env) (env_sync env) key (kv_wal kv) = Some (None, w)"
      "getShard kv key = Some i" "contents kv key = Some rec" "res = Inr ()"
      "kv' = set_shard i (shard_delete key rec (kv_shards kv ! i)) (kv\<lparr>kv_wal := w\<rparr>)"
proof -
  obtain i where "getShard kv key = Some i" using assms(1) by (rule getShard_total)
  with assms(2) that show ?thesis
    by (auto simp: Delete_def Let_def contents_at split: option.splits)
qed

lemma Delete_total: "kv_inv kv \<Longrightarrow> Delete env key kv \<noteq> Diverges \<and> Delete env key kv \<noteq> Panics"
  by (rule getShard_total [of kv key]) (auto simp: Delete_def Let_def split: option.splits)

lemma Delete_inv:
  assumes "kv_inv kv" and "Delete env key kv = Returns res kv'"
  shows "kv_inv kv'"
  using assms
proof (cases rule: Delete_cases)
  case (deleted w i rec)
  note i = getShard_less [OF deleted(2)]
  have "shard_inv (shard_delete key rec (kv_shards kv ! i))"
    using shard_delete_inv [of "kv_shards kv ! i" key rec] assms(1) i deleted(2,3)
    by (simp add: kv_inv_def contents_at)
  then show ?thesis
    unfolding deleted(5) by (intro shard_inv_in_place [of _ key]) (use assms(1) deleted(2) in simp_all)
qed (use assms(1) in simp_all)

lemma shard_delete_capped:
  assumes "shard_inv sh" and "capped sh" and "gomap_get (sh_data sh) key = Some rec"
  shows "capped (shard_delete key rec sh)"
proof -
  have "key \<in> keys sh" using assms(3) by (metis keys_get option.distinct(1))
  with length_gomap_delete_less [of key "sh_data sh"] assms(2) show ?thesis
    by (auto simp: capped_def shard_delete_def Let_def)
qed

definition kv_capped :: "KVStore \<Rightarrow> bool" where
  "kv_capped kv \<longleftrightarrow> (\<forall>sh \<in> set (kv_shards kv). capped sh)"

lemma kv_capped_wal [simp]: "kv_capped (kv\<lparr>kv_wal := w\<rparr>) \<longleftrightarrow> kv_capped kv"
  by (simp add: kv_capped_def)

lemma kv_capped_set_shard: "kv_capped kv \<Longrightarrow> capped sh \<Longrightarrow> kv_capped (set_shard i sh kv)"
  by (auto simp: kv_capped_def dest: set_update_subset_insert [THEN subsetD])

lemma kv_capped_nth: "kv_capped kv \<Longrightarrow> i < length (kv_shards kv) \<Longrightarrow> capped (kv_shards kv ! i)"
  by (simp add: kv_capped_def)

lemma capped_cong:
  "map sh_data shs' = map sh_data shs \<Longrightarrow> map sh_bytes shs' = map sh_bytes shs \<Longrightarrow>
   map sh_budget shs' = map sh_budget shs \<Longrightarrow> (\<forall>sh \<in> set shs. capped sh) \<Longrightarrow> \<forall>sh \<in> set shs'. capped sh"
  by (simp add: capped_def all_set_conv_all_nth list_eq_iff_nth_eq)

section \<open>Properties\<close>

text \<open>C11 (invariant): the invariant of the store survives every operation, and no operation on such a
  store panics or is caught in an eviction loop: it returns, or it waits for room in the log's
  channel.\<close>

theorem store_invariant:
  assumes "kv_inv kv"
  shows "(\<forall>res kv'. SetWithExpiry env key val expiredAt kv = Returns res kv' \<longrightarrow> kv_inv kv') \<and>
    (\<forall>res kv'. Get now key kv = Returns res kv' \<longrightarrow> kv_inv kv') \<and>
    (\<forall>res kv'. Delete env key kv = Returns res kv' \<longrightarrow> kv_inv kv') \<and>
    SetWithExpiry env key val expiredAt kv \<notin> {Diverges, Panics} \<and>
    (\<exists>res kv'. Get now key kv = Returns res kv') \<and> Delete env key kv \<notin> {Diverges, Panics}"
proof -
  have "\<exists>res kv'. Get now key kv = Returns res kv'"
    by (rule Get_eq [OF assms, of key now]) blast
  then show ?thesis
    using assms by (auto dest: SetWithExpiry_inv Get_store Delete_inv simp: SetWithExpiry_total Delete_total)
qed

text \<open>A store of two empty shards, for the witnesses.\<close>

definition example_store :: "int \<Rightarrow> Policy \<Rightarrow> string \<Rightarrow> KVStore" where
  "example_store budget p mode =
     \<lparr>kv_shards = replicate 2 \<lparr>sh_data = [], sh_bytes = 0, sh_budget = budget, sh_policy = p\<rparr>,
      kv_wal = open_state [] \<lparr>o_Mode = mode, o_FlushInterval = 500, o_MaxBatchSize = 10\<rparr>,
      kv_shardCount = 2, kv_defaultTTL = 100\<rparr>"

lemma example_store_inv: "tracks p {} \<Longrightarrow> kv_inv (example_store budget p mode)"
  by (simp add: kv_inv_def example_store_def shard_inv_def shard_ok_def nth_Cons' numeral_2_eq_2)

lemma example_store_contents: "contents (example_store b p mode) k = None"
  by (auto simp: contents_def example_store_def nth_Cons' numeral_2_eq_2 split: option.splits dest!: getShard_less)

definition example_env :: Env where
  "example_env = \<lparr>env_now = 7, env_write = WriteOk, env_sync = None, env_order = (\<lambda>_ _. 0)\<rparr>"

theorem store_invariant_witness:
  "\<exists>res kv'. Get 3 [1] (example_store 8 (LRU NewLRUEvict) SyncAlways) = Returns res kv' \<and> kv_inv kv'"
proof -
  have "kv_inv (example_store 8 (LRU NewLRUEvict) SyncAlways)"
    by (simp add: example_store_inv NewLRUEvict_def lru_tracks_def)
  from store_invariant [OF this, where now = 3 and key = "[1]"] show ?thesis by blast
qed

lemma Get_result:
  assumes "kv_inv kv"
  shows "\<exists>kv'. Get now key kv = Returns (read_result now (contents kv key)) kv'"
  by (rule Get_eq [OF assms, of key now]) blast

text \<open>A write that returns no error is read back: until its expiry, that moment
  included, \<open>Get\<close> returns the value, after it \<open>Get\<close> returns \<open>ErrKeyNotFound\<close>. Every other key keeps its
  entry or has been evicted.\<close>

lemma set_then_get:
  assumes "kv_inv kv" and "SetWithExpiry env key val expiredAt kv = Returns (Inr ()) kv'"
  shows "(\<exists>kv''. Get now key kv' = Returns (if now \<le> expiredAt then Inr val else Inl ErrKeyNotFound) kv'') \<and>
    (\<forall>k. k \<noteq> key \<longrightarrow> contents kv' k = None \<or> contents kv' k = contents kv k)"
  using assms
proof (cases rule: SetWithExpiry_cases)
  case (accepted w i sh)
  note i = getShard_less [OF accepted(2)]
  have "contents kv' k = (if getShard kv k = Some i then gomap_get (sh_data sh) k else contents kv k)" for k
    using i by (simp add: accepted(4) contents_set_shard)
  with accepted(2,8,9) Get_result [OF SetWithExpiry_inv [OF assms], of now key] show ?thesis
    by (auto simp: read_result_def contents_at not_le)
qed simp_all

lemmas store_eval = example_store_def example_env_def SetWithExpiry_def Delete_def Get_def AppendSet_def AppendDelete_def
  getShard_def fnv32a_def shard_write_def shard_delete_def NoEvict_BeforeWrite_def Bytes_def Budget_def
  SyncNone_def SyncAlways_def SyncInterval_def wal_eval

text \<open>A write or delete that returns an error leaves the entries of the store as they were.
  When the error is \<open>ErrMemoryFull\<close> the record of the refused write is in the log nevertheless.\<close>

lemma failed_write_keeps_contents:
  assumes "kv_inv kv"
  shows "(SetWithExpiry env key val expiredAt kv = Returns (Inl e) kv' \<longrightarrow>
      contents kv' = contents kv \<and>
      (e = ErrMemoryFull \<longrightarrow>
        AppendSet (env_write env) (env_sync env) key val expiredAt (kv_wal kv) = Some (None, kv_wal kv'))) \<and>
    (Delete env key kv = Returns (Inl e) kv' \<longrightarrow> contents kv' = contents kv)"
proof (intro conjI impI)
  assume r: "SetWithExpiry env key val expiredAt kv = Returns (Inl e) kv'"
  with assms show "contents kv' = contents kv"
  proof (cases rule: SetWithExpiry_cases)
    case (rejected w i sh)
    then show ?thesis
      using getShard_less [OF rejected(2)] by (auto simp: contents_set_shard contents_at fun_eq_iff)
  qed simp_all
  assume "e = ErrMemoryFull"
  with assms r show "AppendSet (env_write env) (env_sync env) key val expiredAt (kv_wal kv) = Some (None, kv_wal kv')"
    by (cases rule: SetWithExpiry_cases) simp_all
next
  assume "Delete env key kv = Returns (Inl e) kv'"
  with assms show "contents kv' = contents kv"
    by (cases rule: Delete_cases) simp_all
qed

lemma unlimited_set_shard: "unlimited kv \<Longrightarrow> sh_budget sh = 0 \<Longrightarrow> unlimited (set_shard i sh kv)"
  by (auto simp: unlimited_def dest: set_update_subset_insert [THEN subsetD])

lemma unlimited_wal [simp]: "unlimited (kv\<lparr>kv_wal := w\<rparr>) \<longleftrightarrow> unlimited kv"
  by (simp add: unlimited_def)

lemma SetWithExpiry_unlimited:
  assumes "kv_inv kv" and "unlimited kv"
    and log: "AppendSet (env_write env) (env_sync env) key val expiredAt (kv_wal kv) = Some (None, w)"
  shows "\<exists>kv'. SetWithExpiry env key val expiredAt kv = Returns (Inr ()) kv' \<and> kv_wal kv' = w \<and> unlimited kv' \<and>
    contents kv' = (contents kv)(key \<mapsto> \<lparr>rc_value = val, rc_createdAt = env_now env, rc_expiredAt = expiredAt\<rparr>)"
proof -
  let ?rec = "\<lparr>rc_value = val, rc_createdAt = env_now env, rc_expiredAt = expiredAt\<rparr>"
  from assms(1) log obtain i accepted p' s' where i: "getShard kv key = Some i" "i < length (kv_shards kv)"
    and w: "shard_write (BeforeWrite (env_order env)) AfterWrite (sh_policy (kv_shards kv ! i)) (kv_shards kv ! i) key ?rec =
      Some (accepted, p', s')"
    and r: "SetWithExpiry env key val expiredAt kv = Returns (if accepted then Inr () else Inl ErrMemoryFull)
       (set_shard i (s'\<lparr>sh_policy := p'\<rparr>) (kv\<lparr>kv_wal := w\<rparr>))"
    by (rule SetWithExpiry_returns)
  have b: "sh_budget (kv_shards kv ! i) = 0" using assms(2) i(2) by (simp add: unlimited_def)
  with policy.shard_write_unlimited [OF b, of "env_order env" "sh_policy (kv_shards kv ! i)" key ?rec] w
  have accepted and g: "gomap_get (sh_data s') = (gomap_get (sh_data (kv_shards kv ! i)))(key \<mapsto> ?rec)" by auto
  moreover have "sh_budget s' = 0"
    using policy.shard_write_accepted [of "kv_shards kv ! i" "sh_policy (kv_shards kv ! i)"] w b
      kv_inv_shard [OF assms(1) i(2)] \<open>accepted\<close> by simp
  moreover have "contents (set_shard i (s'\<lparr>sh_policy := p'\<rparr>) (kv\<lparr>kv_wal := w\<rparr>)) = (contents kv)(key \<mapsto> ?rec)"
    using i by (auto simp: contents_set_shard contents_at g fun_eq_iff)
  ultimately show ?thesis
    using r assms(2) by (simp add: unlimited_set_shard)
qed

lemma Delete_logged:
  assumes "kv_inv kv" and "AppendDelete (env_write env) (env_sync env) key (kv_wal kv) = Some (None, w)"
  shows "\<exists>kv'. Delete env key kv = Returns (if contents kv key = None then Inl ErrKeyNotFound else Inr ()) kv' \<and>
    kv_wal kv' = w \<and> (unlimited kv \<longrightarrow> unlimited kv') \<and> contents kv' = (contents kv)(key := None)"
proof -
  obtain i where i: "getShard kv key = Some i" "i < length (kv_shards kv)"
    using assms(1) by (rule getShard_total)
  show ?thesis
  proof (cases "contents kv key")
    case None
    with i assms(2) show ?thesis by (auto simp: Delete_def contents_at Let_def)
  next
    case (Some rec)
    have "unlimited kv \<Longrightarrow> unlimited (set_shard i (shard_delete key rec (kv_shards kv ! i)) kv)"
      using i(2) by (simp add: unlimited_set_shard unlimited_def [of kv])
    moreover have "contents (set_shard i (shard_delete key rec (kv_shards kv ! i)) (kv\<lparr>kv_wal := w\<rparr>)) = (contents kv)(key := None)"
      using i by (auto simp: contents_set_shard contents_at fun_eq_iff)
    ultimately show ?thesis
      using Some i assms(2) by (simp add: Delete_def contents_at Let_def unlimited_def set_shard_def)
  qed
qed

lemma Get_unlimited: "kv_inv kv \<Longrightarrow> unlimited kv \<Longrightarrow> Get now key kv = Returns res kv' \<Longrightarrow> unlimited kv'"
  using Get_store [of kv now key res kv'] by (simp add: unlimited_def all_set_conv_all_nth list_eq_iff_nth_eq)

text \<open>C13 (refinement): without a memory cap the store is the map \<open>contents\<close>. A write whose record the log
  takes sets its key and returns no error, a delete removes its key and reports whether it was
  there, and a read returns the entry unless it has expired and changes nothing.\<close>

theorem store_refines_map:
  assumes "kv_inv kv" and "unlimited kv"
  shows "(\<forall>w. AppendSet (env_write env) (env_sync env) key val expiredAt (kv_wal kv) = Some (None, w) \<longrightarrow>
      (\<exists>kv'. SetWithExpiry env key val expiredAt kv = Returns (Inr ()) kv' \<and> kv_wal kv' = w \<and> unlimited kv' \<and>
        contents kv' = (contents kv)(key \<mapsto> \<lparr>rc_value = val, rc_createdAt = env_now env, rc_expiredAt = expiredAt\<rparr>))) \<and>
    (\<forall>w. AppendDelete (env_write env) (env_sync env) key (kv_wal kv) = Some (None, w) \<longrightarrow>
      (\<exists>kv'. Delete env key kv = Returns (if contents kv key = None then Inl ErrKeyNotFound else Inr ()) kv' \<and>
        kv_wal kv' = w \<and> unlimited kv' \<and> contents kv' = (contents kv)(key := None))) \<and>
    (\<exists>kv'. Get now key kv = Returns (read_result now (contents kv key)) kv' \<and> kv_wal kv' = kv_wal kv \<and>
      unlimited kv' \<and> contents kv' = contents kv)"
  using SetWithExpiry_unlimited [OF assms] Delete_logged [OF assms(1)] assms Get_result [OF assms(1), of now key]
    Get_store [OF assms(1), of now key] Get_unlimited [OF assms, of now key] by metis

theorem store_refines_map_witness:
  "let kv = example_store 0 SamplingEvict SyncNone in
   \<exists>kv'. SetWithExpiry example_env [1] [2] 50 kv = Returns (Inr ()) kv' \<and> unlimited kv' \<and>
     contents kv' = (contents kv)([1] \<mapsto> \<lparr>rc_value = [2], rc_createdAt = 7, rc_expiredAt = 50\<rparr>)"
proof -
  let ?kv = "example_store 0 SamplingEvict SyncNone"
  have i: "kv_inv ?kv" "unlimited ?kv" by (simp add: example_store_inv, simp add: example_store_def unlimited_def)
  have "AppendSet (env_write example_env) (env_sync example_env) [1] [2] 50 (kv_wal ?kv) =
      Some (None, (kv_wal ?kv)\<lparr>w_disk := encode (set_record [1] [2] 50)\<rparr>)"
    by (simp add: store_eval)
  with store_refines_map [OF i, of example_env "[1]" "[2]" 50] show ?thesis
    unfolding Let_def by (auto simp: example_env_def)
qed

definition total_bytes :: "KVStore \<Rightarrow> int" where
  "total_bytes kv = sum_list (map sh_bytes (kv_shards kv))"

lemma capped_le:
  assumes "shard_ok s" and "capped s" and "0 < sh_budget s" and "\<forall>e \<in> set (sh_data s). entry_size e \<le> sh_budget s"
  shows "sh_bytes s \<le> sh_budget s"
  using assms by (cases "sh_data s") (auto simp: capped_def shard_ok_def le_Suc_eq)

lemma total_bytes_le:
  assumes "kv_inv kv" and "kv_capped kv" and "0 < b"
    and "\<forall>sh \<in> set (kv_shards kv). sh_budget sh = b \<and> (\<forall>e \<in> set (sh_data sh). entry_size e \<le> b)"
  shows "total_bytes kv \<le> b * int (length (kv_shards kv))"
proof -
  have "\<forall>sh \<in> set (kv_shards kv). sh_bytes sh \<le> b"
    using assms capped_le by (metis in_set_conv_nth kv_capped_def kv_inv_shard)
  then have "sum_list (map sh_bytes (kv_shards kv)) \<le> sum_list (map (\<lambda>_. b) (kv_shards kv))"
    by (intro sum_list_mono) simp
  then show ?thesis by (simp add: total_bytes_def sum_list_triv mult.commute)
qed

lemma store_ops_capped:
  assumes "kv_inv kv" and "kv_capped kv"
  shows "SetWithExpiry env key val expiredAt kv = Returns res kv' \<Longrightarrow> kv_capped kv'"
    and "Get now key kv = Returns res2 kv' \<Longrightarrow> kv_capped kv'"
    and "Delete env key kv = Returns res kv' \<Longrightarrow> kv_capped kv'"
proof -
  assume "SetWithExpiry env key val expiredAt kv = Returns res kv'"
  with assms(1) show "kv_capped kv'"
  proof (cases rule: SetWithExpiry_cases)
    case (rejected w i sh)
    then show ?thesis
      using assms(2) getShard_less [OF rejected(2)] by (simp add: kv_capped_set_shard kv_capped_nth)
  qed (use assms(2) in \<open>simp_all add: kv_capped_set_shard\<close>)
next
  assume "Get now key kv = Returns res2 kv'"
  with Get_store [OF assms(1) this] capped_cong [of "kv_shards kv'" "kv_shards kv"] assms(2) show "kv_capped kv'"
    by (simp add: kv_capped_def)
next
  assume "Delete env key kv = Returns res kv'"
  with assms(1) show "kv_capped kv'"
  proof (cases rule: Delete_cases)
    case (deleted w i rec)
    then have "capped (shard_delete key rec (kv_shards kv ! i))"
      using assms getShard_less [OF deleted(2)]
      by (intro shard_delete_capped) (simp_all add: kv_inv_def kv_capped_nth contents_at)
    with assms(2) deleted(5) show ?thesis by (simp add: kv_capped_set_shard)
  qed (use assms(2) in simp_all)
qed



end
