(* ===== verification/Store_Recovery.thy ===== *)
theory Store_Recovery
  imports Store
begin

text \<open>
  Starting and maintaining the store: \<open>NewKVStore\<close> (\<open>kv_store.go\<close>) and \<open>kv_store_util.go\<close>, that is the
  recovery from the log, the sweep of expired keys and the compaction of the log. The theorems at the
  end join the store and the log: what a restart brings back.
\<close>

section \<open>Recovery\<close>

text \<open>The callback of \<open>recover\<close>; \<open>None\<close> for the panic of \<open>getShard\<close>.\<close>

definition recover_apply :: "gotime \<Rightarrow> Record \<Rightarrow> KVStore \<Rightarrow> KVStore option" where
  "recover_apply now r kv =
     (case getShard kv (wr_Key r) of
        None \<Rightarrow> None
      | Some i \<Rightarrow>
          (let shard = kv_shards kv ! i
           in Some
             (if wr_Op r = WAL_OpSet
              then (if now < wr_ExpiresAt r
                    then set_shard i (shard\<lparr>sh_data := gomap_set (wr_Key r)
                           \<lparr>rc_value = wr_Value r, rc_createdAt = now, rc_expiredAt = wr_ExpiresAt r\<rparr> (sh_data shard)\<rparr>) kv
                    else set_shard i (shard\<lparr>sh_data := gomap_delete (wr_Key r) (sh_data shard)\<rparr>) kv)
              else if wr_Op r = WAL_OpDelete
              then set_shard i (shard\<lparr>sh_data := gomap_delete (wr_Key r) (sh_data shard)\<rparr>) kv
              else kv)))"

text \<open>The loop over a shard that counts its bytes and tells its policy of its keys.\<close>

definition recover_shard :: "bytes map_order \<Rightarrow> Shard \<Rightarrow> Shard" where
  "recover_shard ord shard =
     fold (\<lambda>(key, rec) sh. sh\<lparr>sh_bytes := sh_bytes sh + int (length key + length (rc_value rec)),
                             sh_policy := AfterWrite (sh_policy sh) key\<rparr>)
       (in_order ord (sh_data shard)) shard"

definition recover :: "bytes map_order \<Rightarrow> gotime \<Rightarrow> log_file \<Rightarrow> KVStore \<Rightarrow> (IOError, KVStore) go" where
  "recover ord now file kv =
     (case Replay file (\<lambda>r st. case st of None \<Rightarrow> None | Some kv \<Rightarrow> recover_apply now r kv) (Some kv) of
        (res, None) \<Rightarrow> Panic
      | (Ok _, Some kv) \<Rightarrow> Ok (kv\<lparr>kv_shards := map (recover_shard ord) (kv_shards kv)\<rparr>)
      | (Err e, Some kv) \<Rightarrow> Err e
      | (Panic, Some kv) \<Rightarrow> Panic)"

text \<open>The field \<open>wal\<close> before \<open>NewKVStore\<close> opens the log; nothing reads it.\<close>

definition nil_wal :: WAL where
  "nil_wal = (open_state [] \<lparr>o_Mode = [], o_FlushInterval = 0, o_MaxBatchSize = 0\<rparr>)\<lparr>w_closed := True\<rparr>"

text \<open>The store before recovery: its shards are empty and have a fresh policy each. The cap is divided
  by the number of shards, and a slice of negative length is a panic.\<close>

definition init_store :: "StoreOptions \<Rightarrow> KVStore option" where
  "init_store opts =
     (let newPolicy = (case so_NewEviction opts of None \<Rightarrow> ByName NameNoEvict | Some p \<Rightarrow> p)
      in if so_MaxMemoryBytes opts > 0 \<and> so_ShardCount opts = 0 then None
         else let budget = (if so_MaxMemoryBytes opts > 0 then so_MaxMemoryBytes opts div so_ShardCount opts else 0)
              in if so_ShardCount opts < 0 then None
                 else Some
                   \<lparr>kv_shards = replicate (nat (so_ShardCount opts))
                      \<lparr>sh_data = [], sh_bytes = 0, sh_budget = budget, sh_policy = newPolicy\<rparr>,
                    kv_wal = nil_wal,
                    kv_shardCount = word_of_int (so_ShardCount opts),
                    kv_defaultTTL = so_DefaultTTL opts\<rparr>)"

text \<open>\<open>file\<close> is what \<open>Replay\<close> finds at the path and \<open>opened\<close> the result of opening it for appending.\<close>

definition NewKVStore :: "bytes map_order \<Rightarrow> gotime \<Rightarrow> log_file \<Rightarrow> IOError + bytes \<Rightarrow> Options \<Rightarrow> StoreOptions \<Rightarrow>
    (IOError, KVStore) go" where
  "NewKVStore ord now file opened walOpts opts =
     (case init_store opts of
        None \<Rightarrow> Panic
      | Some kv \<Rightarrow>
          (case recover ord now file kv of
             Err e \<Rightarrow> Err e
           | Panic \<Rightarrow> Panic
           | Ok kv \<Rightarrow>
               (case Open opened walOpts of
                  Err e \<Rightarrow> Err e
                | Panic \<Rightarrow> Panic
                | Ok w \<Rightarrow> Ok (kv\<lparr>kv_wal := w\<rparr>))))"

section \<open>Expiry and compaction\<close>

text \<open>What a tick of the sweeper does to one shard under its lock, and a whole tick.\<close>

definition sweep_shard :: "bytes map_order \<Rightarrow> gotime \<Rightarrow> Shard \<Rightarrow> Shard" where
  "sweep_shard ord now shard =
     fold (\<lambda>(key, rec) sh. if now > rc_expiredAt rec then shard_delete key rec sh else sh)
       (in_order ord (sh_data shard)) shard"

definition sweep :: "bytes map_order \<Rightarrow> gotime \<Rightarrow> KVStore \<Rightarrow> KVStore" where
  "sweep ord now kv = kv\<lparr>kv_shards := map (sweep_shard ord now) (kv_shards kv)\<rparr>"

text \<open>The records the snapshot callback of \<open>Compact\<close> writes.\<close>

definition snapshot_records :: "bytes map_order \<Rightarrow> gotime \<Rightarrow> KVStore \<Rightarrow> Record list" where
  "snapshot_records ord now kv =
     concat (map (\<lambda>shard.
       map (\<lambda>(key, rec). set_record key (rc_value rec) (rc_expiredAt rec))
         (filter (\<lambda>(key, rec). \<not> now > rc_expiredAt rec) (in_order ord (sh_data shard)))) (kv_shards kv))"

text \<open>The snapshot is taken from the store while appends continue, \<open>kv0\<close>; the log is replaced later, in
  the store \<open>kv\<close>.\<close>

definition KVStore_Compact :: "bytes map_order \<Rightarrow> gotime \<Rightarrow> IOError option list \<Rightarrow> IOError option \<Rightarrow>
    IOError option \<Rightarrow> KVStore \<Rightarrow> KVStore \<Rightarrow> IOError option \<times> KVStore" where
  "KVStore_Compact ord now snapErrs renameErr openErr kv0 kv =
     (let (err, w) = Compact snapErrs renameErr openErr (snapshot_records ord now kv0) (kv_wal kv)
      in (err, kv\<lparr>kv_wal := w\<rparr>))"

section \<open>Specification\<close>

text \<open>The value and the expiry of each key: as the store has it, as a log says it, and the part that is
  live at a time.\<close>

type_synonym view = "bytes \<Rightarrow> (bytes \<times> gotime) option"

definition store_view :: "KVStore \<Rightarrow> view" where
  "store_view kv key = map_option (\<lambda>rec. (rc_value rec, rc_expiredAt rec)) (contents kv key)"

definition log_apply :: "Record \<Rightarrow> view \<Rightarrow> view" where
  "log_apply r m =
     (if wr_Op r = WAL_OpSet then m(wr_Key r \<mapsto> (wr_Value r, wr_ExpiresAt r))
      else if wr_Op r = WAL_OpDelete then m(wr_Key r := None) else m)"

definition log_view :: "Record list \<Rightarrow> view" where
  "log_view rs = fold log_apply rs Map.empty"

definition live :: "gotime \<Rightarrow> view \<Rightarrow> view" where
  "live now m key = (case m key of None \<Rightarrow> None | Some (v, e) \<Rightarrow> if now < e then Some (v, e) else None)"

text \<open>The part of a view that reads at a time return.\<close>

definition readable :: "gotime \<Rightarrow> view \<Rightarrow> view" where
  "readable now m key = (case m key of None \<Rightarrow> None | Some (v, e) \<Rightarrow> if now > e then None else Some (v, e))"

section \<open>Lemmas on views\<close>

lemma readable_simps [simp]:
  "readable now (m(k := None)) = (readable now m)(k := None)"
  "readable now (m(k \<mapsto> (v, e))) = (if now > e then (readable now m)(k := None) else (readable now m)(k \<mapsto> (v, e)))"
  by (auto simp: readable_def fun_eq_iff)

lemma readable_at: "m key = m' key \<Longrightarrow> readable t m key = readable t m' key"
  by (simp add: readable_def)

lemma readable_later: "t0 \<le> t \<Longrightarrow> readable t0 m key = readable t0 m' key \<Longrightarrow> readable t m key = readable t m' key"
  by (auto simp: readable_def split: option.splits if_splits)

lemma readable_log_apply_cong: "readable t m = readable t m' \<Longrightarrow> readable t (log_apply r m) = readable t (log_apply r m')"
  by (simp add: log_apply_def)

lemma readable_fold_cong: "readable t m = readable t m' \<Longrightarrow> readable t (fold log_apply rs m) = readable t (fold log_apply rs m')"
proof (induction rs arbitrary: m m')
  case (Cons r rs)
  from Cons.IH [OF readable_log_apply_cong [OF Cons.prems]] show ?case by simp
qed simp

lemma live_simps [simp]:
  "live now (m(k := None)) = (live now m)(k := None)"
  "live now (m(k \<mapsto> (v, e))) = (if now < e then (live now m)(k \<mapsto> (v, e)) else (live now m)(k := None))"
  "live now Map.empty = Map.empty"
  by (auto simp: live_def fun_eq_iff)

lemma live_live: "t0 \<le> t \<Longrightarrow> live t (live t0 m) = live t m"
  by (auto simp: live_def fun_eq_iff split: option.splits)

lemma live_log_apply: "live now (log_apply r m) = live now (log_apply r (live now m))"
  by (simp add: log_apply_def live_live)

lemma live_log_apply_cong: "live t m = live t m' \<Longrightarrow> live t (log_apply r m) = live t (log_apply r m')"
  using live_log_apply by metis

lemma log_view_simps [simp]:
  "log_view [] = Map.empty"
  "log_view (rs @ [r]) = log_apply r (log_view rs)"
  by (simp_all add: log_view_def)

text \<open>Records whose expiry survives the log.\<close>

definition rec_ok :: "Record \<Rightarrow> bool" where
  "rec_ok r \<longleftrightarrow> Record_valid r \<and> (wr_Op r = WAL_OpSet \<longrightarrow> nano_range (wr_ExpiresAt r))"

lemma log_apply_as_read: "rec_ok r \<Longrightarrow> log_apply (as_read r) = log_apply r"
  by (auto simp: rec_ok_def log_apply_def as_read_def from_nano_unix_nano fun_eq_iff)

lemma log_view_as_read: "list_all rec_ok rs \<Longrightarrow> log_view (map as_read rs) = log_view rs"
proof -
  assume "list_all rec_ok rs"
  then have "fold log_apply (map as_read rs) m = fold log_apply rs m" for m
    by (induction rs arbitrary: m) (simp_all add: log_apply_as_read)
  then show ?thesis by (simp add: log_view_def)
qed

section \<open>Lemmas on recovery\<close>

text \<open>The store while the log is replayed: the counters are still zero and the policies know nothing.\<close>

definition recovering :: "KVStore \<Rightarrow> bool" where
  "recovering kv \<longleftrightarrow> kv_shardCount kv \<noteq> 0 \<and> unat (kv_shardCount kv) \<le> length (kv_shards kv) \<and>
     (\<forall>i < length (kv_shards kv). gomap_wf (sh_data (kv_shards kv ! i)) \<and> sh_bytes (kv_shards kv ! i) = 0 \<and>
        tracks (sh_policy (kv_shards kv ! i)) {} \<and> (\<forall>k \<in> keys (kv_shards kv ! i). getShard kv k = Some i))"

lemma recovering_getShard:
  assumes "recovering kv"
  obtains i where "getShard kv key = Some i" "i < length (kv_shards kv)"
proof -
  have "fnv32a key mod kv_shardCount kv < kv_shardCount kv"
    using assms by (simp add: recovering_def word_mod_less_divisor word_neq_0_conv)
  then have "unat (fnv32a key mod kv_shardCount kv) < length (kv_shards kv)"
    using assms by (simp add: recovering_def word_less_nat_alt)
  with assms that show ?thesis
    by (simp add: getShard_def recovering_def)
qed

lemma recovering_placed:
  "recovering kv \<Longrightarrow> i < length (kv_shards kv) \<Longrightarrow> k \<in> keys (kv_shards kv ! i) \<Longrightarrow> getShard kv k = Some i"
  unfolding recovering_def by blast

lemma recovering_set_shard:
  assumes "recovering kv" and "getShard kv key = Some i" and "gomap_wf m" and "fst ` set m \<subseteq> insert key (keys (kv_shards kv ! i))"
  shows "recovering (set_shard i ((kv_shards kv ! i)\<lparr>sh_data := m\<rparr>) kv)"
proof -
  let ?sh = "(kv_shards kv ! i)\<lparr>sh_data := m\<rparr>"
  note i = getShard_less [OF assms(2)]
  have k: "getShard kv k = Some i" if "k \<in> fst ` set m" for k
    using that assms(2,4) recovering_placed [OF assms(1) i] by blast
  have "gomap_wf (sh_data ((kv_shards kv)[i := ?sh] ! j)) \<and> sh_bytes ((kv_shards kv)[i := ?sh] ! j) = 0 \<and>
        tracks (sh_policy ((kv_shards kv)[i := ?sh] ! j)) {} \<and>
        (\<forall>k \<in> keys ((kv_shards kv)[i := ?sh] ! j). getShard kv k = Some j)" if "j < length (kv_shards kv)" for j
    using that assms k by (cases "i = j") (auto simp: recovering_def)
  with assms(1) show ?thesis
    by (simp add: recovering_def set_shard_def getShard_set_shard [unfolded set_shard_def])
qed

lemma recover_apply_spec:
  assumes "recovering kv" and "store_view kv = live now m"
  obtains kv' where "recover_apply now r kv = Some kv'" "recovering kv'" "store_view kv' = live now (log_apply r m)"
    "map sh_budget (kv_shards kv') = map sh_budget (kv_shards kv)"
proof -
  obtain i where i: "getShard kv (wr_Key r) = Some i" "i < length (kv_shards kv)"
    using assms(1) by (rule recovering_getShard)
  let ?set = "\<lambda>d. set_shard i ((kv_shards kv ! i)\<lparr>sh_data := d\<rparr>) kv"
  have wf: "gomap_wf (sh_data (kv_shards kv ! i))" using assms(1) i(2) by (simp add: recovering_def)
  have budget: "map sh_budget (kv_shards (?set d)) = map sh_budget (kv_shards kv)" for d
    using i(2) by (simp add: map_update list_update_same_conv)
  have view: "store_view (?set d) = (store_view kv)(wr_Key r := map_option (\<lambda>rec. (rc_value rec, rc_expiredAt rec)) (gomap_get d (wr_Key r)))"
    if "\<And>k. k \<noteq> wr_Key r \<Longrightarrow> gomap_get d k = gomap_get (sh_data (kv_shards kv ! i)) k" for d
    using i that by (auto simp: store_view_def contents_set_shard contents_at fun_eq_iff)
  let ?del = "gomap_delete (wr_Key r) (sh_data (kv_shards kv ! i))"
  let ?ins = "gomap_set (wr_Key r) \<lparr>rc_value = wr_Value r, rc_createdAt = now, rc_expiredAt = wr_ExpiresAt r\<rparr> (sh_data (kv_shards kv ! i))"
  have del: "recovering (?set ?del)" "store_view (?set ?del) = (live now m)(wr_Key r := None)"
    using recovering_set_shard [OF assms(1) i(1), of ?del] wf assms(2)
    by (simp_all add: view go_map_simps subset_insertI2)
  have ins: "recovering (?set ?ins)"
      "store_view (?set ?ins) = (live now m)(wr_Key r \<mapsto> (wr_Value r, wr_ExpiresAt r))"
    using recovering_set_shard [OF assms(1) i(1), of ?ins] wf assms(2)
    by (simp_all add: view go_map_simps)
  consider "wr_Op r = WAL_OpSet" "now < wr_ExpiresAt r" | "wr_Op r = WAL_OpSet" "\<not> now < wr_ExpiresAt r"
    | "wr_Op r = WAL_OpDelete" | "wr_Op r \<noteq> WAL_OpSet" "wr_Op r \<noteq> WAL_OpDelete"
    by blast
  then show ?thesis
  proof cases
    case 1
    then show ?thesis
      by (intro that [OF _ ins(1) _ budget]) (simp_all add: recover_apply_def Let_def log_apply_def ins i(1))
  next
    case 2
    then show ?thesis
      by (intro that [OF _ del(1) _ budget]) (simp_all add: recover_apply_def Let_def log_apply_def del i(1))
  next
    case 3
    then show ?thesis
      by (intro that [OF _ del(1) _ budget])
        (simp_all add: recover_apply_def Let_def log_apply_def del i(1) WAL_OpSet_def WAL_OpDelete_def)
  next
    case 4
    then show ?thesis
      using assms by (intro that [of kv]) (simp_all add: recover_apply_def Let_def log_apply_def i(1))
  qed
qed

lemma recover_fold:
  assumes "recovering kv" and "store_view kv = live now m"
  obtains kv' where "fold (\<lambda>r st. case st of None \<Rightarrow> None | Some kv \<Rightarrow> recover_apply now r kv) rs (Some kv) = Some kv'"
    "recovering kv'" "store_view kv' = live now (fold log_apply rs m)"
    "map sh_budget (kv_shards kv') = map sh_budget (kv_shards kv)"
  using assms
proof (induction rs arbitrary: kv m thesis)
  case (Cons r rs)
  from Cons.prems(2,3) obtain kv1 where 1: "recover_apply now r kv = Some kv1" "recovering kv1"
    "store_view kv1 = live now (log_apply r m)" "map sh_budget (kv_shards kv1) = map sh_budget (kv_shards kv)"
    by (rule recover_apply_spec)
  show ?case
    by (rule Cons.IH [OF _ 1(2,3)]) (use 1(1,4) in \<open>auto intro: Cons.prems(1)\<close>)
qed simp

lemma sum_list_in_order: "sum_list (map f (in_order ord m)) = (sum_list (map f m) :: int)"
  by (metis mset_in_order mset_map sum_mset_sum_list)

lemma recover_shard_fold:
  assumes "distinct (map fst xs)" and "fst ` set xs \<inter> K = {}" and "tracks (sh_policy sh) K"
  shows "let sh' = fold (\<lambda>(key, rec) sh. sh\<lparr>sh_bytes := sh_bytes sh + int (length key + length (rc_value rec)),
                             sh_policy := AfterWrite (sh_policy sh) key\<rparr>) xs sh
    in sh_data sh' = sh_data sh \<and> sh_budget sh' = sh_budget sh \<and>
       sh_bytes sh' = sh_bytes sh + sum_list (map entry_size xs) \<and> tracks (sh_policy sh') (K \<union> fst ` set xs)"
  using assms
proof (induction xs arbitrary: sh K)
  case (Cons x xs)
  obtain key rec where x: "x = (key, rec)" by (cases x)
  have "tracks (AfterWrite (sh_policy sh) key) (insert key K)"
    using Cons.prems x by (intro policy.after_write_tracks) auto
  with Cons.prems Cons.IH [of "insert key K" "sh\<lparr>sh_bytes := sh_bytes sh + int (length key + length (rc_value rec)),
                             sh_policy := AfterWrite (sh_policy sh) key\<rparr>"] show ?case
    by (auto simp: x Let_def entry_size_def)
qed simp

lemma recover_shard_spec:
  assumes "gomap_wf (sh_data sh)" and "sh_bytes sh = 0" and "tracks (sh_policy sh) {}"
  shows "shard_inv (recover_shard ord sh) \<and> sh_data (recover_shard ord sh) = sh_data sh \<and>
    sh_budget (recover_shard ord sh) = sh_budget sh"
proof -
  have "distinct (map fst (in_order ord (sh_data sh)))"
    using assms(1) gomap_wf_in_order [of ord "sh_data sh"] by (simp add: gomap_wf_def)
  from recover_shard_fold [OF this, of "{}" sh] assms show ?thesis
    by (simp add: recover_shard_def shard_inv_def shard_ok_def Let_def sum_list_in_order)
qed

lemma recover_shards_spec:
  assumes "recovering kv" and kv'_def: "kv' = kv\<lparr>kv_shards := map (recover_shard ord) (kv_shards kv)\<rparr>"
  shows "kv_inv kv' \<and> contents kv' = contents kv \<and> map sh_budget (kv_shards kv') = map sh_budget (kv_shards kv)"
proof -
  have s: "shard_inv (recover_shard ord (kv_shards kv ! i)) \<and>
      sh_data (recover_shard ord (kv_shards kv ! i)) = sh_data (kv_shards kv ! i) \<and>
      sh_budget (recover_shard ord (kv_shards kv ! i)) = sh_budget (kv_shards kv ! i)" if "i < length (kv_shards kv)" for i
    using that assms(1) by (intro recover_shard_spec) (simp_all add: recovering_def)
  have g: "getShard kv' = getShard kv"
    by (simp add: kv'_def getShard_def fun_eq_iff)
  have "shard_inv (kv_shards kv' ! i) \<and> (\<forall>k \<in> keys (kv_shards kv' ! i). getShard kv' k = Some i)"
    if "i < length (kv_shards kv')" for i
    using that s [of i] recovering_placed [OF assms(1), of i] unfolding g by (simp add: kv'_def)
  moreover have "kv_shardCount kv' \<noteq> 0 \<and> unat (kv_shardCount kv') \<le> length (kv_shards kv')"
    using assms(1) by (simp add: recovering_def kv'_def)
  ultimately have "kv_inv kv'"
    unfolding kv_inv_def by blast
  moreover have "contents kv' k = contents kv k" for k
    using s getShard_less [of kv k] unfolding contents_def g by (auto simp: kv'_def split: option.splits)
  moreover have "map sh_budget (kv_shards kv') = map sh_budget (kv_shards kv)"
    using s by (simp add: kv'_def list_eq_iff_nth_eq)
  ultimately show ?thesis by blast
qed

text \<open>The options with which a store can start: at least one shard, fewer than \<open>2^32\<close>, and a policy that
  \<open>ByName\<close> created.\<close>

definition opts_ok :: "StoreOptions \<Rightarrow> bool" where
  "opts_ok opts \<longleftrightarrow> 0 < so_ShardCount opts \<and> so_ShardCount opts < 2 ^ 32 \<and>
     (case so_NewEviction opts of None \<Rightarrow> True | Some p \<Rightarrow> p \<in> {NoEvict, SamplingEvict, LRU NewLRUEvict})"

definition opts_budget :: "StoreOptions \<Rightarrow> int" where
  "opts_budget opts = (if so_MaxMemoryBytes opts > 0 then so_MaxMemoryBytes opts div so_ShardCount opts else 0)"

lemma init_store_spec:
  assumes "opts_ok opts"
  obtains kv where "init_store opts = Some kv" "recovering kv" "store_view kv = Map.empty"
    "map sh_budget (kv_shards kv) = replicate (nat (so_ShardCount opts)) (opts_budget opts)"
proof -
  let ?p = "case so_NewEviction opts of None \<Rightarrow> ByName NameNoEvict | Some p \<Rightarrow> p"
  have t: "tracks ?p {}"
    using assms ByName_tracks [of NameNoEvict]
    by (auto simp: opts_ok_def NewLRUEvict_def lru_tracks_def split: option.splits)
  have c: "unat (word_of_int (so_ShardCount opts) :: u32) = nat (so_ShardCount opts)"
    using assms by (simp add: opts_ok_def unsigned_of_int take_bit_int_eq_self)
  then have c0: "(word_of_int (so_ShardCount opts) :: u32) \<noteq> 0"
    using assms by (metis opts_ok_def nat_eq_iff2 order_less_irrefl unat_0 zero_less_nat_eq)
  show ?thesis
    by (rule that [of "\<lparr>kv_shards = replicate (nat (so_ShardCount opts))
                      \<lparr>sh_data = [], sh_bytes = 0, sh_budget = opts_budget opts, sh_policy = ?p\<rparr>,
                    kv_wal = nil_wal, kv_shardCount = word_of_int (so_ShardCount opts),
                    kv_defaultTTL = so_DefaultTTL opts\<rparr>"])
      (use assms t c c0 in \<open>auto simp: init_store_def opts_ok_def Let_def opts_budget_def recovering_def
        store_view_def contents_def fun_eq_iff map_replicate_const dest!: getShard_less split: option.splits\<close>)
qed

lemma recover_log:
  assumes "opts_ok opts" and "list_all rec_ok rs"
  obtains kv0 kv where "init_store opts = Some kv0" "recover ord now (file_of (log_bytes rs)) kv0 = Ok kv" "kv_inv kv"
    "store_view kv = live now (log_view rs)"
    "map sh_budget (kv_shards kv) = replicate (nat (so_ShardCount opts)) (opts_budget opts)"
proof -
  obtain kv0 where kv0: "init_store opts = Some kv0" "recovering kv0" "store_view kv0 = Map.empty"
    "map sh_budget (kv_shards kv0) = replicate (nat (so_ShardCount opts)) (opts_budget opts)"
    using assms(1) by (rule init_store_spec)
  let ?cb = "\<lambda>r st. case st of None \<Rightarrow> None | Some kv \<Rightarrow> recover_apply now r kv"
  have "store_view kv0 = live now Map.empty" using kv0(3) by simp
  with kv0(2) obtain kv1 where kv1: "fold ?cb (map as_read rs) (Some kv0) = Some kv1" "recovering kv1"
    "store_view kv1 = live now (fold log_apply (map as_read rs) Map.empty)"
    "map sh_budget (kv_shards kv1) = map sh_budget (kv_shards kv0)"
    by (rule recover_fold)
  have "list_all Record_valid rs" using assms(2) by (auto simp: list_all_iff rec_ok_def)
  then have "Replay (file_of (log_bytes rs)) ?cb (Some kv0) = (Ok (), Some kv1)"
    using replay_loop_log [of rs ?cb "[]" EOF "Some kv0"] kv1(1) by (simp add: replay_loop_end)
  then have r: "recover ord now (file_of (log_bytes rs)) kv0 = Ok (kv1\<lparr>kv_shards := map (recover_shard ord) (kv_shards kv1)\<rparr>)"
      (is "_ = Ok ?kv")
    by (simp add: recover_def)
  note sp = recover_shards_spec [OF kv1(2) refl, of ord]
  have "store_view ?kv = store_view kv1" using sp by (simp add: store_view_def [abs_def])
  also have "\<dots> = live now (log_view rs)"
    using kv1(3) log_view_as_read [OF assms(2)] by (simp add: log_view_def)
  finally show ?thesis
    using sp kv0(4) kv1(4) by (intro that [OF kv0(1) r]) simp_all
qed

text \<open>Opening for appending yields the file that was replayed.\<close>

definition wal_opts_ok :: "Options \<Rightarrow> bool" where
  "wal_opts_ok o' \<longleftrightarrow> (o_Mode o' = SyncInterval \<longrightarrow> 0 < o_MaxBatchSize o' \<and> 0 < o_FlushInterval o')"

lemma NewKVStore_log:
  assumes "opts_ok opts" and "wal_opts_ok walOpts" and "list_all rec_ok rs"
  obtains kv where "NewKVStore ord now (file_of (log_bytes rs)) (Inr (log_bytes rs)) walOpts opts = Ok kv" "kv_inv kv"
    "store_view kv = live now (log_view rs)" "kv_wal kv = open_state (log_bytes rs) walOpts"
    "map sh_budget (kv_shards kv) = replicate (nat (so_ShardCount opts)) (opts_budget opts)"
proof -
  from assms(1,3) obtain kv0 kv where "init_store opts = Some kv0" "recover ord now (file_of (log_bytes rs)) kv0 = Ok kv"
    "kv_inv kv" "store_view kv = live now (log_view rs)"
    "map sh_budget (kv_shards kv) = replicate (nat (so_ShardCount opts)) (opts_budget opts)"
    by (rule recover_log)
  then show ?thesis
    using assms(2) by (intro that [of "kv\<lparr>kv_wal := open_state (log_bytes rs) walOpts\<rparr>"])
      (auto simp: NewKVStore_def Open_def wal_opts_ok_def store_view_def [abs_def])
qed

section \<open>Lemmas on sweeps and snapshots\<close>

lemma sweep_fold:
  assumes "shard_inv sh" and "distinct (map fst xs)" and "\<And>k rec. (k, rec) \<in> set xs \<Longrightarrow> gomap_get (sh_data sh) k = Some rec"
  shows "let sh' = fold (\<lambda>(key, rec) sh. if now > rc_expiredAt rec then shard_delete key rec sh else sh) xs sh
    in shard_inv sh' \<and> sh_budget sh' = sh_budget sh \<and>
       gomap_get (sh_data sh') =
         (\<lambda>k. if \<exists>rec. (k, rec) \<in> set xs \<and> now > rc_expiredAt rec then None else gomap_get (sh_data sh) k)"
  using assms
proof (induction xs arbitrary: sh)
  case (Cons x xs)
  obtain key rec where x: "x = (key, rec)" by (cases x)
  let ?sh = "if now > rc_expiredAt rec then shard_delete key rec sh else sh"
  have g: "gomap_get (sh_data ?sh) = (if now > rc_expiredAt rec then (gomap_get (sh_data sh))(key := None) else gomap_get (sh_data sh))"
    by simp
  have new: "(key, r) \<notin> set xs" for r
    using Cons.prems(2) x by (force simp: image_iff)
  have "gomap_get (sh_data ?sh) k = Some r" if "(k, r) \<in> set xs" for k r
    using that new [of r] Cons.prems(3) [of k r] g by auto
  moreover have "shard_inv ?sh" "sh_budget ?sh = sh_budget sh"
    using Cons.prems x by (auto intro: shard_delete_inv)
  ultimately show ?case
    using Cons.IH [of ?sh] Cons.prems(2) g new by (auto simp: x Let_def fun_eq_iff)
qed (simp add: Let_def)

lemma sweep_shard_spec:
  assumes "shard_inv sh"
  shows "shard_inv (sweep_shard ord now sh) \<and> sh_budget (sweep_shard ord now sh) = sh_budget sh \<and>
    gomap_get (sh_data (sweep_shard ord now sh)) =
      (\<lambda>k. case gomap_get (sh_data sh) k of None \<Rightarrow> None | Some rec \<Rightarrow> if now > rc_expiredAt rec then None else Some rec)"
proof -
  have wf: "gomap_wf (sh_data sh)" using assms by (simp add: shard_inv_def shard_ok_def)
  then have "distinct (map fst (in_order ord (sh_data sh)))"
    using gomap_wf_in_order [of ord "sh_data sh"] by (simp add: gomap_wf_def)
  from sweep_fold [OF assms this, of now] show ?thesis
    by (auto simp: sweep_shard_def Let_def fun_eq_iff gomap_get_Some_iff [OF wf, symmetric] split: option.splits)
qed

lemma sweep_spec:
  assumes "kv_inv kv"
  shows "kv_inv (sweep ord now kv) \<and> map sh_budget (kv_shards (sweep ord now kv)) = map sh_budget (kv_shards kv) \<and>
    kv_wal (sweep ord now kv) = kv_wal kv \<and>
    contents (sweep ord now kv) =
      (\<lambda>k. case contents kv k of None \<Rightarrow> None | Some rec \<Rightarrow> if now > rc_expiredAt rec then None else Some rec)"
proof -
  have s: "shard_inv (sweep_shard ord now (kv_shards kv ! i)) \<and>
      sh_budget (sweep_shard ord now (kv_shards kv ! i)) = sh_budget (kv_shards kv ! i) \<and>
      gomap_get (sh_data (sweep_shard ord now (kv_shards kv ! i))) =
      (\<lambda>k. case gomap_get (sh_data (kv_shards kv ! i)) k of None \<Rightarrow> None
         | Some rec \<Rightarrow> if now > rc_expiredAt rec then None else Some rec)" if "i < length (kv_shards kv)" for i
    using that assms by (intro sweep_shard_spec) (simp add: kv_inv_def)
  have g: "getShard (sweep ord now kv) = getShard kv"
    by (simp add: sweep_def getShard_def fun_eq_iff)
  have "getShard kv k = Some i" if "i < length (kv_shards kv)" "k \<in> keys (sweep_shard ord now (kv_shards kv ! i))" for i k
  proof -
    have "k \<in> keys (kv_shards kv ! i)"
      using that s [of i] by (auto simp: keys_get split: option.splits)
    with that assms show ?thesis unfolding kv_inv_def by blast
  qed
  with assms s have "kv_inv (sweep ord now kv)"
    unfolding kv_inv_def g by (simp add: sweep_def)
  moreover have "contents (sweep ord now kv) k =
      (case contents kv k of None \<Rightarrow> None | Some rec \<Rightarrow> if now > rc_expiredAt rec then None else Some rec)" for k
    using s getShard_less [of kv k] unfolding contents_def g by (auto simp: sweep_def split: option.splits)
  ultimately show ?thesis
    using s by (auto simp: sweep_def list_eq_iff_nth_eq)
qed

text \<open>The sweep of one shard.\<close>

lemma sweep_one_spec:
  assumes "kv_inv kv" and "i < length (kv_shards kv)"
    and kv'_def: "kv' = set_shard i (sweep_shard ord now (kv_shards kv ! i)) kv"
  shows "kv_inv kv' \<and> kv_wal kv' = kv_wal kv \<and> (unlimited kv \<longrightarrow> unlimited kv') \<and>
    (\<forall>k. contents kv' k = contents kv k \<or>
       contents kv' k = None \<and> (\<exists>rec. contents kv k = Some rec \<and> rc_expiredAt rec < now))"
proof -
  let ?s = "kv_shards kv ! i"
  have sw: "shard_inv (sweep_shard ord now ?s) \<and> sh_budget (sweep_shard ord now ?s) = sh_budget ?s \<and>
    gomap_get (sh_data (sweep_shard ord now ?s)) =
      (\<lambda>k. case gomap_get (sh_data ?s) k of None \<Rightarrow> None | Some rec \<Rightarrow> if now > rc_expiredAt rec then None else Some rec)"
    using assms(1,2) by (intro sweep_shard_spec) (simp add: kv_inv_def)
  have "getShard kv k = Some i" if "k \<in> keys (sweep_shard ord now ?s)" for k
  proof -
    have "k \<in> keys ?s" using that sw by (auto simp: keys_get split: option.splits)
    with assms(1,2) show ?thesis unfolding kv_inv_def by blast
  qed
  then have "kv_inv kv'" unfolding kv'_def using sw by (intro kv_inv_set_shard [OF assms(1)]) blast+
  moreover have "unlimited kv \<Longrightarrow> unlimited kv'"
    using sw assms(2) by (simp add: kv'_def unlimited_set_shard unlimited_def [of kv])
  moreover have "contents kv' k = contents kv k \<or>
       contents kv' k = None \<and> (\<exists>rec. contents kv k = Some rec \<and> rc_expiredAt rec < now)" for k
    using sw assms(2) by (auto simp: kv'_def contents_set_shard contents_at split: option.splits)
  ultimately show ?thesis by (simp add: kv'_def)
qed

lemma readable_sweep:
  assumes "kv_inv kv" and "i < length (kv_shards kv)" and "now \<le> t"
  shows "readable t (store_view (set_shard i (sweep_shard ord now (kv_shards kv ! i)) kv)) = readable t (store_view kv)"
proof
  fix k
  show "readable t (store_view (set_shard i (sweep_shard ord now (kv_shards kv ! i)) kv)) k = readable t (store_view kv) k"
    using sweep_one_spec [OF assms(1,2) refl, of ord now, THEN conjunct2, THEN conjunct2, THEN conjunct2, rule_format, of k] assms(3)
    by (auto simp: readable_def store_view_def)
qed

lemma set_record_fields [simp]:
  "wr_Op (set_record k v e) = WAL_OpSet" "wr_Key (set_record k v e) = k"
  "wr_Value (set_record k v e) = v" "wr_ExpiresAt (set_record k v e) = e"
  by (simp_all add: set_record_def)

lemma log_view_sets:
  assumes "\<forall>r \<in> set rs. wr_Op r = WAL_OpSet"
  shows "if k \<in> wr_Key ` set rs then \<exists>r \<in> set rs. wr_Key r = k \<and> log_view rs k = Some (wr_Value r, wr_ExpiresAt r)
    else log_view rs k = None"
  using assms by (induction rs rule: rev_induct) (auto simp: log_apply_def split: if_splits)

lemma snapshot_records_iff:
  assumes "kv_inv kv"
  shows "r \<in> set (snapshot_records ord now kv) \<longleftrightarrow>
    (\<exists>rec. contents kv (wr_Key r) = Some rec \<and> now \<le> rc_expiredAt rec \<and>
       r = set_record (wr_Key r) (rc_value rec) (rc_expiredAt rec))"
proof -
  have c: "contents kv k = Some rec \<longleftrightarrow> (\<exists>sh \<in> set (kv_shards kv). (k, rec) \<in> set (sh_data sh))" for k rec
  proof
    assume "contents kv k = Some rec"
    then obtain i where i: "getShard kv k = Some i" "gomap_get (sh_data (kv_shards kv ! i)) k = Some rec"
      by (auto simp: contents_def split: option.splits)
    then have "(k, rec) \<in> set (sh_data (kv_shards kv ! i))" by (simp add: map_of_SomeD)
    with getShard_less [OF i(1)] show "\<exists>sh \<in> set (kv_shards kv). (k, rec) \<in> set (sh_data sh)"
      using nth_mem by blast
  next
    assume "\<exists>sh \<in> set (kv_shards kv). (k, rec) \<in> set (sh_data sh)"
    then obtain i where i: "i < length (kv_shards kv)" "(k, rec) \<in> set (sh_data (kv_shards kv ! i))"
      by (metis in_set_conv_nth)
    then have "k \<in> keys (kv_shards kv ! i)" by (metis fst_conv imageI)
    then have "getShard kv k = Some i" using assms i(1) unfolding kv_inv_def by blast
    moreover have "gomap_wf (sh_data (kv_shards kv ! i))"
      using kv_inv_shard [OF assms i(1)] by (simp add: shard_ok_def)
    ultimately show "contents kv k = Some rec"
      using i(2) by (simp add: contents_at gomap_get_Some_iff)
  qed
  have "r \<in> set (snapshot_records ord now kv) \<longleftrightarrow>
    (\<exists>k rec. (\<exists>sh \<in> set (kv_shards kv). (k, rec) \<in> set (sh_data sh)) \<and> now \<le> rc_expiredAt rec \<and>
       r = set_record k (rc_value rec) (rc_expiredAt rec))"
    by (force simp: snapshot_records_def)
  then show ?thesis
    unfolding c [symmetric] by (metis set_record_fields(2))
qed

lemma snapshot_view:
  assumes "kv_inv kv" and "now \<le> t"
  shows "live t (log_view (snapshot_records ord now kv)) = live t (store_view kv)"
proof
  fix k
  let ?rs = "snapshot_records ord now kv"
  have sets: "\<forall>r \<in> set ?rs. wr_Op r = WAL_OpSet"
    using snapshot_records_iff [OF assms(1)] by (metis set_record_fields(1))
  show "live t (log_view ?rs) k = live t (store_view kv) k"
  proof (cases "k \<in> wr_Key ` set ?rs")
    case True
    then obtain r where r: "r \<in> set ?rs" "wr_Key r = k" "log_view ?rs k = Some (wr_Value r, wr_ExpiresAt r)"
      using log_view_sets [OF sets, of k] by auto
    then obtain rec where rec: "contents kv k = Some rec" "r = set_record k (rc_value rec) (rc_expiredAt rec)"
      using snapshot_records_iff [OF assms(1), of r ord now] by blast
    have "log_view ?rs k = store_view kv k"
      unfolding r(3) rec(2) store_view_def rec(1) by simp
    then show ?thesis by (simp add: live_def)
  next
    case False
    then have "log_view ?rs k = None" using log_view_sets [OF sets, of k] by simp
    moreover have "live t (store_view kv) k = None"
    proof (cases "contents kv k")
      case (Some rec)
      have "set_record k (rc_value rec) (rc_expiredAt rec) \<notin> set ?rs"
        using False by (auto simp: set_record_def image_iff)
      with Some snapshot_records_iff [OF assms(1), of "set_record k (rc_value rec) (rc_expiredAt rec)" ord now] assms(2)
      show ?thesis by (auto simp: live_def store_view_def set_record_def)
    qed (simp add: live_def store_view_def)
    ultimately show ?thesis by (simp add: live_def)
  qed
qed

section \<open>Runs\<close>

text \<open>The calls on a store one after the other; \<open>None\<close> when one of them does not return.\<close>

datatype store_call =
    CallSet Env bytes bytes gotime
  | CallDelete Env bytes
  | CallGet gotime bytes
  | CallSweep "bytes map_order" gotime
  | CallCompact "bytes map_order" gotime

fun exec_call :: "store_call \<Rightarrow> KVStore \<Rightarrow> KVStore option" where
  "exec_call (CallSet env key val expiredAt) kv =
     (case SetWithExpiry env key val expiredAt kv of Returns _ kv' \<Rightarrow> Some kv' | _ \<Rightarrow> None)"
| "exec_call (CallDelete env key) kv = (case Delete env key kv of Returns _ kv' \<Rightarrow> Some kv' | _ \<Rightarrow> None)"
| "exec_call (CallGet now key) kv = (case Get now key kv of Returns _ kv' \<Rightarrow> Some kv' | _ \<Rightarrow> None)"
| "exec_call (CallSweep ord now) kv = Some (sweep ord now kv)"
| "exec_call (CallCompact ord now) kv = Some (snd (KVStore_Compact ord now [] None None kv kv))"

fun run_calls :: "store_call list \<Rightarrow> KVStore \<Rightarrow> KVStore option" where
  "run_calls [] kv = Some kv"
| "run_calls (c # cs) kv = (case exec_call c kv of None \<Rightarrow> None | Some kv' \<Rightarrow> run_calls cs kv')"

text \<open>Calls up to a time: no error from the operating system, lengths and expiries that the log can hold,
  and sweeps and compactions that saw a clock not past that time.\<close>

fun call_ok :: "gotime \<Rightarrow> store_call \<Rightarrow> bool" where
  "call_ok t (CallSet env key val expiredAt) \<longleftrightarrow> env_write env = WriteOk \<and> env_sync env = None \<and>
     length key < 65536 \<and> length val < 4294967296 \<and> nano_range expiredAt"
| "call_ok t (CallDelete env key) \<longleftrightarrow> env_write env = WriteOk \<and> env_sync env = None \<and> length key < 65536"
| "call_ok t (CallGet now key) \<longleftrightarrow> True"
| "call_ok t (CallSweep ord now) \<longleftrightarrow> now \<le> t"
| "call_ok t (CallCompact ord now) \<longleftrightarrow> now \<le> t"

text \<open>The log holds records that give the live part of the store at every time from \<open>t\<close> on, all of it on
  stable storage, and every entry of the store fits the log.\<close>

definition log_agrees :: "gotime \<Rightarrow> KVStore \<Rightarrow> bool" where
  "log_agrees t kv \<longleftrightarrow> kv_inv kv \<and> unlimited kv \<and> w_Mode (kv_wal kv) = SyncAlways \<and>
     \<not> w_closed (kv_wal kv) \<and> \<not> w_detached (kv_wal kv) \<and> w_synced (kv_wal kv) = length (w_disk (kv_wal kv)) \<and>
     (\<forall>k v e. store_view kv k = Some (v, e) \<longrightarrow> rec_ok (set_record k v e)) \<and>
     (\<exists>rs. w_disk (kv_wal kv) = log_bytes rs \<and> list_all rec_ok rs \<and>
        (\<forall>t' \<ge> t. live t' (store_view kv) = live t' (log_view rs)))"

lemma append_always:
  "w_Mode w = SyncAlways \<Longrightarrow> \<not> w_closed w \<Longrightarrow> \<not> w_detached w \<Longrightarrow>
   append WriteOk None r w = Some (None, w\<lparr>w_disk := w_disk w @ encode r, w_synced := length (w_disk w @ encode r)\<rparr>)"
  by (simp add: append_def file_write_def file_sync_def SyncAlways_def SyncInterval_def Let_def)

lemma log_agrees_append:
  assumes "log_agrees t kv" and "rec_ok r" and "kv_inv kv'" and "unlimited kv'"
    and "kv_wal kv' = (kv_wal kv)\<lparr>w_disk := w_disk (kv_wal kv) @ encode r, w_synced := length (w_disk (kv_wal kv) @ encode r)\<rparr>"
    and "store_view kv' = log_apply r (store_view kv)"
  shows "log_agrees t kv'"
proof -
  from assms(1) obtain rs where rs: "w_disk (kv_wal kv) = log_bytes rs" "list_all rec_ok rs"
    "\<forall>t' \<ge> t. live t' (store_view kv) = live t' (log_view rs)"
    by (auto simp: log_agrees_def)
  have "live t' (store_view kv') = live t' (log_view (rs @ [r]))" if "t \<le> t'" for t'
    using rs(3) that by (simp add: assms(6) live_log_apply_cong [of t' "store_view kv"])
  moreover have "rec_ok (set_record k v e)" if "store_view kv' k = Some (v, e)" for k v e
  proof (cases "wr_Op r = WAL_OpSet \<and> wr_Key r = k")
    case True
    with that have "set_record k v e = r"
      by (cases r) (simp add: assms(6) log_apply_def set_record_def)
    with assms(2) show ?thesis by simp
  next
    case False
    with that have "store_view kv k = Some (v, e)"
      by (auto simp: assms(6) log_apply_def split: if_splits)
    with assms(1) show ?thesis by (simp add: log_agrees_def)
  qed
  ultimately show ?thesis
    using assms rs(1,2) unfolding log_agrees_def by (intro conjI exI [of _ "rs @ [r]"]) simp_all
qed

lemma log_agrees_set:
  assumes "log_agrees t kv" and "call_ok T (CallSet env key val expiredAt)"
  shows "\<exists>kv'. SetWithExpiry env key val expiredAt kv = Returns (Inr ()) kv' \<and> log_agrees t kv'"
proof -
  let ?r = "set_record key val expiredAt"
  let ?w = "(kv_wal kv)\<lparr>w_disk := w_disk (kv_wal kv) @ encode ?r, w_synced := length (w_disk (kv_wal kv) @ encode ?r)\<rparr>"
  have k: "kv_inv kv" "unlimited kv" using assms(1) by (simp_all add: log_agrees_def)
  have "AppendSet (env_write env) (env_sync env) key val expiredAt (kv_wal kv) = Some (None, ?w)"
    using assms by (simp add: AppendSet_def append_always log_agrees_def)
  from SetWithExpiry_unlimited [OF k this] obtain kv' where
    r: "SetWithExpiry env key val expiredAt kv = Returns (Inr ()) kv'" "kv_wal kv' = ?w" "unlimited kv'"
      "contents kv' = (contents kv)(key \<mapsto> \<lparr>rc_value = val, rc_createdAt = env_now env, rc_expiredAt = expiredAt\<rparr>)"
    by blast
  have "store_view kv' = log_apply ?r (store_view kv)"
    using r(4) by (auto simp: store_view_def log_apply_def fun_eq_iff)
  moreover have "rec_ok ?r" using assms(2) by (simp add: rec_ok_def Record_valid_def)
  ultimately show ?thesis
    using log_agrees_append [OF assms(1) _ SetWithExpiry_inv [OF k(1) r(1)] r(3)] r(1,2) by blast
qed

lemma log_agrees_delete:
  assumes "log_agrees t kv" and "call_ok T (CallDelete env key)"
  shows "\<exists>res kv'. Delete env key kv = Returns res kv' \<and> log_agrees t kv' \<and> store_view kv' = (store_view kv)(key := None)"
proof -
  let ?r = "delete_record key"
  let ?w = "(kv_wal kv)\<lparr>w_disk := w_disk (kv_wal kv) @ encode ?r, w_synced := length (w_disk (kv_wal kv) @ encode ?r)\<rparr>"
  have k: "kv_inv kv" "unlimited kv" using assms(1) by (simp_all add: log_agrees_def)
  have "AppendDelete (env_write env) (env_sync env) key (kv_wal kv) = Some (None, ?w)"
    using assms by (simp add: AppendDelete_def append_always log_agrees_def)
  from Delete_logged [OF k(1) this] k(2) obtain res kv' where
    r: "Delete env key kv = Returns res kv'" "kv_wal kv' = ?w" "unlimited kv'" "contents kv' = (contents kv)(key := None)"
    by blast
  have v: "store_view kv' = (store_view kv)(key := None)"
    using r(4) by (auto simp: store_view_def fun_eq_iff)
  then have "store_view kv' = log_apply ?r (store_view kv)"
    by (simp add: log_apply_def delete_record_def WAL_OpSet_def WAL_OpDelete_def)
  moreover have "rec_ok ?r"
    using assms(2) by (simp add: rec_ok_def Record_valid_def delete_record_def WAL_OpSet_def WAL_OpDelete_def)
  ultimately show ?thesis
    using log_agrees_append [OF assms(1) _ Delete_inv [OF k(1) r(1)] r(3)] r(1,2) v by blast
qed

lemma unlimited_budgets: "unlimited kv \<longleftrightarrow> (\<forall>b \<in> set (map sh_budget (kv_shards kv)). b = 0)"
  by (auto simp: unlimited_def)

lemma log_agrees_sweep:
  assumes "log_agrees t kv" and "now \<le> t"
  shows "log_agrees t (sweep ord now kv)"
proof -
  note sw = sweep_spec [of kv ord now]
  have k: "kv_inv kv" using assms(1) by (simp add: log_agrees_def)
  have "live t' (store_view (sweep ord now kv)) = live t' (store_view kv)" if "t \<le> t'" for t'
    using sw [OF k] assms(2) that by (auto simp: store_view_def live_def fun_eq_iff split: option.splits)
  moreover have "store_view (sweep ord now kv) key = Some ve \<Longrightarrow> store_view kv key = Some ve" for key ve
    using sw [OF k] by (auto simp: store_view_def split: option.splits if_splits)
  moreover have "unlimited (sweep ord now kv)"
    using sw [OF k] assms(1) unfolding unlimited_budgets log_agrees_def by metis
  ultimately show ?thesis
    using sw [OF k] assms(1) by (auto simp: log_agrees_def)
qed

lemma snapshot_rec_ok:
  assumes "log_agrees t kv"
  shows "list_all rec_ok (snapshot_records ord now kv)" (is "list_all rec_ok ?rs")
proof -
  have k: "kv_inv kv" using assms by (simp add: log_agrees_def)
  have "rec_ok r" if r: "r \<in> set ?rs" for r
  proof -
    obtain rec where "contents kv (wr_Key r) = Some rec" "r = set_record (wr_Key r) (rc_value rec) (rc_expiredAt rec)"
      using r snapshot_records_iff [OF k, of r ord now] by blast
    moreover from this have "store_view kv (wr_Key r) = Some (rc_value rec, rc_expiredAt rec)"
      by (simp add: store_view_def)
    ultimately show ?thesis using assms unfolding log_agrees_def by metis
  qed
  then show ?thesis by (simp add: list_all_iff)
qed

lemma log_agrees_compact:
  assumes "log_agrees t kv" and "now \<le> t"
  shows "log_agrees t (snd (KVStore_Compact ord now [] None None kv kv))"
proof -
  let ?rs = "snapshot_records ord now kv"
  let ?kv = "kv\<lparr>kv_wal := (kv_wal kv)\<lparr>w_disk := log_bytes ?rs, w_synced := length (log_bytes ?rs), w_detached := False, w_closed := False\<rparr>\<rparr>"
  have c: "snd (KVStore_Compact ord now [] None None kv kv) = ?kv"
    by (simp add: KVStore_Compact_def Compact_def writeSnapshot_def log_bytes_def Let_def)
  have k: "kv_inv kv" using assms(1) by (simp add: log_agrees_def)
  have v: "store_view ?kv = store_view kv" by (simp add: store_view_def [abs_def])
  have "list_all rec_ok ?rs"
    by (rule snapshot_rec_ok [OF assms(1)])
  moreover have "\<forall>t' \<ge> t. live t' (store_view kv) = live t' (log_view ?rs)"
    using snapshot_view [OF k] assms(2) by simp
  ultimately show ?thesis
    unfolding c using assms(1) by (auto simp: log_agrees_def v)
qed

lemma log_agrees_get:
  assumes "log_agrees t kv"
  shows "\<exists>res kv'. Get now key kv = Returns res kv' \<and> log_agrees t kv'"
proof -
  have k: "kv_inv kv" "unlimited kv" using assms by (simp_all add: log_agrees_def)
  from Get_result [OF k(1), of now key] obtain res kv' where r: "Get now key kv = Returns res kv'" by blast
  moreover have "store_view kv' = store_view kv"
    using Get_store [OF k(1) r] by (simp add: store_view_def [abs_def])
  ultimately show ?thesis
    using Get_store [OF k(1) r] Get_unlimited [OF k r] assms by (auto simp: log_agrees_def)
qed

lemma log_agrees_call:
  assumes "log_agrees t kv" and "call_ok t c"
  obtains kv' where "exec_call c kv = Some kv'" "log_agrees t kv'"
proof (cases c)
  case (CallSet env key val expiredAt)
  with log_agrees_set [of t kv t env key val expiredAt] assms that show ?thesis by auto
next
  case (CallDelete env key)
  with log_agrees_delete [of t kv t env key] assms that show ?thesis by auto
next
  case (CallGet now key)
  with log_agrees_get [OF assms(1), of now key] that show ?thesis by auto
next
  case (CallSweep ord now)
  with log_agrees_sweep [of t kv now ord] assms that show ?thesis by simp
next
  case (CallCompact ord now)
  with log_agrees_compact [of t kv now ord] assms that show ?thesis by simp
qed

lemma log_agrees_run:
  assumes "log_agrees t kv" and "list_all (call_ok t) cs"
  obtains kv' where "run_calls cs kv = Some kv'" "log_agrees t kv'"
  using assms
proof (induction cs arbitrary: kv thesis)
  case (Cons c cs)
  from Cons.prems(2,3) obtain kv1 where "exec_call c kv = Some kv1" "log_agrees t kv1"
    by (auto elim: log_agrees_call)
  with Cons show ?case by auto
qed simp

lemma log_agrees_mono: "log_agrees t kv \<Longrightarrow> t \<le> t' \<Longrightarrow> log_agrees t' kv"
  by (auto simp: log_agrees_def)

lemma log_agrees_restart:
  assumes "opts_ok opts" and "o_Mode walOpts = SyncAlways" and "list_all rec_ok rs" and "so_MaxMemoryBytes opts \<le> 0"
  obtains kv where "NewKVStore ord now (file_of (log_bytes rs)) (Inr (log_bytes rs)) walOpts opts = Ok kv"
    "log_agrees now kv" "store_view kv = live now (log_view rs)"
proof -
  have "wal_opts_ok walOpts" using assms(2) by (simp add: wal_opts_ok_def SyncAlways_def SyncInterval_def)
  with assms(1) obtain kv where
    n: "NewKVStore ord now (file_of (log_bytes rs)) (Inr (log_bytes rs)) walOpts opts = Ok kv" and
    kv: "kv_inv kv" "store_view kv = live now (log_view rs)" "kv_wal kv = open_state (log_bytes rs) walOpts"
    "map sh_budget (kv_shards kv) = replicate (nat (so_ShardCount opts)) (opts_budget opts)"
    using assms(3) by (rule NewKVStore_log)
  have "log_view rs k = Some (v, e) \<Longrightarrow> rec_ok (set_record k v e)" for k v e
    using assms(3)
  proof (induction rs rule: rev_induct)
    case (snoc r rs)
    then show ?case
      by (cases r) (auto simp: log_apply_def set_record_def split: if_splits)
  qed simp
  then have "store_view kv k = Some (v, e) \<Longrightarrow> rec_ok (set_record k v e)" for k v e
    by (auto simp: kv(2) live_def split: option.splits if_splits)
  moreover have "unlimited kv"
    using assms(4) unfolding unlimited_budgets kv(4) by (simp add: opts_budget_def)
  ultimately have "log_agrees now kv"
    using kv assms(2,3) by (auto simp: log_agrees_def open_state_def live_live)
  with n kv(2) show ?thesis by (intro that)
qed

section \<open>Properties\<close>

text \<open>C1 (roundtrip): crash recovery in the mode \<open>always\<close>, without a memory cap and as long as the
  operating system reports no error. A store started on a log and used by any sequence of writes,
  deletes, reads, sweeps and compactions answers every call; a store started at a later time on the
  file it leaves, all of which is on stable storage, starts, satisfies the invariant, and holds exactly
  the entries of the old store that are live at that time, with their values and expiries.\<close>

theorem crash_recovery:
  assumes "opts_ok opts" and "so_MaxMemoryBytes opts \<le> 0" and "o_Mode walOpts = SyncAlways"
    and "list_all rec_ok rs" and "list_all (call_ok t) cs" and "t0 \<le> t"
  shows "\<exists>kv0 kv kv'.
    NewKVStore ord t0 (file_of (log_bytes rs)) (Inr (log_bytes rs)) walOpts opts = Ok kv0 \<and>
    run_calls cs kv0 = Some kv \<and> w_synced (kv_wal kv) = length (w_disk (kv_wal kv)) \<and>
    NewKVStore ord' t (file_of (w_disk (kv_wal kv))) (Inr (w_disk (kv_wal kv))) walOpts opts = Ok kv' \<and>
    kv_inv kv' \<and> store_view kv' = live t (store_view kv)"
proof -
  from assms(1,3,4,2) obtain kv0 where
    0: "NewKVStore ord t0 (file_of (log_bytes rs)) (Inr (log_bytes rs)) walOpts opts = Ok kv0" "log_agrees t0 kv0"
    by (rule log_agrees_restart)
  from log_agrees_mono [OF 0(2) assms(6)] assms(5) obtain kv where 1: "run_calls cs kv0 = Some kv" "log_agrees t kv"
    by (rule log_agrees_run)
  then obtain rs' where rs': "w_disk (kv_wal kv) = log_bytes rs'" "list_all rec_ok rs'"
    "live t (store_view kv) = live t (log_view rs')"
    by (auto simp: log_agrees_def)
  from assms(1,3) rs'(2) assms(2) obtain kv' where
    "NewKVStore ord' t (file_of (log_bytes rs')) (Inr (log_bytes rs')) walOpts opts = Ok kv'" "log_agrees t kv'"
    "store_view kv' = live t (log_view rs')"
    by (rule log_agrees_restart)
  with 0 1 rs' show ?thesis by (auto simp: log_agrees_def)
qed

theorem crash_recovery_witness:
  "let opts = \<lparr>so_ShardCount = 4, so_DefaultTTL = 900, so_MaxMemoryBytes = 0, so_NewEviction = None\<rparr>;
       walOpts = \<lparr>o_Mode = SyncAlways, o_FlushInterval = 500, o_MaxBatchSize = 1000\<rparr>;
       cs = [CallSet example_env [1] [2] 50, CallCompact (\<lambda>_ _. 0) 8, CallDelete example_env [1]]
   in \<exists>kv0 kv kv'. NewKVStore (\<lambda>_ _. 0) 7 (file_of (log_bytes [])) (Inr (log_bytes [])) walOpts opts = Ok kv0 \<and>
    run_calls cs kv0 = Some kv \<and> w_synced (kv_wal kv) = length (w_disk (kv_wal kv)) \<and>
    NewKVStore (\<lambda>_ _. 0) 9 (file_of (w_disk (kv_wal kv))) (Inr (w_disk (kv_wal kv))) walOpts opts = Ok kv' \<and>
    kv_inv kv' \<and> store_view kv' = live 9 (store_view kv)"
  unfolding Let_def
  by (rule crash_recovery) (simp_all add: opts_ok_def example_env_def nano_range_def)

text \<open>Crash recovery in the mode \<open>interval\<close>. Whenever the process dies between the steps of the flusher, with any eviction
  policy and memory cap, a store started on the file it leaves starts, satisfies the invariant, and
  holds what the records say that were appended up to some moment; what is missing is a tail of at most
  \<open>3*MaxBatchSize-1\<close> records.\<close>

lemma interval_crash_recovery:
  assumes "opts_ok opts" and "wal_opts_ok walOpts" and "o_Mode walOpts = SyncInterval"
    and "list_all rec_ok rs" and "list_all rec_ok (appended es)" and "list_all event_ok es"
    and "wal_run es (open_state (log_bytes rs) walOpts) = Some w"
  shows "\<exists>k kv. k \<le> length (appended es) \<and> int (length (appended es) - k) \<le> 3 * o_MaxBatchSize walOpts - 1 \<and>
    NewKVStore ord now (file_of (w_disk w)) (Inr (w_disk w)) walOpts opts = Ok kv \<and>
    kv_inv kv \<and> store_view kv = live now (log_view (rs @ take k (appended es)))"
proof -
  have "log_inv (log_bytes rs) (appended es) w"
    using log_inv_run [OF log_inv_open [OF assms(3)] assms(6,7)] by simp
  then obtain k where k: "k \<le> length (appended es)" "w_disk w = log_bytes (rs @ take k (appended es))"
    "pending w = map encode (drop k (appended es))"
    by (auto simp: log_inv_def)
  have "window_inv (open_state (log_bytes rs) walOpts)"
    using assms(2,3) by (simp add: open_state_def window_inv_def wal_opts_ok_def)
  then have "window_inv w" using assms(7) by (rule window_inv_run)
  moreover have "w_options w = walOpts"
    using wal_run_options [OF assms(7)] by (simp add: open_state_def)
  moreover have "int (length (pending w)) = int (length (appended es) - k)"
    using k(3) by simp
  ultimately have b: "int (length (appended es) - k) \<le> 3 * o_MaxBatchSize walOpts - 1"
    by (auto simp: window_inv_def pending_def)
  have "list_all rec_ok (rs @ take k (appended es))"
    using assms(4,5) by (auto simp: list_all_iff dest: in_set_takeD)
  with assms(1,2) obtain kv where
    "NewKVStore ord now (file_of (w_disk w)) (Inr (w_disk w)) walOpts opts = Ok kv" "kv_inv kv"
    "store_view kv = live now (log_view (rs @ take k (appended es)))"
    unfolding k(2) by (rule NewKVStore_log)
  with k(1) b show ?thesis by blast
qed

text \<open>The sweeper keeps the invariant of the store, so its byte counters and the policies
  stay exact, and it is invisible: from its clock on, every \<open>Get\<close> returns what it would have returned
  without the sweep. What it leaves has not expired.\<close>

lemma sweep_invisible:
  assumes "kv_inv kv" and "now \<le> t"
  shows "kv_inv (sweep ord now kv) \<and>
    (\<exists>kv1 kv2 res. Get t key kv = Returns res kv1 \<and> Get t key (sweep ord now kv) = Returns res kv2) \<and>
    (\<forall>rec. contents (sweep ord now kv) key = Some rec \<longrightarrow> now \<le> rc_expiredAt rec)"
proof -
  note sw = sweep_spec [OF assms(1), of ord now]
  then have "read_result t (contents (sweep ord now kv) key) = read_result t (contents kv key)"
    using assms(2) by (auto simp: read_result_def split: option.splits)
  with Get_result [OF assms(1), of t key] Get_result [of "sweep ord now kv" t key] sw
  have "\<exists>kv1 kv2 res. Get t key kv = Returns res kv1 \<and> Get t key (sweep ord now kv) = Returns res kv2"
    by metis
  moreover have "contents (sweep ord now kv) key = Some rec \<Longrightarrow> now \<le> rc_expiredAt rec" for rec
    using sw by (auto split: option.splits if_splits)
  ultimately show ?thesis using sw by blast
qed

text \<open>C36 (safety): a write that was refused for want of memory comes back with a restart. The caller was
  told \<open>ErrMemoryFull\<close> and the store went on without the entry, but a store started on the file holds
  it.\<close>

theorem refused_write_returns:
  assumes "kv_inv kv" and "w_Mode (kv_wal kv) = SyncAlways" and "\<not> w_closed (kv_wal kv)" and "\<not> w_detached (kv_wal kv)"
    and "w_disk (kv_wal kv) = log_bytes rs" and "list_all rec_ok rs"
    and "call_ok t (CallSet env key val expiredAt)" and "SetWithExpiry env key val expiredAt kv = Returns (Inl ErrMemoryFull) kv'"
    and "opts_ok opts" and "wal_opts_ok walOpts" and "t < expiredAt"
  shows "contents kv' = contents kv \<and>
    (\<exists>kv''. NewKVStore ord t (file_of (w_disk (kv_wal kv'))) (Inr (w_disk (kv_wal kv'))) walOpts opts = Ok kv'' \<and>
      kv_inv kv'' \<and> store_view kv'' key = Some (val, expiredAt))"
  using assms(1,8)
proof (cases rule: SetWithExpiry_cases)
  case (rejected w i sh)
  have "contents kv' = contents kv"
    using getShard_less [OF rejected(2)] rejected(2,4,8) by (auto simp: contents_set_shard contents_at fun_eq_iff)
  moreover have "w_disk (kv_wal kv') = log_bytes (rs @ [set_record key val expiredAt])"
    using rejected(1,4) assms(2-5,7) by (auto simp: AppendSet_def append_always)
  moreover have "list_all rec_ok (rs @ [set_record key val expiredAt])"
    using assms(6,7) by (simp add: rec_ok_def Record_valid_def)
  from NewKVStore_log [OF assms(9,10) this] obtain kv'' where
    "NewKVStore ord t (file_of (log_bytes (rs @ [set_record key val expiredAt])))
       (Inr (log_bytes (rs @ [set_record key val expiredAt]))) walOpts opts = Ok kv''" "kv_inv kv''"
    "store_view kv'' = live t (log_view (rs @ [set_record key val expiredAt]))" by blast
  ultimately show ?thesis
    using assms(11) by (simp add: log_apply_def)
qed simp_all

theorem refused_write_returns_witness:
  "let kv = example_store 1 NoEvict SyncAlways; b = encode (set_record [1] [2] 50);
       kv' = kv\<lparr>kv_wal := (kv_wal kv)\<lparr>w_disk := b, w_synced := length b\<rparr>\<rparr>;
       opts = \<lparr>so_ShardCount = 2, so_DefaultTTL = 100, so_MaxMemoryBytes = 2, so_NewEviction = None\<rparr>
   in contents kv' = contents kv \<and>
    (\<exists>kv''. NewKVStore (\<lambda>_ _. 0) 9 (file_of (w_disk (kv_wal kv'))) (Inr (w_disk (kv_wal kv')))
        (w_options (kv_wal kv)) opts = Ok kv'' \<and> kv_inv kv'' \<and> store_view kv'' [1] = Some ([2], 50))"
  unfolding Let_def
proof (rule refused_write_returns [where env = example_env and rs = "[]"])
  show "kv_inv (example_store 1 NoEvict SyncAlways)" by (simp add: example_store_inv)
qed (simp_all add: store_eval set_shard_def numeral_2_eq_2 opts_ok_def wal_opts_ok_def nano_range_def)

text \<open>C37 (safety): a write between the snapshot of a compaction and its rename is lost. The write returns
  no error, its record is at the end of the log and all of the log is on stable storage; the compaction succeeds, and a
  store started on the compacted file knows nothing of the key.\<close>

theorem compaction_loses_write:
  assumes "log_agrees t kv" and "call_ok t (CallSet env key val expiredAt)" and "contents kv key = None"
    and "now \<le> t" and "opts_ok opts" and "wal_opts_ok walOpts"
  shows "\<exists>kv1 kv2 kv'. SetWithExpiry env key val expiredAt kv = Returns (Inr ()) kv1 \<and>
    w_disk (kv_wal kv1) = w_disk (kv_wal kv) @ encode (set_record key val expiredAt) \<and>
    w_synced (kv_wal kv1) = length (w_disk (kv_wal kv1)) \<and>
    KVStore_Compact ord now [] None None kv kv1 = (None, kv2) \<and> contents kv2 key \<noteq> None \<and>
    NewKVStore ord t (file_of (w_disk (kv_wal kv2))) (Inr (w_disk (kv_wal kv2))) walOpts opts = Ok kv' \<and>
    contents kv' key = None"
proof -
  from log_agrees_set [OF assms(1,2)] obtain kv1 where
    1: "SetWithExpiry env key val expiredAt kv = Returns (Inr ()) kv1" by blast
  have k: "kv_inv kv" using assms(1) by (simp add: log_agrees_def)
  let ?rs = "snapshot_records ord now kv"
  obtain kv2 where 2: "KVStore_Compact ord now [] None None kv kv1 = (None, kv2)" "w_disk (kv_wal kv2) = log_bytes ?rs"
      "contents kv2 = contents kv1"
    by (auto simp: KVStore_Compact_def Compact_def writeSnapshot_def log_bytes_def Let_def)
  have a: "AppendSet (env_write env) (env_sync env) key val expiredAt (kv_wal kv) =
      Some (None, (kv_wal kv)\<lparr>w_disk := w_disk (kv_wal kv) @ encode (set_record key val expiredAt),
        w_synced := length (w_disk (kv_wal kv) @ encode (set_record key val expiredAt))\<rparr>)"
    using assms(1,2) by (simp add: AppendSet_def append_always log_agrees_def)
  have "contents kv1 key \<noteq> None" and w1: "w_disk (kv_wal kv1) = w_disk (kv_wal kv) @ encode (set_record key val expiredAt)"
      "w_synced (kv_wal kv1) = length (w_disk (kv_wal kv1))"
    using k 1
  proof (atomize (full), cases rule: SetWithExpiry_cases)
    case (accepted w i sh)
    then show "contents kv1 key \<noteq> None \<and> w_disk (kv_wal kv1) = w_disk (kv_wal kv) @ encode (set_record key val expiredAt) \<and>
        w_synced (kv_wal kv1) = length (w_disk (kv_wal kv1))"
      using getShard_less [OF accepted(2)] a by (auto simp: contents_set_shard)
  qed simp_all
  moreover from NewKVStore_log [OF assms(5,6) snapshot_rec_ok [OF assms(1), of ord now]] obtain kv' where
    n: "NewKVStore ord t (file_of (log_bytes ?rs)) (Inr (log_bytes ?rs)) walOpts opts = Ok kv'"
    "store_view kv' = live t (log_view ?rs)" by blast
  moreover have "store_view kv' key = None"
    unfolding n(2) snapshot_view [OF k assms(4)] using assms(3) by (simp add: live_def store_view_def)
  then have "contents kv' key = None" by (simp add: store_view_def)
  ultimately show ?thesis
    using 1 2 by auto
qed

theorem compaction_loses_write_witness:
  "let kv = example_store 0 NoEvict SyncAlways;
       opts = \<lparr>so_ShardCount = 2, so_DefaultTTL = 100, so_MaxMemoryBytes = 0, so_NewEviction = None\<rparr>
   in \<exists>kv1 kv2 kv'. SetWithExpiry example_env [1] [2] 50 kv = Returns (Inr ()) kv1 \<and>
    w_disk (kv_wal kv1) = w_disk (kv_wal kv) @ encode (set_record [1] [2] 50) \<and>
    w_synced (kv_wal kv1) = length (w_disk (kv_wal kv1)) \<and>
    KVStore_Compact (\<lambda>_ _. 0) 8 [] None None kv kv1 = (None, kv2) \<and> contents kv2 [1] \<noteq> None \<and>
    NewKVStore (\<lambda>_ _. 0) 9 (file_of (w_disk (kv_wal kv2))) (Inr (w_disk (kv_wal kv2))) (w_options (kv_wal kv)) opts = Ok kv' \<and>
    contents kv' [1] = None"
  unfolding Let_def
proof (rule compaction_loses_write)
  have e: "contents (example_store 0 NoEvict SyncAlways) k = None" for k
    by (auto simp: contents_def example_store_def nth_Cons' numeral_2_eq_2 split: option.splits dest!: getShard_less)
  then show "contents (example_store 0 NoEvict SyncAlways) [1] = None" .
  have "kv_inv (example_store 0 NoEvict SyncAlways)" by (simp add: example_store_inv)
  with e show "log_agrees 9 (example_store 0 NoEvict SyncAlways)"
    unfolding log_agrees_def
    by (intro conjI exI [of _ "[]"])
      (simp_all add: store_view_def [abs_def] live_def example_store_def unlimited_def open_state_def)
qed (simp_all add: opts_ok_def wal_opts_ok_def nano_range_def example_env_def example_store_def open_state_def
    SyncAlways_def SyncInterval_def)

end
