(* ===== verification/Concurrency.thy ===== *)
theory Concurrency
  imports Store_Recovery
begin

text \<open>
  The store under concurrent calls (\<open>storage/store/kv_store.go\<close>, \<open>kv_store_util.go\<close>). The connections of a
  server call \<open>SetWithExpiry\<close>, \<open>Get\<close> and \<open>Delete\<close> from goroutines of their own, beside the sweeper, the
  flusher of the log and a compaction. What runs under one lock is one step: the append to the log, the
  section under the lock of a shard, the read under its read lock, the sweep of one shard, the copy of one
  shard into a snapshot. Steps of different goroutines interleave in any order.

  The specification is a map whose operations are atomic; the store refines it, with each call taking
  effect in one step between its invocation and its response. What the log makes of concurrent calls is
  the subject of the last theorems.
\<close>

section \<open>Critical sections\<close>

text \<open>\<open>AfterRead\<close> of concurrent reads takes only the mutex of the policy, not the lock of the shard, so it can
  fall between the \<open>BeforeWrite\<close> and the \<open>AfterWrite\<close> of a write; \<open>reads\<close> are the keys of those that do.\<close>

definition after_reads_write :: "bytes list \<Rightarrow> Policy \<Rightarrow> bytes \<Rightarrow> Policy" where
  "after_reads_write reads p key = AfterWrite (fold (\<lambda>k p. AfterRead p k) reads p) key"

definition SetWithExpiry_section :: "Env \<Rightarrow> bytes list \<Rightarrow> bytes \<Rightarrow> bytes \<Rightarrow> gotime \<Rightarrow> KVStore \<Rightarrow>
    (StoreError, KVStore, unit) outcome" where
  "SetWithExpiry_section env reads key val expiredAt kv =
     (case getShard kv key of
        None \<Rightarrow> Panics
      | Some i \<Rightarrow>
          (let shard = kv_shards kv ! i;
               rec = \<lparr>rc_value = val, rc_createdAt = env_now env, rc_expiredAt = expiredAt\<rparr>
           in case shard_write (BeforeWrite (env_order env)) (after_reads_write reads) (sh_policy shard) shard key rec of
                None \<Rightarrow> Diverges
              | Some (accepted, p', shard') \<Rightarrow>
                  Returns (if accepted then Inr () else Inl ErrMemoryFull)
                    (set_shard i (shard'\<lparr>sh_policy := p'\<rparr>) kv)))"

definition Delete_section :: "bytes \<Rightarrow> KVStore \<Rightarrow> (StoreError, KVStore, unit) outcome" where
  "Delete_section key kv =
     (case getShard kv key of
        None \<Rightarrow> Panics
      | Some i \<Rightarrow>
          (let shard = kv_shards kv ! i
           in case gomap_get (sh_data shard) key of
                None \<Rightarrow> Returns (Inl ErrKeyNotFound) kv
              | Some rec \<Rightarrow> Returns (Inr ()) (set_shard i (shard_delete key rec shard) kv)))"

text \<open>\<open>Get\<close> up to \<open>RUnlock\<close>, and the rest of it: the look at the clock and \<open>AfterRead\<close>. \<open>None\<close> is the panic of
  \<open>getShard\<close>.\<close>

definition Get_section :: "bytes \<Rightarrow> KVStore \<Rightarrow> (StoreRecord option \<times> KVStore) option" where
  "Get_section key kv =
     (case getShard kv key of
        None \<Rightarrow> None
      | Some i \<Rightarrow>
          (let shard = kv_shards kv ! i;
               p = BeforeRead (sh_policy shard) key
           in Some (gomap_get (sh_data shard) key, set_shard i (shard\<lparr>sh_policy := p\<rparr>) kv)))"

definition Get_end :: "gotime \<Rightarrow> bytes \<Rightarrow> StoreRecord option \<Rightarrow> KVStore \<Rightarrow> ((StoreError + bytes) \<times> KVStore) option" where
  "Get_end now key record kv =
     (case getShard kv key of
        None \<Rightarrow> None
      | Some i \<Rightarrow>
          (let shard = kv_shards kv ! i
           in case record of
                None \<Rightarrow> Some (Inl ErrKeyNotFound, kv)
              | Some rec \<Rightarrow>
                  (if now > rc_expiredAt rec then Some (Inl ErrKeyNotFound, kv)
                   else Some (Inr (rc_value rec), set_shard i (shard\<lparr>sh_policy := AfterRead (sh_policy shard) key\<rparr>) kv))))"

text \<open>A call that nothing interrupts is its sections one after the other.\<close>

lemma SetWithExpiry_sections:
  "SetWithExpiry env key val e kv =
     (case AppendSet (env_write env) (env_sync env) key val e (kv_wal kv) of
        None \<Rightarrow> Blocks
      | Some (Some err, w) \<Rightarrow> Returns (Inl (WALError err)) (kv\<lparr>kv_wal := w\<rparr>)
      | Some (None, w) \<Rightarrow> SetWithExpiry_section env [] key val e (kv\<lparr>kv_wal := w\<rparr>))"
proof -
  have "after_reads_write [] = AfterWrite" by (simp add: after_reads_write_def fun_eq_iff)
  then show ?thesis
    by (simp add: SetWithExpiry_def SetWithExpiry_section_def Let_def split: option.splits)
qed

lemma Delete_sections:
  "Delete env key kv =
     (case AppendDelete (env_write env) (env_sync env) key (kv_wal kv) of
        None \<Rightarrow> Blocks
      | Some (Some err, w) \<Rightarrow> Returns (Inl (WALError err)) (kv\<lparr>kv_wal := w\<rparr>)
      | Some (None, w) \<Rightarrow> Delete_section key (kv\<lparr>kv_wal := w\<rparr>))"
  by (simp add: Delete_def Delete_section_def Let_def split: option.splits)

lemma set_shard_twice [simp]: "set_shard i a (set_shard i b kv) = set_shard i a kv"
  by (simp add: set_shard_def)

lemma Get_sections:
  "Get now key kv =
     (case Get_section key kv of
        None \<Rightarrow> Panics
      | Some (r, kv1) \<Rightarrow> (case Get_end now key r kv1 of None \<Rightarrow> Panics | Some (res, kv2) \<Rightarrow> Returns res kv2))"
proof (cases "getShard kv key")
  case (Some i)
  with getShard_less [OF Some] show ?thesis
    by (simp add: Get_def Get_section_def Get_end_def Let_def split: option.splits)
qed (simp add: Get_def Get_section_def)

section \<open>The interleaved store\<close>

datatype call = CSet bytes bytes gotime | CGet bytes | CDelete bytes

text \<open>What a call has when it has taken effect, and what it returns. A read has the entry it found; whether
  that has expired depends on a look at the clock that comes later; the answer of a read carries what the clock showed.\<close>

datatype reply = Acked "StoreError + unit" | Found "StoreRecord option"

datatype answer = Written "StoreError + unit" | Value gotime "StoreError + bytes"

datatype thread = Idle | Called call | Logged call | Finished call reply

text \<open>\<open>cs_compact\<close> is a compaction under way: its clock, the next shard to copy and the records so far. There
  is one at a time.\<close>

record Shared =
  cs_store :: KVStore
  cs_threads :: "nat \<Rightarrow> thread"
  cs_compact :: "(gotime \<times> nat \<times> Record list) option"

definition start :: "KVStore \<Rightarrow> Shared" where
  "start kv = \<lparr>cs_store = kv, cs_threads = (\<lambda>_. Idle), cs_compact = None\<rparr>"

datatype event =
    Invoke nat call
  | Log nat call
  | Linearize nat call reply
  | Respond nat call answer
  | Sweep gotime
  | Flush
  | Snapshot
  | Replace

fun log_call :: "write_outcome \<Rightarrow> IOError option \<Rightarrow> call \<Rightarrow> WAL \<Rightarrow> (IOError option \<times> WAL) option" where
  "log_call out sy (CSet key val e) w = AppendSet out sy key val e w"
| "log_call out sy (CDelete key) w = AppendDelete out sy key w"
| "log_call out sy (CGet key) w = None"

text \<open>The records the snapshot of a compaction takes from one shard.\<close>

definition shard_snapshot :: "bytes map_order \<Rightarrow> gotime \<Rightarrow> Shard \<Rightarrow> Record list" where
  "shard_snapshot ord now shard =
     map (\<lambda>(key, rec). set_record key (rc_value rec) (rc_expiredAt rec))
       (filter (\<lambda>(key, rec). \<not> now > rc_expiredAt rec) (in_order ord (sh_data shard)))"

abbreviation upd_wal :: "WAL \<Rightarrow> Shared \<Rightarrow> Shared" where
  "upd_wal w s \<equiv> s\<lparr>cs_store := (cs_store s)\<lparr>kv_wal := w\<rparr>\<rparr>"

abbreviation upd_thread :: "nat \<Rightarrow> thread \<Rightarrow> Shared \<Rightarrow> Shared" where
  "upd_thread t x s \<equiv> s\<lparr>cs_threads := (cs_threads s)(t := x)\<rparr>"

inductive istep :: "Shared \<Rightarrow> event \<Rightarrow> Shared \<Rightarrow> bool" where
  invoke: "cs_threads s t = Idle \<Longrightarrow> istep s (Invoke t c) (upd_thread t (Called c) s)"
| log: "cs_threads s t = Called c \<Longrightarrow> log_call out sy c (kv_wal (cs_store s)) = Some (None, w) \<Longrightarrow>
    istep s (Log t c) (upd_thread t (Logged c) (upd_wal w s))"
| log_failed: "cs_threads s t = Called c \<Longrightarrow> log_call out sy c (kv_wal (cs_store s)) = Some (Some e, w) \<Longrightarrow>
    istep s (Linearize t c (Acked (Inl (WALError e))))
      (upd_thread t (Finished c (Acked (Inl (WALError e)))) (upd_wal w s))"
| set_stored: "cs_threads s t = Logged (CSet key val e) \<Longrightarrow>
    SetWithExpiry_section env reads key val e (cs_store s) = Returns res kv \<Longrightarrow>
    istep s (Linearize t (CSet key val e) (Acked res))
      (upd_thread t (Finished (CSet key val e) (Acked res)) (s\<lparr>cs_store := kv\<rparr>))"
| delete_done: "cs_threads s t = Logged (CDelete key) \<Longrightarrow> Delete_section key (cs_store s) = Returns res kv \<Longrightarrow>
    istep s (Linearize t (CDelete key) (Acked res)) (upd_thread t (Finished (CDelete key) (Acked res)) (s\<lparr>cs_store := kv\<rparr>))"
| get_read: "cs_threads s t = Called (CGet key) \<Longrightarrow> Get_section key (cs_store s) = Some (r, kv) \<Longrightarrow>
    istep s (Linearize t (CGet key) (Found r)) (upd_thread t (Finished (CGet key) (Found r)) (s\<lparr>cs_store := kv\<rparr>))"
| get_end: "cs_threads s t = Finished (CGet key) (Found r) \<Longrightarrow> Get_end now key r (cs_store s) = Some (res, kv) \<Longrightarrow>
    istep s (Respond t (CGet key) (Value now res)) (upd_thread t Idle (s\<lparr>cs_store := kv\<rparr>))"
| write_end: "cs_threads s t = Finished c (Acked res) \<Longrightarrow>
    istep s (Respond t c (Written res)) (upd_thread t Idle s)"
| sweep: "i < length (kv_shards (cs_store s)) \<Longrightarrow>
    istep s (Sweep now)
      (s\<lparr>cs_store := set_shard i (sweep_shard ord now (kv_shards (cs_store s) ! i)) (cs_store s)\<rparr>)"
| flusher_receives: "flusher_recv outs sy (kv_wal (cs_store s)) = Some w \<Longrightarrow> istep s Flush (upd_wal w s)"
| flusher_ticks: "flusher_tick outs sy (kv_wal (cs_store s)) = Some w \<Longrightarrow> istep s Flush (upd_wal w s)"
| compact_begins: "cs_compact s = None \<Longrightarrow> istep s Snapshot (s\<lparr>cs_compact := Some (now, 0, [])\<rparr>)"
| compact_copies: "cs_compact s = Some (now, i, rs) \<Longrightarrow> i < length (kv_shards (cs_store s)) \<Longrightarrow>
    istep s Snapshot (s\<lparr>cs_compact := Some (now, Suc i, rs @ shard_snapshot ord now (kv_shards (cs_store s) ! i))\<rparr>)"
| compact_ends: "cs_compact s = Some (now, i, rs) \<Longrightarrow> i = length (kv_shards (cs_store s)) \<or> first_error errs \<noteq> None \<Longrightarrow>
    Compact errs renameErr openErr rs (kv_wal (cs_store s)) = (err, w) \<Longrightarrow>
    istep s Replace ((upd_wal w s)\<lparr>cs_compact := None\<rparr>)"

section \<open>The atomic map\<close>

type_synonym entries = "bytes \<Rightarrow> StoreRecord option"

fun is_write :: "call \<Rightarrow> bool" where
  "is_write (CGet _) = False"
| "is_write _ = True"

text \<open>The effect of a call on the map. \<open>lim\<close> says that there is a memory cap: a write may then be refused, and
  one that is not may drop other entries.\<close>

inductive atomic :: "bool \<Rightarrow> entries \<Rightarrow> call \<Rightarrow> reply \<Rightarrow> entries \<Rightarrow> bool" for lim m where
  stored: "m' key = Some rec \<Longrightarrow> rc_value rec = val \<Longrightarrow> rc_expiredAt rec = e \<Longrightarrow>
    (\<And>k. k \<noteq> key \<Longrightarrow> m' k = m k \<or> lim \<and> m' k = None) \<Longrightarrow> atomic lim m (CSet key val e) (Acked (Inr ())) m'"
| refused: "lim \<Longrightarrow> atomic lim m (CSet key val e) (Acked (Inl ErrMemoryFull)) m"
| unlogged: "is_write c \<Longrightarrow> atomic lim m c (Acked (Inl (WALError x))) m"
| found: "atomic lim m (CGet key) (Found (m key)) m"
| deleted: "m key \<noteq> None \<Longrightarrow> atomic lim m (CDelete key) (Acked (Inr ())) (m(key := None))"
| missing: "m key = None \<Longrightarrow> atomic lim m (CDelete key) (Acked (Inl ErrKeyNotFound)) m"

datatype status = Ready | Pending call | Done call reply

fun answers :: "reply \<Rightarrow> answer \<Rightarrow> bool" where
  "answers (Acked res) a \<longleftrightarrow> a = Written res"
| "answers (Found r) a \<longleftrightarrow> (\<exists>now. a = Value now (read_result now r))"

fun internal :: "event \<Rightarrow> bool" where
  "internal (Log _ _) = True"
| "internal Flush = True"
| "internal Snapshot = True"
| "internal Replace = True"
| "internal _ = False"

text \<open>Clients of the map: a call is invoked, takes effect at one moment, and is answered. A sweep may drop what
  has expired.\<close>

inductive sstep :: "bool \<Rightarrow> entries \<times> (nat \<Rightarrow> status) \<Rightarrow> event \<Rightarrow> entries \<times> (nat \<Rightarrow> status) \<Rightarrow> bool" for lim where
  s_invoke: "th t = Ready \<Longrightarrow> sstep lim (m, th) (Invoke t c) (m, th(t := Pending c))"
| s_linearize: "th t = Pending c \<Longrightarrow> atomic lim m c r m' \<Longrightarrow> sstep lim (m, th) (Linearize t c r) (m', th(t := Done c r))"
| s_respond: "th t = Done c r \<Longrightarrow> answers r a \<Longrightarrow> sstep lim (m, th) (Respond t c a) (m, th(t := Ready))"
| s_sweep: "(\<And>k. m' k = m k \<or> m' k = None \<and> (\<exists>rec. m k = Some rec \<and> rc_expiredAt rec < now)) \<Longrightarrow>
    sstep lim (m, th) (Sweep now) (m', th)"
| s_internal: "internal ev \<Longrightarrow> sstep lim x ev x"

fun status_of :: "thread \<Rightarrow> status" where
  "status_of Idle = Ready"
| "status_of (Called c) = Pending c"
| "status_of (Logged c) = Pending c"
| "status_of (Finished c r) = Done c r"

definition abs_state :: "Shared \<Rightarrow> entries \<times> (nat \<Rightarrow> status)" where
  "abs_state s = (contents (cs_store s), status_of \<circ> cs_threads s)"

section \<open>Lemmas on the sections\<close>

lemma fold_AfterRead_tracks: "tracks p K \<Longrightarrow> tracks (fold (\<lambda>k p. AfterRead p k) ks p) K"
  by (induction ks arbitrary: p) (simp_all add: policy.after_read_tracks)

interpretation policy_reads:
  eviction_policy "BeforeWrite ord" "after_reads_write reads" AfterRead AfterDelete tracks for ord reads
proof unfold_locales
  show "tracks p K \<Longrightarrow> key \<notin> K \<Longrightarrow> tracks (after_reads_write reads p key) (insert key K)" for p K key
    by (simp add: after_reads_write_def fold_AfterRead_tracks policy.after_write_tracks)
qed (fact policy.before_write_returns policy.before_write_accept policy.before_write_unlimited
    policy.before_write_reject policy.after_read_tracks policy.after_delete_tracks)+

text \<open>The section of a write always ends: the policy refuses, or the entry is stored.\<close>

lemma Set_section_spec:
  assumes "kv_inv kv"
  obtains (refused) kv' where "SetWithExpiry_section env reads key val e kv = Returns (Inl ErrMemoryFull) kv'"
      "kv_inv kv'" "kv_wal kv' = kv_wal kv" "\<not> unlimited kv" "contents kv' = contents kv"
  | (stored) kv' where "SetWithExpiry_section env reads key val e kv = Returns (Inr ()) kv'"
      "kv_inv kv'" "kv_wal kv' = kv_wal kv" "unlimited kv \<Longrightarrow> unlimited kv'"
      "contents kv' key = Some \<lparr>rc_value = val, rc_createdAt = env_now env, rc_expiredAt = e\<rparr>"
      "\<And>k. k \<noteq> key \<Longrightarrow> contents kv' k = contents kv k \<or> \<not> unlimited kv \<and> contents kv' k = None"
proof -
  let ?rec = "\<lparr>rc_value = val, rc_createdAt = env_now env, rc_expiredAt = e\<rparr>"
  obtain i where i: "getShard kv key = Some i" "i < length (kv_shards kv)" using assms by (rule getShard_total)
  let ?s = "kv_shards kv ! i"
  have s: "shard_ok ?s" "tracks (sh_policy ?s) (keys ?s)" using kv_inv_shard [OF assms i(2)] by simp_all
  obtain ok p' s' where
    w: "shard_write (BeforeWrite (env_order env)) (after_reads_write reads) (sh_policy ?s) ?s key ?rec = Some (ok, p', s')"
    using policy_reads.shard_write_returns [OF s, of "env_order env" reads key ?rec] by blast
  let ?kv = "set_shard i (s'\<lparr>sh_policy := p'\<rparr>) kv"
  have r: "SetWithExpiry_section env reads key val e kv = Returns (if ok then Inr () else Inl ErrMemoryFull) ?kv"
    by (simp add: SetWithExpiry_section_def i(1) w)
  have b: "sh_budget ?s = 0" if "unlimited kv" using that i(2) by (simp add: unlimited_def)
  have c: "contents ?kv k = (if getShard kv k = Some i then gomap_get (sh_data s') k else contents kv k)" for k
    using i(2) by (simp add: contents_set_shard)
  show ?thesis
  proof (cases ok)
    case [simp]: True
    note a = policy_reads.shard_write_accepted [OF s w [simplified]]
    have "kv_inv ?kv" by (rule shard_inv_in_place [OF assms i(1)]) (use a in \<open>auto intro: shard_inv_policy\<close>)
    moreover have "unlimited ?kv" if "unlimited kv" using that a b by (simp add: unlimited_set_shard)
    moreover have "contents ?kv k = contents kv k \<or> \<not> unlimited kv \<and> contents ?kv k = None" if "k \<noteq> key" for k
    proof (cases "unlimited kv")
      case True
      with policy_reads.shard_write_unlimited [OF b, of "env_order env" reads "sh_policy ?s" key ?rec] w that
      show ?thesis by (auto simp: c contents_at)
    next
      case False
      with a that show ?thesis by (auto simp: c contents_at)
    qed
    moreover have "contents ?kv key = Some ?rec" using a i(1) by (simp add: c)
    ultimately show ?thesis using r by (intro stored [of ?kv]) simp_all
  next
    case [simp]: False
    note a = policy_reads.shard_write_rejected [OF s(1) w [simplified]]
    have "kv_inv ?kv" by (rule shard_inv_in_place [OF assms i(1)]) (use a s in \<open>auto intro: shard_inv_policy\<close>)
    moreover have "\<not> unlimited kv"
      using policy_reads.shard_write_unlimited [OF b, of "env_order env" reads "sh_policy ?s" key ?rec] w by auto
    moreover have "contents ?kv k = contents kv k" for k unfolding c using a by (simp add: contents_at)
    then have "contents ?kv = contents kv" by blast
    ultimately show ?thesis using r by (intro refused [of ?kv]) simp_all
  qed
qed

lemma Delete_section_spec:
  assumes "kv_inv kv"
  obtains kv' where "Delete_section key kv = Returns (if contents kv key = None then Inl ErrKeyNotFound else Inr ()) kv'"
    "kv_inv kv'" "kv_wal kv' = kv_wal kv" "unlimited kv \<longrightarrow> unlimited kv'" "contents kv' = (contents kv)(key := None)"
proof -
  obtain i where i: "getShard kv key = Some i" "i < length (kv_shards kv)" using assms by (rule getShard_total)
  show ?thesis
  proof (cases "contents kv key")
    case None
    with i assms show ?thesis by (intro that [of kv]) (auto simp: Delete_section_def contents_at Let_def)
  next
    case (Some rec)
    let ?kv = "set_shard i (shard_delete key rec (kv_shards kv ! i)) kv"
    have "kv_inv ?kv"
      by (rule shard_inv_in_place [OF assms i(1)])
        (use assms i Some in \<open>auto intro!: shard_delete_inv simp: kv_inv_def contents_at\<close>)
    moreover have "unlimited kv \<Longrightarrow> unlimited ?kv"
      using i(2) by (simp add: unlimited_set_shard unlimited_def [of kv])
    moreover have "contents ?kv = (contents kv)(key := None)"
      using i by (auto simp: contents_set_shard contents_at fun_eq_iff)
    ultimately show ?thesis
      using Some i by (intro that [of ?kv]) (auto simp: Delete_section_def contents_at Let_def)
  qed
qed

text \<open>Changing the policy of a shard changes nothing that can be read.\<close>

lemma set_policy_spec:
  assumes "kv_inv kv" and "getShard kv key = Some i" and "tracks p (keys (kv_shards kv ! i))"
    and kv'_def: "kv' = set_shard i ((kv_shards kv ! i)\<lparr>sh_policy := p\<rparr>) kv"
  shows "kv_inv kv' \<and> kv_wal kv' = kv_wal kv \<and> (unlimited kv \<longrightarrow> unlimited kv') \<and> contents kv' = contents kv"
proof -
  note i = getShard_less [OF assms(2)]
  have "kv_inv kv'"
    unfolding kv'_def by (rule shard_inv_in_place [OF assms(1,2)])
      (use kv_inv_shard [OF assms(1) i] assms(3) in \<open>auto intro: shard_inv_policy\<close>)
  moreover have "contents kv' = contents kv"
    using i by (auto simp: kv'_def contents_set_shard contents_at fun_eq_iff)
  moreover have "unlimited kv \<Longrightarrow> unlimited kv'"
    using i by (simp add: kv'_def unlimited_set_shard unlimited_def [of kv])
  ultimately show ?thesis by (simp add: kv'_def)
qed

lemma Get_section_spec:
  assumes "kv_inv kv"
  obtains kv' where "Get_section key kv = Some (contents kv key, kv')" "kv_inv kv'" "kv_wal kv' = kv_wal kv"
    "unlimited kv \<longrightarrow> unlimited kv'" "contents kv' = contents kv"
proof -
  obtain i where i: "getShard kv key = Some i" "i < length (kv_shards kv)" using assms by (rule getShard_total)
  let ?p = "BeforeRead (sh_policy (kv_shards kv ! i)) key"
  have "tracks ?p (keys (kv_shards kv ! i))" using kv_inv_shard [OF assms i(2)] by (simp add: BeforeRead_def)
  from set_policy_spec [OF assms i(1) this refl] i(1) show ?thesis
    by (intro that [of "set_shard i ((kv_shards kv ! i)\<lparr>sh_policy := ?p\<rparr>) kv"])
      (auto simp: Get_section_def contents_at Let_def)
qed

lemma Get_end_spec:
  assumes "kv_inv kv"
  obtains kv' where "Get_end now key r kv = Some (read_result now r, kv')" "kv_inv kv'" "kv_wal kv' = kv_wal kv"
    "unlimited kv \<longrightarrow> unlimited kv'" "contents kv' = contents kv"
proof (cases "\<exists>rec. r = Some rec \<and> now \<le> rc_expiredAt rec")
  case True
  then obtain rec where r: "r = Some rec" "now \<le> rc_expiredAt rec" by blast
  obtain i where i: "getShard kv key = Some i" "i < length (kv_shards kv)" using assms by (rule getShard_total)
  let ?p = "AfterRead (sh_policy (kv_shards kv ! i)) key"
  have "tracks ?p (keys (kv_shards kv ! i))" using kv_inv_shard [OF assms i(2)] by (simp add: policy.after_read_tracks)
  from set_policy_spec [OF assms i(1) this refl] i(1) r show ?thesis
    by (intro that [of "set_shard i ((kv_shards kv ! i)\<lparr>sh_policy := ?p\<rparr>) kv"])
      (auto simp: Get_end_def read_result_def Let_def)
next
  case False
  with assms show ?thesis
    by (intro that [of kv], elim getShard_total [of kv key])
      (auto simp: Get_end_def read_result_def Let_def split: option.splits)
qed

section \<open>Refinement\<close>

text \<open>Only writes are logged, and only reads find entries.\<close>

fun thread_ok :: "thread \<Rightarrow> bool" where
  "thread_ok (Logged c) = is_write c"
| "thread_ok (Finished c (Found r)) = (\<not> is_write c)"
| "thread_ok _ = True"

definition shared_inv :: "bool \<Rightarrow> Shared \<Rightarrow> bool" where
  "shared_inv lim s \<longleftrightarrow> kv_inv (cs_store s) \<and> (lim \<or> unlimited (cs_store s)) \<and> (\<forall>t. thread_ok (cs_threads s t))"

lemma log_call_write: "log_call out sy c w = Some x \<Longrightarrow> is_write c"
  by (cases c) simp_all

lemma shared_step:
  assumes "shared_inv lim s" and "istep s ev s'"
  shows "shared_inv lim s' \<and> sstep lim (abs_state s) ev (abs_state s')"
proof -
  have k: "kv_inv (cs_store s)" "\<not> lim \<Longrightarrow> unlimited (cs_store s)" using assms(1) by (auto simp: shared_inv_def)
  from assms(2) show ?thesis
  proof cases
    case (invoke t c)
    with assms(1) show ?thesis
      by (auto simp: shared_inv_def abs_state_def fun_upd_comp intro!: s_invoke)
  next
    case (log t c out sy w)
    then have "abs_state s' = abs_state s" by (auto simp: abs_state_def fun_eq_iff)
    with log assms(1) show ?thesis by (auto simp: shared_inv_def intro!: s_internal dest: log_call_write)
  next
    case (log_failed t c out sy e w)
    with assms(1) show ?thesis
      by (auto simp: shared_inv_def abs_state_def fun_upd_comp intro!: s_linearize unlogged dest: log_call_write)
  next
    case (set_stored t key val e env reads res kv)
    from k(1) show ?thesis
    proof (cases rule: Set_section_spec [of _ env reads key val e])
      case (refused kv')
      with set_stored k(2) assms(1) show ?thesis
        by (auto simp: shared_inv_def abs_state_def fun_upd_comp intro!: s_linearize atomic.refused)
    next
      case (stored kv')
      have "atomic lim (contents (cs_store s)) (CSet key val e) (Acked (Inr ())) (contents kv')"
        by (rule atomic.stored [where rec = "\<lparr>rc_value = val, rc_createdAt = env_now env, rc_expiredAt = e\<rparr>"])
          (use stored k(2) in auto)
      with set_stored stored k(2) assms(1) show ?thesis
        by (auto simp: shared_inv_def abs_state_def fun_upd_comp intro!: s_linearize)
    qed
  next
    case (delete_done t key res kv)
    obtain kv' where "Delete_section key (cs_store s) = Returns (if contents (cs_store s) key = None then Inl ErrKeyNotFound else Inr ()) kv'"
      "kv_inv kv'" "kv_wal kv' = kv_wal (cs_store s)" "unlimited (cs_store s) \<longrightarrow> unlimited kv'" "contents kv' = (contents (cs_store s))(key := None)"
      using k(1) by (rule Delete_section_spec [of _ key])
    moreover have "contents (cs_store s) key = None \<Longrightarrow> (contents (cs_store s))(key := None) = contents (cs_store s)"
      by auto
    ultimately show ?thesis
      using delete_done k(2) assms(1)
      by (auto simp: shared_inv_def abs_state_def fun_upd_comp intro!: s_linearize atomic.deleted atomic.missing split: if_splits)
  next
    case (get_read t key r kv)
    obtain kv' where "Get_section key (cs_store s) = Some (contents (cs_store s) key, kv')"
      "kv_inv kv'" "kv_wal kv' = kv_wal (cs_store s)" "unlimited (cs_store s) \<longrightarrow> unlimited kv'" "contents kv' = contents (cs_store s)"
      using k(1) by (rule Get_section_spec [of _ key])
    with get_read k(2) assms(1) show ?thesis
      by (auto simp: shared_inv_def abs_state_def fun_upd_comp intro!: s_linearize atomic.found)
  next
    case (get_end t key r now res kv)
    obtain kv' where "Get_end now key r (cs_store s) = Some (read_result now r, kv')"
      "kv_inv kv'" "kv_wal kv' = kv_wal (cs_store s)" "unlimited (cs_store s) \<longrightarrow> unlimited kv'" "contents kv' = contents (cs_store s)"
      using k(1) by (rule Get_end_spec [of _ now key r])
    with get_end k(2) assms(1) show ?thesis
      by (auto simp: shared_inv_def abs_state_def fun_upd_comp intro!: s_respond [where r = "Found r"])
  next
    case (write_end t c res)
    with assms(1) show ?thesis
      by (auto simp: shared_inv_def abs_state_def fun_upd_comp intro!: s_respond [where r = "Acked res"])
  next
    case (sweep i now ord)
    from sweep_one_spec [OF k(1) sweep(3) refl, of ord now] sweep k(2) assms(1) show ?thesis
      by (auto simp: shared_inv_def abs_state_def intro!: s_sweep)
  qed (use assms(1) in \<open>auto simp: shared_inv_def abs_state_def intro!: s_internal\<close>)
qed

interpretation shared_store: simulation istep "sstep lim" "shared_inv lim" abs_state for lim
  by unfold_locales (auto dest: shared_step)

section \<open>Lemmas on runs\<close>

lemma shared_inv_start: "kv_inv kv \<Longrightarrow> shared_inv (\<not> unlimited kv) (start kv)"
  by (simp add: shared_inv_def start_def)

fun call_key :: "call \<Rightarrow> bytes" where
  "call_key (CSet key _ _) = key"
| "call_key (CGet key) = key"
| "call_key (CDelete key) = key"

text \<open>Events that leave an entry with expiry \<open>e\<close> of \<open>key\<close> alone.\<close>

fun spares :: "bytes \<Rightarrow> gotime \<Rightarrow> event \<Rightarrow> bool" where
  "spares key e (Linearize t c r) \<longleftrightarrow> \<not> (is_write c \<and> call_key c = key)"
| "spares key e (Sweep now) \<longleftrightarrow> now \<le> e"
| "spares key e _ \<longleftrightarrow> True"

lemma atomic_spares:
  "atomic False m c r m' \<Longrightarrow> \<not> (is_write c \<and> call_key c = key) \<Longrightarrow> m' key = m key"
  by (induction rule: atomic.induct) auto

lemma spares_trace:
  "trace (sstep False) x es x' \<Longrightarrow> list_all (spares key e) es \<Longrightarrow> fst x key = Some rec \<Longrightarrow> rc_expiredAt rec = e \<Longrightarrow>
   fst x' key = Some rec"
proof (induction rule: trace.induct)
  case (next_step x ev y es z)
  have "fst y key = Some rec"
    using next_step.hyps(1) next_step.prems
  proof (cases rule: sstep.cases)
    case (s_linearize th t c m r m')
    with next_step.prems atomic_spares [OF s_linearize(5), of key] show ?thesis by simp
  next
    case (s_sweep m' m now th)
    with next_step.prems s_sweep(4) [of key] show ?thesis by auto
  qed simp_all
  with next_step show ?case by simp
qed simp

text \<open>In the mode \<open>interval\<close> the flusher runs, and the channel holds no more than its capacity.\<close>

definition log_drains :: "KVStore \<Rightarrow> bool" where
  "log_drains kv \<longleftrightarrow> (w_Mode (kv_wal kv) = SyncInterval \<longrightarrow> w_flusher (kv_wal kv) \<and>
     0 < w_MaxBatchSize (kv_wal kv) \<and> int (length (w_writeCh (kv_wal kv))) \<le> w_MaxBatchSize (kv_wal kv) * 2)"

definition wal_kept :: "WAL \<Rightarrow> WAL \<Rightarrow> bool" where
  "wal_kept w w' \<longleftrightarrow> w_options w' = w_options w \<and> w_flusher w' = w_flusher w \<and>
     (length (w_writeCh w') \<le> length (w_writeCh w) \<or> int (length (w_writeCh w')) \<le> w_MaxBatchSize w * 2)"

lemma file_ops_flusher [simp]:
  "w_flusher (snd (file_write out b w)) = w_flusher w" "w_flusher (snd (file_sync sy w)) = w_flusher w"
  by (simp_all add: file_write_def file_sync_def split: option.splits)

lemma write_batch_flusher [simp]: "w_flusher (write_batch outs i bs w) = w_flusher w"
  by (induction bs arbitrary: i w) simp_all

lemma flush_flusher [simp]: "w_flusher (flush outs sy w) = w_flusher w"
  by (simp add: flush_def)

lemma flusher_kept:
  "flusher_recv outs sy w = Some w' \<Longrightarrow> wal_kept w w'"
  "flusher_tick outs sy w = Some w' \<Longrightarrow> wal_kept w w'"
  by (auto simp: flusher_recv_def flusher_tick_def Let_def wal_kept_def split: if_splits list.splits)

lemma append_kept: "append out sy r w = Some (err, w') \<Longrightarrow> wal_kept w w'"
  by (auto simp: append_def file_write_def file_sync_def Let_def wal_kept_def split: if_splits option.splits)

lemma log_call_kept: "log_call out sy c w = Some (err, w') \<Longrightarrow> wal_kept w w'"
  by (cases c) (auto simp: AppendSet_def AppendDelete_def intro: append_kept)

lemma Compact_kept: "Compact errs renameErr openErr rs w = (err, w') \<Longrightarrow> wal_kept w w'"
  by (auto simp: Compact_def writeSnapshot_def Let_def wal_kept_def split: option.splits)

lemma istep_wal_kept:
  assumes "shared_inv lim s" and "istep s ev s'"
  shows "wal_kept (kv_wal (cs_store s)) (kv_wal (cs_store s'))"
proof -
  have k: "kv_inv (cs_store s)" using assms(1) by (simp add: shared_inv_def)
  from assms(2) show ?thesis
  proof cases
    case (set_stored t key val e env reads res kv)
    from k show ?thesis
      by (cases rule: Set_section_spec [of _ env reads key val e]) (use set_stored in \<open>auto simp: wal_kept_def\<close>)
  next
    case (delete_done t key res kv)
    from k show ?thesis
      by (rule Delete_section_spec [of _ key]) (use delete_done in \<open>auto simp: wal_kept_def\<close>)
  next
    case (get_read t key r kv)
    from k show ?thesis
      by (rule Get_section_spec [of _ key]) (use get_read in \<open>auto simp: wal_kept_def\<close>)
  next
    case (get_end t key r now res kv)
    from k show ?thesis
      by (rule Get_end_spec [of _ now key r]) (use get_end in \<open>auto simp: wal_kept_def\<close>)
  qed (auto intro: log_call_kept flusher_kept Compact_kept simp: wal_kept_def [of "kv_wal (cs_store s)" "kv_wal (cs_store s)"])
qed

lemma trace_log_drains:
  "trace istep s es s' \<Longrightarrow> shared_inv lim s \<Longrightarrow> log_drains (cs_store s) \<Longrightarrow> log_drains (cs_store s')"
proof (induction rule: trace.induct)
  case (next_step s ev s' es s'')
  then have "log_drains (cs_store s')"
    using istep_wal_kept [OF next_step.prems(1) next_step.hyps(1)] by (auto simp: log_drains_def wal_kept_def)
  with next_step shared_store.inv_step show ?case by blast
qed simp

text \<open>An append that finds no room has room once the flusher has taken a record.\<close>

lemma append_waits:
  "append out sy r w = None \<Longrightarrow> w_Mode w = SyncInterval \<and> w_MaxBatchSize w * 2 \<le> int (length (w_writeCh w))"
  by (auto simp: append_def Let_def split: if_splits prod.splits option.splits)

lemma log_call_waits:
  assumes "is_write c" and "log_call out sy c w = None"
  shows "w_Mode w = SyncInterval \<and> w_MaxBatchSize w * 2 \<le> int (length (w_writeCh w))"
  using assms append_waits by (cases c) (auto simp: AppendSet_def AppendDelete_def)


lemma flusher_makes_room:
  assumes "log_drains kv" and "log_call WriteOk None c (kv_wal kv) = None" and "is_write c"
  obtains w e w' where "flusher_recv (\<lambda>_. WriteOk) None (kv_wal kv) = Some w" "log_call WriteOk None c w = Some (e, w')"
proof -
  let ?w = "kv_wal kv"
  have full: "w_Mode ?w = SyncInterval" "w_MaxBatchSize ?w * 2 \<le> int (length (w_writeCh ?w))"
    using log_call_waits [OF assms(3,2)] by simp_all
  with assms(1) obtain d q where q: "w_writeCh ?w = d # q" by (cases "w_writeCh ?w") (auto simp: log_drains_def)
  with full assms(1) obtain w where w: "flusher_recv (\<lambda>_. WriteOk) None ?w = Some w" "w_writeCh w = q"
    by (auto simp: flusher_recv_def log_drains_def Let_def)
  have "w_options w = w_options ?w" using flusher_kept(1) [OF w(1)] by (simp add: wal_kept_def)
  then have "\<not> w_MaxBatchSize w * 2 \<le> int (length (w_writeCh w))"
    using w(2) q full assms(1) by (auto simp: log_drains_def)
  then have "log_call WriteOk None c w \<noteq> None" using log_call_waits [OF assms(3), of WriteOk None w] by blast
  then obtain x where "log_call WriteOk None c w = Some x" by blast
  with w(1) show ?thesis by (cases x) (auto intro: that)
qed

text \<open>What a call that has been invoked can do next.\<close>

definition can_move :: "Shared \<Rightarrow> nat \<Rightarrow> bool" where
  "can_move s t \<longleftrightarrow> (\<exists>ev s'. istep s ev s' \<and> cs_threads s' t \<noteq> cs_threads s t)"

lemma can_moveI: "istep s ev s' \<Longrightarrow> cs_threads s' t \<noteq> cs_threads s t \<Longrightarrow> can_move s t"
  unfolding can_move_def by blast

lemma logged_can_move:
  assumes "cs_threads s t = Called c" and "log_call out sy c (kv_wal (cs_store s)) = Some (e, w)"
  shows "can_move s t"
proof (cases e)
  case None
  with assms istep.log [of s t c out sy w] show ?thesis by (auto intro: can_moveI)
next
  case (Some x)
  with assms istep.log_failed [of s t c out sy x w] show ?thesis by (auto intro: can_moveI)
qed

lemma call_can_move:
  assumes "shared_inv lim s" and "cs_threads s t \<noteq> Idle"
    and "\<And>c. cs_threads s t = Called c \<Longrightarrow> is_write c \<Longrightarrow> log_call WriteOk None c (kv_wal (cs_store s)) \<noteq> None"
  shows "can_move s t"
proof -
  have k: "kv_inv (cs_store s)" and ok: "thread_ok (cs_threads s t)" using assms(1) by (simp_all add: shared_inv_def)
  show ?thesis
  proof (cases "cs_threads s t")
    case (Called c)
    show ?thesis
    proof (cases "is_write c")
      case True
      with Called assms(3) show ?thesis by (auto intro: logged_can_move)
    next
      case False
      then obtain key where c: "c = CGet key" by (cases c) simp_all
      from k obtain r kv where "Get_section key (cs_store s) = Some (r, kv)" by (rule Get_section_spec)
      with Called c istep.get_read [of s t key r kv] show ?thesis by (auto intro: can_moveI)
    qed
  next
    case (Logged c)
    with ok consider key val e where "c = CSet key val e" | key where "c = CDelete key" by (cases c) simp_all
    then show ?thesis
    proof cases
      case 1
      obtain res kv where "SetWithExpiry_section example_env [] key val e (cs_store s) = Returns res kv"
        by (rule Set_section_spec [OF k, of example_env "[]" key val e]) auto
      with Logged 1 istep.set_stored [of s t key val e example_env "[]" res kv] show ?thesis by (auto intro: can_moveI)
    next
      case 2
      obtain res kv where "Delete_section key (cs_store s) = Returns res kv"
        by (rule Delete_section_spec [OF k, of key]) auto
      with Logged 2 istep.delete_done [of s t key res kv] show ?thesis by (auto intro: can_moveI)
    qed
  next
    case (Finished c r)
    show ?thesis
    proof (cases r)
      case (Acked res)
      with Finished istep.write_end [of s t c res] show ?thesis by (auto intro: can_moveI)
    next
      case (Found x)
      with Finished ok obtain key where c: "c = CGet key" by (cases c) simp_all
      obtain res kv where "Get_end 0 key x (cs_store s) = Some (res, kv)"
        by (rule Get_end_spec [OF k, of 0 key x]) auto
      with Finished Found c istep.get_end [of s t key x 0 res kv] show ?thesis by (auto intro: can_moveI)
    qed
  qed (use assms(2) in simp)
qed

section \<open>Concurrent calls and the log\<close>

text \<open>The write a thread is in the middle of, and the discipline that no two threads write the same key at the
  same time.\<close>

fun writing :: "thread \<Rightarrow> call option" where
  "writing (Called c) = (if is_write c then Some c else None)"
| "writing (Logged c) = Some c"
| "writing _ = None"

definition exclusive :: "Shared \<Rightarrow> bool" where
  "exclusive s \<longleftrightarrow> (\<forall>t u c d. writing (cs_threads s t) = Some c \<longrightarrow> writing (cs_threads s u) = Some d \<longrightarrow>
     call_key c = call_key d \<longrightarrow> t = u)"

definition estep :: "Shared \<Rightarrow> event \<Rightarrow> Shared \<Rightarrow> bool" where
  "estep s ev s' \<longleftrightarrow> istep s ev s' \<and> exclusive s'"

text \<open>What a write makes of its key, the record it appends, and whether the log can hold that.\<close>

fun effect :: "call \<Rightarrow> (bytes \<times> gotime) option" where
  "effect (CSet _ val e) = Some (val, e)"
| "effect _ = None"

fun call_record :: "call \<Rightarrow> Record" where
  "call_record (CSet key val e) = set_record key val e"
| "call_record c = delete_record (call_key c)"

fun fits :: "call \<Rightarrow> bool" where
  "fits (CSet key val e) \<longleftrightarrow> length key < 65536 \<and> length val < 4294967296 \<and> nano_range e"
| "fits (CDelete key) \<longleftrightarrow> length key < 65536"
| "fits (CGet _) \<longleftrightarrow> True"

text \<open>Events up to a time, in a run without errors of the log and without the end of a compaction.\<close>

fun calm :: "gotime \<Rightarrow> event \<Rightarrow> bool" where
  "calm T (Invoke t c) \<longleftrightarrow> fits c"
| "calm T (Linearize t c (Acked (Inl (WALError e)))) \<longleftrightarrow> False"
| "calm T (Sweep now) \<longleftrightarrow> now \<le> T"
| "calm T Replace \<longleftrightarrow> False"
| "calm T _ \<longleftrightarrow> True"

text \<open>No thread is between its append and its section on this key.\<close>

definition settled :: "Shared \<Rightarrow> bytes \<Rightarrow> bool" where
  "settled s key \<longleftrightarrow> (\<forall>t c. cs_threads s t = Logged c \<longrightarrow> call_key c \<noteq> key)"

text \<open>The log is ahead of the store by the writes that are logged and not yet applied.\<close>

definition log_ahead :: "gotime \<Rightarrow> Shared \<Rightarrow> Record list \<Rightarrow> bool" where
  "log_ahead T s rs \<longleftrightarrow>
     (\<forall>t c. cs_threads s t = Logged c \<longrightarrow> log_view rs (call_key c) = effect c) \<and>
     (\<forall>key. settled s key \<longrightarrow> (\<forall>t' \<ge> T. live t' (store_view (cs_store s)) key = live t' (log_view rs) key))"

definition wal_healthy :: "WAL \<Rightarrow> bool" where
  "wal_healthy w \<longleftrightarrow> w_Mode w = SyncAlways \<and> \<not> w_closed w \<and> \<not> w_detached w \<and> \<not> w_flusher w \<and> w_synced w = length (w_disk w)"

definition conc_inv :: "gotime \<Rightarrow> Shared \<Rightarrow> bool" where
  "conc_inv T s \<longleftrightarrow> shared_inv False s \<and> exclusive s \<and> wal_healthy (kv_wal (cs_store s)) \<and>
     (\<forall>t c. writing (cs_threads s t) = Some c \<longrightarrow> fits c) \<and>
     (\<exists>rs. w_disk (kv_wal (cs_store s)) = log_bytes rs \<and> list_all rec_ok rs \<and> log_ahead T s rs)"

lemma live_at: "m key = m' key \<Longrightarrow> live t m key = live t m' key"
  by (simp add: live_def)

lemma append_healthy:
  assumes "wal_healthy w" and "append out sy r w = Some (None, w')"
  shows "wal_healthy w' \<and> w_disk w' = w_disk w @ encode r"
  using assms
  by (cases out) (auto simp: append_def file_write_def file_sync_def wal_healthy_def SyncAlways_def SyncInterval_def Let_def
      split: if_splits option.splits)

lemma log_call_append: "is_write c \<Longrightarrow> log_call out sy c w = append out sy (call_record c) w"
  by (cases c) (simp_all add: AppendSet_def AppendDelete_def)

lemma call_record_ok: "is_write c \<Longrightarrow> fits c \<Longrightarrow> rec_ok (call_record c)"
  by (cases c) (simp_all add: rec_ok_def Record_valid_def delete_record_def WAL_OpSet_def WAL_OpDelete_def)

lemma log_apply_call: "is_write c \<Longrightarrow> log_apply (call_record c) m = m(call_key c := effect c)"
  by (cases c) (auto simp: log_apply_def delete_record_def WAL_OpSet_def WAL_OpDelete_def)

lemma log_ahead_append:
  assumes "log_ahead T s rs" and "cs_threads s t = Called c" and "is_write c"
    and s'_def: "s' = upd_thread t (Logged c) (upd_wal w s)" and "exclusive s'"
  shows "log_ahead T s' (rs @ [call_record c])"
proof -
  have v: "log_view (rs @ [call_record c]) = (log_view rs)(call_key c := effect c)"
    by (simp add: log_apply_call assms(3))
  have "log_view (rs @ [call_record c]) (call_key d) = effect d" if d: "cs_threads s' u = Logged d" for u d
  proof (cases "u = t")
    case True
    with d v show ?thesis by (simp add: s'_def)
  next
    case False
    then have "writing (cs_threads s' u) = Some d" "writing (cs_threads s' t) = Some c" using d by (simp_all add: s'_def)
    with assms(5) False have "call_key d \<noteq> call_key c" unfolding exclusive_def by blast
    with False d assms(1) v show ?thesis by (simp add: s'_def log_ahead_def)
  qed
  moreover have "live t' (store_view (cs_store s')) key = live t' (log_view (rs @ [call_record c])) key"
    if "settled s' key" "T \<le> t'" for key t'
  proof -
    have "cs_threads s' t = Logged c" by (simp add: s'_def)
    with that(1) have "key \<noteq> call_key c" unfolding settled_def by blast
    moreover have "settled s key" unfolding settled_def
    proof (intro allI impI)
      fix u d assume d: "cs_threads s u = Logged d"
      with assms(2) have "cs_threads s' u = Logged d" by (auto simp: s'_def)
      with that(1) show "call_key d \<noteq> key" unfolding settled_def by blast
    qed
    ultimately show ?thesis
      using assms(1) that(2) live_at [of "log_view (rs @ [call_record c])" key "log_view rs"] v
      by (simp add: log_ahead_def s'_def store_view_def [abs_def])
  qed
  ultimately show ?thesis by (simp add: log_ahead_def)
qed

lemma log_ahead_apply:
  assumes "log_ahead T s rs" and "cs_threads s t = Logged c"
    and s'_def: "s' = upd_thread t (Finished c r) (s\<lparr>cs_store := kv\<rparr>)"
    and "store_view kv = (store_view (cs_store s))(call_key c := effect c)"
  shows "log_ahead T s' rs"
proof -
  have "live t' (store_view kv) key = live t' (log_view rs) key" if "settled s' key" "T \<le> t'" for key t'
  proof (cases "key = call_key c")
    case True
    with assms(1,2,4) show ?thesis by (intro live_at) (simp add: log_ahead_def)
  next
    case False
    have "settled s key" unfolding settled_def
    proof (intro allI impI)
      fix u d assume d: "cs_threads s u = Logged d"
      show "call_key d \<noteq> key"
      proof (cases "u = t")
        case False
        with d have "cs_threads s' u = Logged d" by (simp add: s'_def)
        with that(1) show ?thesis unfolding settled_def by blast
      qed (use d assms(2) \<open>key \<noteq> call_key c\<close> in simp)
    qed
    with False assms(1,4) that(2) live_at [of "store_view kv" key "store_view (cs_store s)"] show ?thesis
      by (simp add: log_ahead_def)
  qed
  moreover have "log_view rs (call_key d) = effect d" if "cs_threads s' u = Logged d" for u d
    using assms(1) that by (simp add: log_ahead_def s'_def split: if_splits)
  ultimately show ?thesis by (simp add: log_ahead_def s'_def)
qed

lemma log_ahead_same:
  assumes "log_ahead T s rs" and "\<And>t c. cs_threads s' t = Logged c \<longleftrightarrow> cs_threads s t = Logged c"
    and "\<And>t' key. T \<le> t' \<Longrightarrow> live t' (store_view (cs_store s')) key = live t' (store_view (cs_store s)) key"
  shows "log_ahead T s' rs"
  using assms unfolding log_ahead_def settled_def by simp

lemma conc_inv_same_log:
  assumes "conc_inv T s" and "shared_inv False s'" and "exclusive s'" and "kv_wal (cs_store s') = kv_wal (cs_store s)"
    and "\<And>u c. writing (cs_threads s' u) = Some c \<Longrightarrow> writing (cs_threads s u) = Some c \<or> fits c"
    and "\<And>rs. log_ahead T s rs \<Longrightarrow> log_ahead T s' rs"
  shows "conc_inv T s'"
proof -
  have "fits c" if "writing (cs_threads s' u) = Some c" for u c
    using assms(1) assms(5) [OF that] by (auto simp: conc_inv_def)
  with assms show ?thesis unfolding conc_inv_def by fastforce
qed

lemma conc_inv_append:
  assumes "conc_inv T s" and "cs_threads s t = Called c" and "log_call out sy c (kv_wal (cs_store s)) = Some (None, w)"
    and s'_def: "s' = upd_thread t (Logged c) (upd_wal w s)" and "shared_inv False s'" and "exclusive s'"
  shows "conc_inv T s'"
proof -
  note c = log_call_write [OF assms(3)]
  have ok: "writing (cs_threads s u) = Some d \<Longrightarrow> fits d" for u d using assms(1) by (simp add: conc_inv_def)
  have fits: "fits c" using ok [of t c] assms(2) c by simp
  have a: "wal_healthy w" "w_disk w = w_disk (kv_wal (cs_store s)) @ encode (call_record c)"
    using append_healthy [of "kv_wal (cs_store s)" out sy "call_record c" w] assms(1,3) log_call_append [OF c]
    by (simp_all add: conc_inv_def)
  obtain rs where rs: "w_disk (kv_wal (cs_store s)) = log_bytes rs" "list_all rec_ok rs" "log_ahead T s rs"
    using assms(1) by (auto simp: conc_inv_def)
  have "w_disk w = log_bytes (rs @ [call_record c])" using a(2) rs(1) by (simp add: log_bytes_def)
  moreover have "list_all rec_ok (rs @ [call_record c])" using rs(2) call_record_ok [OF c fits] by simp
  moreover have "log_ahead T s' (rs @ [call_record c])"
    by (rule log_ahead_append [OF rs(3) assms(2) c s'_def assms(6)])
  moreover have "fits d" if "writing (cs_threads s' u) = Some d" for u d
    using that ok [of u d] fits by (auto simp: s'_def split: if_splits)
  moreover have "kv_wal (cs_store s') = w" by (simp add: s'_def)
  ultimately show ?thesis
    using assms(5,6) a(1) unfolding conc_inv_def by (intro conjI exI [of _ "rs @ [call_record c]"]) auto
qed

lemma store_view_contents: "contents kv = contents kv' \<Longrightarrow> store_view kv = store_view kv'"
  by (simp add: store_view_def [abs_def])

text \<open>Steps that touch neither the entries nor the log.\<close>

fun neutral :: "event \<Rightarrow> bool" where
  "neutral (Invoke _ _) = True"
| "neutral (Linearize _ c _) = (\<not> is_write c)"
| "neutral (Respond _ _ _) = True"
| "neutral Snapshot = True"
| "neutral _ = False"

lemma neutral_step:
  assumes "kv_inv (cs_store s)" and "istep s ev s'" and "neutral ev"
  shows "contents (cs_store s') = contents (cs_store s) \<and> kv_wal (cs_store s') = kv_wal (cs_store s) \<and>
    (\<forall>u c. cs_threads s' u = Logged c \<longleftrightarrow> cs_threads s u = Logged c) \<and>
    (\<forall>u c. writing (cs_threads s' u) = Some c \<longrightarrow> writing (cs_threads s u) = Some c \<or> (\<exists>t. ev = Invoke t c))"
  using assms(2)
proof cases
  case (get_read t key r kv)
  from assms(1) show ?thesis by (rule Get_section_spec [of _ key]) (use get_read in auto)
next
  case (get_end t key r now res kv)
  from assms(1) show ?thesis by (rule Get_end_spec [of _ now key r]) (use get_end in auto)
qed (use assms(3) in \<open>auto dest: log_call_write split: if_splits\<close>)

lemma conc_inv_neutral:
  assumes "conc_inv T s" and "istep s ev s'" and "exclusive s'" and "neutral ev" and "calm T ev"
  shows "conc_inv T s'"
proof -
  have sh: "shared_inv False s" using assms(1) by (simp add: conc_inv_def)
  then have "kv_inv (cs_store s)" by (simp add: shared_inv_def)
  note n = neutral_step [OF this assms(2,4)]
  show ?thesis
  proof (rule conc_inv_same_log [OF assms(1) shared_store.inv_step [OF sh assms(2)] assms(3)])
    show "log_ahead T s' rs" if "log_ahead T s rs" for rs
      by (rule log_ahead_same [OF that]) (use n store_view_contents [of "cs_store s'" "cs_store s"] in auto)
    show "writing (cs_threads s u) = Some c \<or> fits c" if "writing (cs_threads s' u) = Some c" for u c
    proof -
      have "writing (cs_threads s u) = Some c \<or> (\<exists>t. ev = Invoke t c)" using n that by blast
      with assms(5) show ?thesis by auto
    qed
  qed (use n in simp)
qed

text \<open>A write that was logged takes effect.\<close>

lemma conc_inv_apply:
  assumes "conc_inv T s" and "cs_threads s t = Logged c" and "istep s ev s'" and "exclusive s'"
    and s'_def: "s' = upd_thread t (Finished c r) (s\<lparr>cs_store := kv\<rparr>)" and "kv_wal kv = kv_wal (cs_store s)"
    and "store_view kv = (store_view (cs_store s))(call_key c := effect c)"
  shows "conc_inv T s'"
proof -
  have sh: "shared_inv False s" using assms(1) by (simp add: conc_inv_def)
  show ?thesis
  proof (rule conc_inv_same_log [OF assms(1) shared_store.inv_step [OF sh assms(3)] assms(4)])
    show "log_ahead T s' rs" if "log_ahead T s rs" for rs
      by (rule log_ahead_apply [OF that assms(2,5,7)])
  qed (use assms(6) in \<open>auto simp: s'_def split: if_splits\<close>)
qed

lemma conc_inv_sweep:
  assumes "conc_inv T s" and "i < length (kv_shards (cs_store s))" and "now \<le> T" and "exclusive s'"
    and "istep s ev s'" and s'_def: "s' = s\<lparr>cs_store := set_shard i (sweep_shard ord now (kv_shards (cs_store s) ! i)) (cs_store s)\<rparr>"
  shows "conc_inv T s'"
proof -
  have sh: "shared_inv False s" using assms(1) by (simp add: conc_inv_def)
  then have "kv_inv (cs_store s)" by (simp add: shared_inv_def)
  note sw = sweep_one_spec [OF this assms(2) refl, of ord now]
  have v: "live t' (store_view (cs_store s')) key = live t' (store_view (cs_store s)) key" if "T \<le> t'" for t' key
    using sw [THEN conjunct2, THEN conjunct2, THEN conjunct2, rule_format, of key] that assms(3)
    by (auto simp: s'_def live_def store_view_def)
  show ?thesis
  proof (rule conc_inv_same_log [OF assms(1) shared_store.inv_step [OF sh assms(5)] assms(4)])
    show "log_ahead T s' rs" if "log_ahead T s rs" for rs
      by (rule log_ahead_same [OF that]) (use v in \<open>simp_all add: s'_def\<close>)
  qed (use sw in \<open>simp_all add: s'_def\<close>)
qed

lemma conc_step:
  assumes "conc_inv T s" and "estep s ev s'" and "calm T ev"
  shows "conc_inv T s'"
proof -
  have st: "istep s ev s'" and ex: "exclusive s'" using assms(2) by (simp_all add: estep_def)
  have sh: "shared_inv False s" using assms(1) by (simp add: conc_inv_def)
  then have k: "kv_inv (cs_store s)" "unlimited (cs_store s)" by (simp_all add: shared_inv_def)
  have noflush: "\<not> w_flusher (kv_wal (cs_store s))" using assms(1) by (simp add: conc_inv_def wal_healthy_def)
  from st show ?thesis
  proof cases
    case (log t c out sy w)
    show ?thesis by (rule conc_inv_append [OF assms(1) log(3,4,2) shared_store.inv_step [OF sh st] ex])
  next
    case (set_stored t key val e env reads res kv)
    obtain kv' where kv': "SetWithExpiry_section env reads key val e (cs_store s) = Returns (Inr ()) kv'"
      "kv_wal kv' = kv_wal (cs_store s)"
      "contents kv' key = Some \<lparr>rc_value = val, rc_createdAt = env_now env, rc_expiredAt = e\<rparr>"
      "\<And>k. k \<noteq> key \<Longrightarrow> contents kv' k = contents (cs_store s) k"
      by (rule Set_section_spec [OF k(1), of env reads key val e]) (use k(2) in auto)
    have [simp]: "kv = kv'" using set_stored(4) kv'(1) by simp
    have "store_view kv = (store_view (cs_store s))(key := Some (val, e))"
      using kv'(3,4) by (auto simp: store_view_def fun_eq_iff)
    with kv'(2) show ?thesis by (intro conc_inv_apply [OF assms(1) set_stored(3) st ex set_stored(2)]) simp_all
  next
    case (delete_done t key res kv)
    obtain kv' where kv': "Delete_section key (cs_store s) = Returns (if contents (cs_store s) key = None then Inl ErrKeyNotFound else Inr ()) kv'"
      "kv_wal kv' = kv_wal (cs_store s)" "contents kv' = (contents (cs_store s))(key := None)"
      by (rule Delete_section_spec [OF k(1), of key]) auto
    have [simp]: "kv = kv'" using delete_done(4) kv'(1) by simp
    have "store_view kv = (store_view (cs_store s))(key := None)"
      using kv'(3) by (auto simp: store_view_def fun_eq_iff)
    with kv'(2) show ?thesis by (intro conc_inv_apply [OF assms(1) delete_done(3) st ex delete_done(2)]) simp_all
  next
    case (sweep i now ord)
    with assms(3) show ?thesis by (intro conc_inv_sweep [OF assms(1) sweep(3) _ ex st sweep(2)]) simp
  qed (use noflush assms(3) conc_inv_neutral [OF assms(1) st ex] in \<open>auto simp: flusher_recv_def flusher_tick_def\<close>)
qed

lemma conc_trace: "trace estep s es s' \<Longrightarrow> conc_inv T s \<Longrightarrow> list_all (calm T) es \<Longrightarrow> conc_inv T s'"
  by (induction rule: trace.induct) (auto dest: conc_step)

text \<open>Building runs: an append that the log takes, and the section of a write on a store without a cap.\<close>

lemma log_call_always:
  assumes "w_Mode w = SyncAlways" and "\<not> w_closed w" and "\<not> w_detached w" and "is_write c"
  shows "log_call WriteOk None c w = Some (None, w\<lparr>w_disk := w_disk w @ encode (call_record c),
    w_synced := length (w_disk w @ encode (call_record c))\<rparr>)"
  using append_always [OF assms(1-3)] by (simp add: log_call_append assms(4))

lemma unlimited_section:
  assumes "kv_inv kv" and "unlimited kv"
  obtains kv' where "SetWithExpiry_section env [] key val e kv = Returns (Inr ()) kv'" "kv_inv kv'" "unlimited kv'"
    "kv_wal kv' = kv_wal kv" "store_view kv' = (store_view kv)(key \<mapsto> (val, e))"
proof -
  obtain kv' where kv': "SetWithExpiry_section env [] key val e kv = Returns (Inr ()) kv'" "kv_inv kv'" "unlimited kv'"
    "kv_wal kv' = kv_wal kv" "contents kv' key = Some \<lparr>rc_value = val, rc_createdAt = env_now env, rc_expiredAt = e\<rparr>"
    "\<And>k. k \<noteq> key \<Longrightarrow> contents kv' k = contents kv k"
    by (rule Set_section_spec [OF assms(1), of env "[]" key val e]) (use assms(2) in auto)
  from kv'(5,6) have "store_view kv' = (store_view kv)(key \<mapsto> (val, e))" by (auto simp: store_view_def fun_eq_iff)
  with kv' show ?thesis by (intro that [of kv']) simp_all
qed

lemma conc_inv_start:
  assumes "log_agrees T kv" and "\<not> w_flusher (kv_wal kv)"
  shows "conc_inv T (start kv)"
  using assms by (auto simp: conc_inv_def shared_inv_def exclusive_def wal_healthy_def log_agrees_def log_ahead_def start_def)

lemma example_view: "store_view (example_store 0 NoEvict SyncAlways) = Map.empty"
proof -
  have "contents (example_store 0 NoEvict SyncAlways) k = None" for k
    by (auto simp: contents_def example_store_def nth_Cons' numeral_2_eq_2 split: option.splits dest!: getShard_less)
  then show ?thesis by (simp add: store_view_def [abs_def])
qed

lemma example_agrees: "log_agrees 9 (example_store 0 NoEvict SyncAlways)"
  unfolding log_agrees_def example_view
  by (intro conjI exI [of _ "[]"])
    (simp add: example_store_inv, simp_all add: example_store_def unlimited_def open_state_def)

text \<open>A write that nothing interrupts, as a run of the interleaved store.\<close>

lemma single_write:
  assumes "log_agrees T kv" and "fits (CSet key val e)"
  obtains kv' where "trace estep (start kv)
      [Invoke 1 (CSet key val e), Log 1 (CSet key val e), Linearize 1 (CSet key val e) (Acked (Inr ()))]
      \<lparr>cs_store = kv', cs_threads = (\<lambda>_. Idle)(1 := Finished (CSet key val e) (Acked (Inr ()))), cs_compact = None\<rparr>"
    "kv_inv kv'" "store_view kv' key = Some (val, e)"
proof -
  let ?c = "CSet key val e"
  let ?w = "(kv_wal kv)\<lparr>w_disk := w_disk (kv_wal kv) @ encode (call_record ?c),
    w_synced := length (w_disk (kv_wal kv) @ encode (call_record ?c))\<rparr>"
  have l: "log_call WriteOk None ?c (kv_wal kv) = Some (None, ?w)"
    by (rule log_call_always) (use assms(1) in \<open>simp_all add: log_agrees_def\<close>)
  obtain kv' where kv': "SetWithExpiry_section example_env [] key val e (kv\<lparr>kv_wal := ?w\<rparr>) = Returns (Inr ()) kv'" "kv_inv kv'"
      "unlimited kv'" "kv_wal kv' = kv_wal (kv\<lparr>kv_wal := ?w\<rparr>)" "store_view kv' = (store_view (kv\<lparr>kv_wal := ?w\<rparr>))(key \<mapsto> (val, e))"
    by (rule unlimited_section [of "kv\<lparr>kv_wal := ?w\<rparr>" example_env key val e]) (use assms(1) in \<open>simp_all add: log_agrees_def\<close>)
  have "trace estep (start kv) [Invoke 1 ?c, Log 1 ?c, Linearize 1 ?c (Acked (Inr ()))]
      \<lparr>cs_store = kv', cs_threads = (\<lambda>_. Idle)(1 := Finished ?c (Acked (Inr ()))), cs_compact = None\<rparr>"
    by (rule trace.next_step, unfold estep_def, rule conjI, rule istep.invoke, simp add: start_def, simp add: exclusive_def start_def,
      rule trace.next_step, rule conjI, rule istep.log, simp add: start_def, use l in \<open>simp add: start_def\<close>,
      simp add: exclusive_def start_def,
      rule trace.next_step, rule conjI, rule istep.set_stored, simp add: start_def, use kv'(1) in \<open>simp add: start_def\<close>,
      simp add: exclusive_def start_def, simp add: start_def fun_eq_iff)
  moreover have "store_view kv' key = Some (val, e)" unfolding kv'(5) by simp
  ultimately show ?thesis using kv'(2) by (intro that)
qed

lemma estep_trace: "trace estep s es s' \<Longrightarrow> trace istep s es s'"
  by (induction rule: trace.induct) (auto intro: trace.intros simp: estep_def)

section \<open>Properties\<close>

text \<open>C17 (refinement): the store is linearizable. However the calls of any number of goroutines interleave with
  each other, with the sweeper, the flusher and a compaction, the run is a run of the atomic map with the
  same invocations and responses: every call takes effect in one step between the two and returns what the
  map gives at that step, a read the value of the entry it found unless the clock it reads before it returns is past the
  expiry. Without a memory cap no entry disappears but by a delete or after its
  expiry. The store is well formed throughout.\<close>

theorem store_linearizable:
  assumes "kv_inv kv" and "trace istep (start kv) es s"
  shows "trace (sstep (\<not> unlimited kv)) (contents kv, \<lambda>_. Ready) es (contents (cs_store s), status_of \<circ> cs_threads s) \<and>
    kv_inv (cs_store s)"
proof -
  note i = shared_inv_start [OF assms(1)]
  have "abs_state (start kv) = (contents kv, \<lambda>_. Ready)" by (simp add: abs_state_def start_def fun_eq_iff)
  with shared_store.sim_trace [OF assms(2) i] have
    "trace (sstep (\<not> unlimited kv)) (contents kv, \<lambda>_. Ready) es (contents (cs_store s), status_of \<circ> cs_threads s)"
    by (simp add: abs_state_def)
  moreover have "kv_inv (cs_store s)" using shared_store.inv_trace [OF assms(2) i] by (simp add: shared_inv_def)
  ultimately show ?thesis ..
qed

text \<open>A write and, after its answer, a read by another goroutine.\<close>

theorem store_linearizable_witness:
  "let kv = example_store 0 NoEvict SyncAlways; c = CSet [1] [2] 50; g = CGet [1] in
   \<exists>kv' rec. rc_value rec = [2] \<and> rc_expiredAt rec = 50 \<and>
     trace (sstep (\<not> unlimited kv)) (contents kv, \<lambda>_. Ready)
       [Invoke 1 c, Log 1 c, Linearize 1 c (Acked (Inr ())), Respond 1 c (Written (Inr ())),
        Invoke 2 g, Linearize 2 g (Found (Some rec)), Respond 2 g (Value 9 (Inr [2]))] (contents kv', \<lambda>_. Ready) \<and> kv_inv kv'"
proof -
  let ?kv = "example_store 0 NoEvict SyncAlways" and ?c = "CSet [1] [2] 50" and ?g = "CGet [1]"
  obtain kv1 where 1: "trace estep (start ?kv) [Invoke 1 ?c, Log 1 ?c, Linearize 1 ?c (Acked (Inr ()))]
      \<lparr>cs_store = kv1, cs_threads = (\<lambda>_. Idle)(1 := Finished ?c (Acked (Inr ()))), cs_compact = None\<rparr>" (is "trace _ _ ?es1 ?s1")
      "kv_inv kv1" "store_view kv1 [1] = Some ([2], 50)"
    by (rule single_write [OF example_agrees, of "[1]" "[2]" 50]) (simp_all add: nano_range_def)
  then obtain rec where r: "contents kv1 [1] = Some rec" "rc_value rec = [2]" "rc_expiredAt rec = 50"
    by (auto simp: store_view_def)
  from 1(2) obtain kv2 where 2: "Get_section [1] kv1 = Some (contents kv1 [1], kv2)" "kv_inv kv2"
    by (rule Get_section_spec)
  from 2(2) obtain kv3 where 3: "Get_end 9 [1] (Some rec) kv2 = Some (read_result 9 (Some rec), kv3)" "kv_inv kv3"
    by (rule Get_end_spec)
  let ?es2 = "[Respond 1 ?c (Written (Inr ())), Invoke 2 ?g, Linearize 2 ?g (Found (Some rec)), Respond 2 ?g (Value 9 (Inr [2]))]"
  have "trace istep ?s1 ?es2 \<lparr>cs_store = kv3, cs_threads = (\<lambda>_. Idle), cs_compact = None\<rparr>"
    by (rule trace.next_step, rule istep.write_end, simp,
      rule trace.next_step, rule istep.invoke, simp,
      rule trace.next_step, rule istep.get_read, simp, use 2(1) r(1) in simp,
      rule trace.next_step, rule istep.get_end, simp, use 3(1) r in \<open>simp add: read_result_def\<close>,
      simp add: fun_eq_iff)
  with estep_trace [OF 1(1)] have "trace istep (start ?kv) (?es1 @ ?es2) \<lparr>cs_store = kv3, cs_threads = (\<lambda>_. Idle), cs_compact = None\<rparr>"
    unfolding trace_append by blast
  from store_linearizable [OF _ this] r(2,3) show ?thesis
    unfolding Let_def by (intro exI [of _ kv3] exI [of _ rec]) (simp add: example_store_inv comp_def)
qed

text \<open>Without a memory cap a read that takes effect after an acknowledged write finds the entry
  of that write, whatever else runs concurrently, as long as no other write or delete of the key takes
  effect in between and the sweeper has not seen a clock past the expiry.\<close>

lemma read_finds_last_write:
  assumes "kv_inv kv" and "unlimited kv" and "list_all (spares key e) es'"
    and "trace istep (start kv) (es @ Linearize t (CSet key val e) (Acked (Inr ())) # es' @ [Linearize u (CGet key) (Found r)]) s"
  shows "\<exists>rec. r = Some rec \<and> rc_value rec = val \<and> rc_expiredAt rec = e"
proof -
  have "trace (sstep False) (abs_state (start kv))
    (es @ Linearize t (CSet key val e) (Acked (Inr ())) # es' @ [Linearize u (CGet key) (Found r)]) (abs_state s)"
    using shared_store.sim_trace [OF assms(4) shared_inv_start [OF assms(1)]] assms(2) by simp
  then obtain x y z where w: "sstep False x (Linearize t (CSet key val e) (Acked (Inr ()))) y"
    and q: "trace (sstep False) y es' z" and r: "sstep False z (Linearize u (CGet key) (Found r)) (abs_state s)"
    by (auto simp: trace_append trace_Cons)
  from w obtain rec where "fst y key = Some rec" "rc_value rec = val" "rc_expiredAt rec = e"
    by (auto elim!: sstep.cases elim: atomic.cases)
  moreover from this have "fst z key = Some rec" using spares_trace [OF q assms(3)] by simp
  moreover have "r = fst z key" using r by (auto elim!: sstep.cases elim: atomic.cases)
  ultimately show ?thesis by simp
qed

text \<open>C21 (liveness): no call is stuck. In every reachable state a call that was invoked and has not been answered
  can take its next step, or it waits for room in the channel of the log and can take it as soon as the
  flusher has received one record.\<close>

theorem calls_progress:
  assumes "kv_inv kv" and "log_drains kv" and "trace istep (start kv) es s" and "cs_threads s t \<noteq> Idle"
  shows "can_move s t \<or> (\<exists>s'. istep s Flush s' \<and> cs_threads s' t = cs_threads s t \<and> can_move s' t)"
proof -
  have i: "shared_inv (\<not> unlimited kv) s" by (rule shared_store.inv_trace [OF assms(3) shared_inv_start [OF assms(1)]])
  have d: "log_drains (cs_store s)"
    by (rule trace_log_drains [OF assms(3) shared_inv_start [OF assms(1)]]) (simp add: assms(2) start_def)
  show ?thesis
  proof (cases "\<exists>c. cs_threads s t = Called c \<and> is_write c \<and> log_call WriteOk None c (kv_wal (cs_store s)) = None")
    case True
    then obtain c where c: "cs_threads s t = Called c" "is_write c" "log_call WriteOk None c (kv_wal (cs_store s)) = None"
      by blast
    from d c(3,2) obtain w e w' where w: "flusher_recv (\<lambda>_. WriteOk) None (kv_wal (cs_store s)) = Some w"
      "log_call WriteOk None c w = Some (e, w')"
      by (rule flusher_makes_room)
    have "can_move (upd_wal w s) t" by (rule logged_can_move [of _ _ c]) (use c w in simp_all)
    with istep.flusher_receives [OF w(1)] show ?thesis by auto
  next
    case False
    then have "can_move s t" by (intro call_can_move [OF i assms(4)]) auto
    then show ?thesis ..
  qed
qed

theorem calls_progress_witness:
  "\<exists>s. trace istep (start (example_store 0 NoEvict SyncAlways)) [Invoke 1 (CDelete [1])] s \<and>
     (can_move s 1 \<or> (\<exists>s'. istep s Flush s' \<and> cs_threads s' 1 = cs_threads s 1 \<and> can_move s' 1))"
proof -
  let ?kv = "example_store 0 NoEvict SyncAlways"
  have "trace istep (start ?kv) [Invoke 1 (CDelete [1])] (upd_thread 1 (Called (CDelete [1])) (start ?kv))"
    by (rule trace.next_step, rule istep.invoke, simp add: start_def, rule trace.empty)
  moreover from calls_progress [OF _ _ this, of 1] have "can_move (upd_thread 1 (Called (CDelete [1])) (start ?kv)) 1 \<or>
      (\<exists>s'. istep (upd_thread 1 (Called (CDelete [1])) (start ?kv)) Flush s' \<and>
        cs_threads s' 1 = cs_threads (upd_thread 1 (Called (CDelete [1])) (start ?kv)) 1 \<and> can_move s' 1)"
    by (simp add: example_store_inv) (simp add: log_drains_def example_store_def open_state_def SyncAlways_def SyncInterval_def)
  ultimately show ?thesis by blast
qed

text \<open>C18 (roundtrip): crash recovery under concurrency, in the mode \<open>always\<close>, without a memory cap, without errors
  of the log and while no compaction replaces it. Calls of any goroutines run interleaved, the sweeper
  too; the one discipline asked of the callers is that no two of them write the same key at the same
  time. Whenever the process dies, a store started on the file holds, for every key without a write
  between its append and its section, exactly what the old store held and is still live.\<close>

theorem concurrent_crash_recovery:
  assumes "opts_ok opts" and "so_MaxMemoryBytes opts \<le> 0" and "o_Mode walOpts = SyncAlways" and "list_all rec_ok rs"
    and "NewKVStore ord t0 (file_of (log_bytes rs)) (Inr (log_bytes rs)) walOpts opts = Ok kv0" and "t0 \<le> T"
    and "trace estep (start kv0) es s" and "list_all (calm T) es"
  shows "w_synced (kv_wal (cs_store s)) = length (w_disk (kv_wal (cs_store s))) \<and>
    (\<exists>kv. NewKVStore ord' T (file_of (w_disk (kv_wal (cs_store s)))) (Inr (w_disk (kv_wal (cs_store s)))) walOpts opts = Ok kv \<and>
      kv_inv kv \<and> (\<forall>key. settled s key \<longrightarrow> store_view kv key = live T (store_view (cs_store s)) key))"
proof -
  have "wal_opts_ok walOpts" using assms(3) by (simp add: wal_opts_ok_def SyncAlways_def SyncInterval_def)
  from assms(1,3,4,2) obtain kv1 where "NewKVStore ord t0 (file_of (log_bytes rs)) (Inr (log_bytes rs)) walOpts opts = Ok kv1"
    "log_agrees t0 kv1" "store_view kv1 = live t0 (log_view rs)"
    by (rule log_agrees_restart)
  then have a: "log_agrees T kv0" using assms(5,6) log_agrees_mono by simp
  from assms(1) \<open>wal_opts_ok walOpts\<close> assms(4) obtain kv2 where
    "NewKVStore ord t0 (file_of (log_bytes rs)) (Inr (log_bytes rs)) walOpts opts = Ok kv2" "kv_inv kv2"
    "store_view kv2 = live t0 (log_view rs)" "kv_wal kv2 = open_state (log_bytes rs) walOpts"
    "map sh_budget (kv_shards kv2) = replicate (nat (so_ShardCount opts)) (opts_budget opts)"
    by (rule NewKVStore_log)
  then have "\<not> w_flusher (kv_wal kv0)" using assms(3,5) by (simp add: open_state_def SyncAlways_def SyncInterval_def)
  with a have "conc_inv T s" by (intro conc_trace [OF assms(7) conc_inv_start assms(8)])
  then obtain rs' where rs': "w_disk (kv_wal (cs_store s)) = log_bytes rs'" "list_all rec_ok rs'" "log_ahead T s rs'"
    and sy: "w_synced (kv_wal (cs_store s)) = length (w_disk (kv_wal (cs_store s)))"
    by (auto simp: conc_inv_def wal_healthy_def)
  from assms(1,3) rs'(2) assms(2) obtain kv where
    kv: "NewKVStore ord' T (file_of (log_bytes rs')) (Inr (log_bytes rs')) walOpts opts = Ok kv" "log_agrees T kv"
    "store_view kv = live T (log_view rs')"
    by (rule log_agrees_restart)
  moreover have "store_view kv key = live T (store_view (cs_store s)) key" if "settled s key" for key
    using rs'(3) that kv(3) by (simp add: log_ahead_def)
  ultimately show ?thesis using rs'(1) sy by (auto simp: log_agrees_def)
qed

theorem concurrent_crash_recovery_witness:
  "let opts = \<lparr>so_ShardCount = 4, so_DefaultTTL = 900, so_MaxMemoryBytes = 0, so_NewEviction = None\<rparr>;
       walOpts = \<lparr>o_Mode = SyncAlways, o_FlushInterval = 500, o_MaxBatchSize = 1000\<rparr>;
       c = CSet [1] [2] 50
   in \<exists>kv0 s kv. NewKVStore (\<lambda>_ _. 0) 7 (file_of (log_bytes [])) (Inr (log_bytes [])) walOpts opts = Ok kv0 \<and>
    trace estep (start kv0) [Invoke 1 c, Log 1 c, Linearize 1 c (Acked (Inr ()))] s \<and>
    NewKVStore (\<lambda>_ _. 0) 9 (file_of (w_disk (kv_wal (cs_store s)))) (Inr (w_disk (kv_wal (cs_store s)))) walOpts opts = Ok kv \<and>
    store_view kv [1] = live 9 (store_view (cs_store s)) [1]"
proof -
  define opts where "opts = \<lparr>so_ShardCount = 4, so_DefaultTTL = 900, so_MaxMemoryBytes = 0, so_NewEviction = None\<rparr>"
  define walOpts where "walOpts = \<lparr>o_Mode = SyncAlways, o_FlushInterval = 500, o_MaxBatchSize = 1000\<rparr>"
  let ?c = "CSet [1] [2] 50"
  have o: "opts_ok opts" "o_Mode walOpts = SyncAlways" "so_MaxMemoryBytes opts \<le> 0" by (simp_all add: opts_def walOpts_def opts_ok_def)
  obtain kv0 where kv0: "NewKVStore (\<lambda>_ _. 0) 7 (file_of (log_bytes [])) (Inr (log_bytes [])) walOpts opts = Ok kv0"
      "log_agrees 7 kv0" "store_view kv0 = live 7 (log_view [])"
    by (rule log_agrees_restart [OF o(1,2) _ o(3), of "[]"]) simp
  obtain kv' where w: "trace estep (start kv0) [Invoke 1 ?c, Log 1 ?c, Linearize 1 ?c (Acked (Inr ()))]
      \<lparr>cs_store = kv', cs_threads = (\<lambda>_. Idle)(1 := Finished ?c (Acked (Inr ()))), cs_compact = None\<rparr>" (is "trace _ _ _ ?s")
    by (rule single_write [OF kv0(2), of "[1]" "[2]" 50]) (simp_all add: nano_range_def)
  have "settled ?s [1]" by (simp add: settled_def)
  with concurrent_crash_recovery [OF o(1,3,2) _ kv0(1) _ w, of 9 "\<lambda>_ _. 0"] have
    "\<exists>kv. NewKVStore (\<lambda>_ _. 0) 9 (file_of (w_disk (kv_wal (cs_store ?s)))) (Inr (w_disk (kv_wal (cs_store ?s)))) walOpts opts = Ok kv \<and>
      store_view kv [1] = live 9 (store_view (cs_store ?s)) [1]"
    by (auto simp: nano_range_def)
  with kv0(1) w show ?thesis unfolding Let_def opts_def walOpts_def by blast
qed

text \<open>C28 (safety): without that discipline the log and the store can disagree for good. Two writes of one key whose
  appends and sections interleave are both acknowledged; the store answers with the one, and a store
  started on the file, all of which is on stable storage, has the other.\<close>

theorem concurrent_writes_reorder:
  assumes "log_agrees T kv" and "fits (CSet key v1 e1)" and "fits (CSet key v2 e2)" and "T < e2"
    and "opts_ok opts" and "wal_opts_ok walOpts"
  shows "\<exists>s kv'. trace istep (start kv)
      [Invoke 1 (CSet key v1 e1), Invoke 2 (CSet key v2 e2), Log 1 (CSet key v1 e1), Log 2 (CSet key v2 e2),
       Linearize 2 (CSet key v2 e2) (Acked (Inr ())), Linearize 1 (CSet key v1 e1) (Acked (Inr ())),
       Respond 1 (CSet key v1 e1) (Written (Inr ())), Respond 2 (CSet key v2 e2) (Written (Inr ()))] s \<and>
    store_view (cs_store s) key = Some (v1, e1) \<and> w_synced (kv_wal (cs_store s)) = length (w_disk (kv_wal (cs_store s))) \<and>
    NewKVStore ord T (file_of (w_disk (kv_wal (cs_store s)))) (Inr (w_disk (kv_wal (cs_store s)))) walOpts opts = Ok kv' \<and>
    store_view kv' key = Some (v2, e2)"
proof -
  let ?c1 = "CSet key v1 e1" and ?c2 = "CSet key v2 e2"
  let ?log = "\<lambda>c w. w\<lparr>w_disk := w_disk w @ encode (call_record c), w_synced := length (w_disk w @ encode (call_record c))\<rparr>"
  let ?w = "kv_wal kv"
  let ?w1 = "?log ?c1 ?w"
  let ?w2 = "?log ?c2 ?w1"
  let ?kv2 = "kv\<lparr>kv_wal := ?w2\<rparr>"
  have k: "kv_inv kv" "unlimited kv" and h: "w_Mode ?w = SyncAlways" "\<not> w_closed ?w" "\<not> w_detached ?w"
    using assms(1) by (simp_all add: log_agrees_def)
  obtain rs where rs: "w_disk ?w = log_bytes rs" "list_all rec_ok rs" using assms(1) by (auto simp: log_agrees_def)
  have l1: "log_call WriteOk None ?c1 ?w = Some (None, ?w1)" by (rule log_call_always) (use h in simp_all)
  have l2: "log_call WriteOk None ?c2 ?w1 = Some (None, ?w2)" by (rule log_call_always) (use h in simp_all)
  obtain kva where a: "SetWithExpiry_section example_env [] key v2 e2 ?kv2 = Returns (Inr ()) kva" "kv_inv kva" "unlimited kva"
    "kv_wal kva = kv_wal ?kv2" "store_view kva = (store_view ?kv2)(key \<mapsto> (v2, e2))"
    by (rule unlimited_section [of ?kv2 example_env key v2 e2]) (use k in simp_all)
  from a(2,3) obtain kvb where b: "SetWithExpiry_section example_env [] key v1 e1 kva = Returns (Inr ()) kvb" "kv_inv kvb" "unlimited kvb"
    "kv_wal kvb = kv_wal kva" "store_view kvb = (store_view kva)(key \<mapsto> (v1, e1))"
    by (rule unlimited_section)
  let ?s = "\<lparr>cs_store = kvb, cs_threads = (\<lambda>_. Idle), cs_compact = None\<rparr>"
  have "trace istep (start kv)
      [Invoke 1 ?c1, Invoke 2 ?c2, Log 1 ?c1, Log 2 ?c2, Linearize 2 ?c2 (Acked (Inr ())), Linearize 1 ?c1 (Acked (Inr ())),
       Respond 1 ?c1 (Written (Inr ())), Respond 2 ?c2 (Written (Inr ()))] ?s"
    by (rule trace.next_step, rule istep.invoke, simp add: start_def)+
      (rule trace.next_step, rule istep.log, simp add: start_def, use l1 in \<open>simp add: start_def\<close>,
       rule trace.next_step, rule istep.log, simp add: start_def, use l2 in \<open>simp add: start_def\<close>,
       rule trace.next_step, rule istep.set_stored, simp add: start_def, use a(1) in \<open>simp add: start_def\<close>,
       rule trace.next_step, rule istep.set_stored, simp add: start_def, use b(1) in \<open>simp add: start_def\<close>,
       (rule trace.next_step, rule istep.write_end, simp add: start_def)+, simp add: start_def fun_eq_iff)
  moreover have d: "w_disk (kv_wal kvb) = log_bytes (rs @ [call_record ?c1, call_record ?c2])"
    using a(4) b(4) rs(1) by (simp add: log_bytes_def)
  moreover have "list_all rec_ok (rs @ [call_record ?c1, call_record ?c2])"
    using rs(2) call_record_ok [OF _ assms(2)] call_record_ok [OF _ assms(3)] by simp
  from NewKVStore_log [OF assms(5,6) this] obtain kv' where
    "NewKVStore ord T (file_of (w_disk (kv_wal kvb))) (Inr (w_disk (kv_wal kvb))) walOpts opts = Ok kv'"
    "store_view kv' = live T (log_view (rs @ [call_record ?c1, call_record ?c2]))"
    unfolding d by blast
  moreover have "log_view (rs @ [call_record ?c1, call_record ?c2]) key = Some (v2, e2)"
    using log_view_simps(2) [of "rs @ [call_record ?c1]" "call_record ?c2"] by (simp add: log_apply_def)
  ultimately show ?thesis
    using assms(4) a(4) b(4,5) by (intro exI [of _ ?s] exI [of _ kv']) (simp add: live_def)
qed

theorem concurrent_writes_reorder_witness:
  "let kv = example_store 0 NoEvict SyncAlways; c1 = CSet [1] [2] 50; c2 = CSet [1] [3] 60;
       opts = \<lparr>so_ShardCount = 2, so_DefaultTTL = 100, so_MaxMemoryBytes = 0, so_NewEviction = None\<rparr>;
       walOpts = \<lparr>o_Mode = SyncAlways, o_FlushInterval = 500, o_MaxBatchSize = 1000\<rparr>
   in \<exists>s kv'. trace istep (start kv)
      [Invoke 1 c1, Invoke 2 c2, Log 1 c1, Log 2 c2, Linearize 2 c2 (Acked (Inr ())), Linearize 1 c1 (Acked (Inr ())),
       Respond 1 c1 (Written (Inr ())), Respond 2 c2 (Written (Inr ()))] s \<and>
    store_view (cs_store s) [1] = Some ([2], 50) \<and> w_synced (kv_wal (cs_store s)) = length (w_disk (kv_wal (cs_store s))) \<and>
    NewKVStore (\<lambda>_ _. 0) 9 (file_of (w_disk (kv_wal (cs_store s)))) (Inr (w_disk (kv_wal (cs_store s)))) walOpts opts = Ok kv' \<and>
    store_view kv' [1] = Some ([3], 60)"
  unfolding Let_def
  by (rule concurrent_writes_reorder [OF example_agrees])
    (simp_all add: nano_range_def opts_ok_def wal_opts_ok_def SyncAlways_def SyncInterval_def)

end
