(* ===== verification/Proto_Base.thy ===== *)
theory Proto_Base
  imports Go_IO
begin

text \<open>
  The core of package \<open>protocol\<close>: the opcode table (\<open>protocol/opcodes_table.go\<close>), the decode
  errors and their wrapping, and the structured error message (\<open>protocol/errors.go\<close>). The locale
  \<open>wire_codec\<close> is the contract of a message type, the pair \<open>Encode\<close>/\<open>Decode\<close> of the
  \<open>Message\<close> interface (\<open>protocol/message.go\<close>); the theories of the message types interpret it.
\<close>

section \<open>Opcodes\<close>

definition OpGet :: byte where "OpGet = 0x01"
definition OpSet :: byte where "OpSet = 0x02"
definition OpDelete :: byte where "OpDelete = 0x03"
definition OpGetResponse :: byte where "OpGetResponse = 0x04"
definition OpSetResponse :: byte where "OpSetResponse = 0x05"
definition OpDeleteResponse :: byte where "OpDeleteResponse = 0x06"
definition OpTopologyRequest :: byte where "OpTopologyRequest = 0x10"
definition OpTopologyResponse :: byte where "OpTopologyResponse = 0x11"
definition OpReplicationSync :: byte where "OpReplicationSync = 0x20"
definition OpReplicationAck :: byte where "OpReplicationAck = 0x21"
definition OpReplicationJoin :: byte where "OpReplicationJoin = 0x22"
definition OpHeartbeat :: byte where "OpHeartbeat = 0x30"
definition OpHeartbeatAck :: byte where "OpHeartbeatAck = 0x31"
definition OpVoteRequest :: byte where "OpVoteRequest = 0x40"
definition OpVoteResponse :: byte where "OpVoteResponse = 0x41"
definition OpError :: byte where "OpError = 0xFE"

lemmas opcode_defs = OpGet_def OpSet_def OpDelete_def OpGetResponse_def OpSetResponse_def
  OpDeleteResponse_def OpTopologyRequest_def OpTopologyResponse_def OpReplicationSync_def
  OpReplicationAck_def OpReplicationJoin_def OpHeartbeat_def OpHeartbeatAck_def
  OpVoteRequest_def OpVoteResponse_def OpError_def

section \<open>Errors\<close>

text \<open>The sentinel errors, the errors of the \<open>io\<close> package that reach the callers, and the
  wrappers built with \<open>fmt.Errorf\<close>: \<open>EncodeErr op e\<close> and \<open>DecodeErr op e\<close> are "encode error for
  opcode" and "decode error for opcode" around \<open>e\<close>, and
  \<open>Malformed e\<close> is \<open>ErrMalformedMessage\<close> joined with \<open>e\<close>.\<close>

datatype ProtoError =
    ErrUnknownOpCode byte
  | ErrPayloadTooShort
  | ErrFrameTooLarge
  | EncodeErr byte ProtoError
  | DecodeErr byte ProtoError
  | Malformed ProtoError
  | IO IOError

text \<open>\<open>errors.Is(err, protocol.ErrX)\<close>, which looks through the wrapping.\<close>

fun Is_ErrPayloadTooShort :: "ProtoError \<Rightarrow> bool" where
  "Is_ErrPayloadTooShort ErrPayloadTooShort = True"
| "Is_ErrPayloadTooShort (EncodeErr op e) = Is_ErrPayloadTooShort e"
| "Is_ErrPayloadTooShort (DecodeErr op e) = Is_ErrPayloadTooShort e"
| "Is_ErrPayloadTooShort (Malformed e) = Is_ErrPayloadTooShort e"
| "Is_ErrPayloadTooShort _ = False"

fun Is_ErrMalformedMessage :: "ProtoError \<Rightarrow> bool" where
  "Is_ErrMalformedMessage (Malformed e) = True"
| "Is_ErrMalformedMessage (EncodeErr op e) = Is_ErrMalformedMessage e"
| "Is_ErrMalformedMessage (DecodeErr op e) = Is_ErrMalformedMessage e"
| "Is_ErrMalformedMessage _ = False"

fun Is_ErrFrameTooLarge :: "ProtoError \<Rightarrow> bool" where
  "Is_ErrFrameTooLarge ErrFrameTooLarge = True"
| "Is_ErrFrameTooLarge (EncodeErr op e) = Is_ErrFrameTooLarge e"
| "Is_ErrFrameTooLarge (DecodeErr op e) = Is_ErrFrameTooLarge e"
| "Is_ErrFrameTooLarge (Malformed e) = Is_ErrFrameTooLarge e"
| "Is_ErrFrameTooLarge _ = False"

text \<open>The text of an error, \<open>err.Error()\<close>; \<open>hex02\<close> is the verb \<open>%02X\<close> on a byte.\<close>

definition hex_digit :: "nat \<Rightarrow> char" where
  "hex_digit n = ''0123456789ABCDEF'' ! (n mod 16)"

definition hex02 :: "byte \<Rightarrow> string" where
  "hex02 b = [hex_digit (unat b div 16), hex_digit (unat b)]"

fun ProtoError_text :: "ProtoError \<Rightarrow> string" where
  "ProtoError_text (ErrUnknownOpCode op) = ''protocol: unknown opcode: 0x'' @ hex02 op"
| "ProtoError_text ErrPayloadTooShort = ''protocol: payload too short''"
| "ProtoError_text ErrFrameTooLarge = ''protocol: frame too large''"
| "ProtoError_text (EncodeErr op e) =
     ''protocol: encode error for opcode 0x'' @ hex02 op @ '': '' @ ProtoError_text e"
| "ProtoError_text (DecodeErr op e) =
     ''protocol: decode error for opcode 0x'' @ hex02 op @ '': '' @ ProtoError_text e"
| "ProtoError_text (Malformed e) = ''protocol: malformed message: '' @ ProtoError_text e"
| "ProtoError_text (IO EOF) = ''EOF''"
| "ProtoError_text (IO ErrUnexpectedEOF) = ''unexpected EOF''"
| "ProtoError_text (IO (IOFailure txt)) = txt"
| "ProtoError_text (IO StillWaiting) = []"

text \<open>The error codes an \<open>ErrorMessage\<close> carries.\<close>

definition ErrCodeNotLeader :: u16 where "ErrCodeNotLeader = 1"
definition ErrCodeKeyNotFound :: u16 where "ErrCodeKeyNotFound = 2"
definition ErrCodeInternal :: u16 where "ErrCodeInternal = 3"
definition ErrCodeBadRequest :: u16 where "ErrCodeBadRequest = 4"
definition ErrCodeTimeout :: u16 where "ErrCodeTimeout = 5"

section \<open>ErrorMessage\<close>

record ErrorMessage =
  em_Code :: u16
  em_Message :: bytes

definition ErrorMessage_Encode :: "ErrorMessage \<Rightarrow> bytes" where
  "ErrorMessage_Encode e =
     (let msgBytes = em_Message e;
          buf = make_buf (2 + 2 + length msgBytes);
          buf = copy_at 0 (PutUint16 (em_Code e)) buf;
          buf = copy_at 2 (PutUint16 (word_of_nat (length msgBytes))) buf
      in copy_at 4 msgBytes buf)"

definition ErrorMessage_Decode :: "bytes \<Rightarrow> (ProtoError, ErrorMessage) go" where
  "ErrorMessage_Decode data =
     (if length data < 4 then Err ErrPayloadTooShort
      else at_slice data 0 2 (\<lambda>code.
           at_slice data 2 4 (\<lambda>d.
             let msgLen = unat (Uint16 d)
             in if length data < 4 + msgLen then Err ErrPayloadTooShort
                else at_slice data 4 (4 + msgLen) (\<lambda>m.
                  Ok \<lparr>em_Code = Uint16 code, em_Message = m\<rparr>))))"

definition ErrorMessage_valid :: "ErrorMessage \<Rightarrow> bool" where
  "ErrorMessage_valid e \<longleftrightarrow> length (em_Message e) < 65536"

section \<open>The contract of a message type\<close>

text \<open>The decoder inverts the encoder on the messages in range, whatever follows them in the
  payload, and every strict prefix of an encoding is refused with \<open>ErrPayloadTooShort\<close> and never
  with a panic.\<close>

locale wire_codec =
  fixes enc :: "'m \<Rightarrow> bytes"
    and dec :: "bytes \<Rightarrow> (ProtoError, 'm) go"
    and valid :: "'m \<Rightarrow> bool"
  assumes dec_enc: "valid m \<Longrightarrow> dec (enc m @ junk) = Ok m"
    and dec_short: "valid m \<Longrightarrow> n < length (enc m) \<Longrightarrow> dec (take n (enc m)) = Err ErrPayloadTooShort"
begin

lemma round_trip: "valid m \<Longrightarrow> dec (enc m) = Ok m"
  using dec_enc [of m "[]"] by simp

lemma enc_prefix_free:
  assumes "valid m" and "valid m'" and "enc m @ x = enc m' @ y"
  shows "m = m' \<and> x = y"
proof -
  have "Ok m = (Ok m' :: (ProtoError, 'm) go)"
    using dec_enc [OF assms(1), of x] dec_enc [OF assms(2), of y] assms(3) by simp
  with assms(3) show ?thesis by simp
qed

lemma enc_inject:
  assumes "valid m" and "valid m'"
  shows "enc m = enc m' \<longleftrightarrow> m = m'"
  using enc_prefix_free [OF assms, of "[]" "[]"] by auto

end

lemma ErrorMessage_Encode_layout:
  "ErrorMessage_Encode e =
     PutUint16 (em_Code e) @ PutUint16 (word_of_nat (length (em_Message e))) @ em_Message e"
  by (simp add: ErrorMessage_Encode_def Let_def buffer_simps)

interpretation error_codec: wire_codec ErrorMessage_Encode ErrorMessage_Decode ErrorMessage_valid
proof unfold_locales
  fix m junk
  assume "ErrorMessage_valid m"
  then show "ErrorMessage_Decode (ErrorMessage_Encode m @ junk) = Ok m"
    by (simp add: ErrorMessage_Encode_layout ErrorMessage_Decode_def ErrorMessage_valid_def)
next
  fix m n
  assume "ErrorMessage_valid m" and "n < length (ErrorMessage_Encode m)"
  then show "ErrorMessage_Decode (take n (ErrorMessage_Encode m)) = Err ErrPayloadTooShort"
    by (auto simp: ErrorMessage_Encode_layout ErrorMessage_Decode_def ErrorMessage_valid_def Let_def)
qed

lemma error_decoder_total: "ErrorMessage_Decode data \<noteq> Panic"
  by (auto simp: ErrorMessage_Decode_def Let_def at_slice_panics)

end
