(* ===== verification/Proto_KV.thy ===== *)
theory Proto_KV
  imports Proto_Base
begin

text \<open>
  The client messages of package \<open>protocol/kv\<close>: GET, SET and DEL requests and their responses.
  The encoders write into a zeroed buffer field by field and the decoders check lengths and slice,
  as the source does. Three details of the source matter below. \<open>uint16(len(key))\<close> keeps the low
  16 bits of the length. The slice bound \<open>2+keyLen\<close> (\<open>14+keyLen\<close>, \<open>3+msgLen\<close>, \<open>5+valLen\<close>) is
  computed at the width of the length field, so it wraps. A slice whose upper bound wrapped below
  its lower bound panics.
\<close>

section \<open>GetRequest\<close>

record GetRequest =
  gr_Key :: bytes

definition GetRequest_Encode :: "GetRequest \<Rightarrow> bytes" where
  "GetRequest_Encode r =
     (let keyLen = length (gr_Key r);
          buf = make_buf (2 + keyLen);
          buf = copy_at 0 (PutUint16 (word_of_nat keyLen)) buf
      in copy_at 2 (gr_Key r) buf)"

definition GetRequest_Decode :: "bytes \<Rightarrow> (ProtoError, GetRequest) go" where
  "GetRequest_Decode data =
     (if length data < 2 then Err ErrPayloadTooShort
      else at_slice data 0 2 (\<lambda>d.
             let keyLen = Uint16 d
             in if length data < 2 + unat keyLen then Err ErrPayloadTooShort
                else at_slice data 2 (unat (2 + keyLen)) (\<lambda>k.
                  Ok \<lparr>gr_Key = copy_at 0 k (make_buf (unat keyLen))\<rparr>)))"

definition GetRequest_valid :: "GetRequest \<Rightarrow> bool" where
  "GetRequest_valid r \<longleftrightarrow> length (gr_Key r) < 65534"

section \<open>GetResponse\<close>

record GetResponse =
  gs_Found :: bool
  gs_Value :: bytes

definition GetResponse_Encode :: "GetResponse \<Rightarrow> bytes" where
  "GetResponse_Encode r =
     (let valLen = length (gs_Value r);
          buf = make_buf (1 + 4 + valLen);
          buf = (if gs_Found r then copy_at 0 [1] buf else buf);
          buf = copy_at 1 (PutUint32 (word_of_nat valLen)) buf
      in copy_at 5 (gs_Value r) buf)"

definition GetResponse_Decode :: "bytes \<Rightarrow> (ProtoError, GetResponse) go" where
  "GetResponse_Decode data =
     (if length data < 5 then Err ErrPayloadTooShort
      else at_index data 0 (\<lambda>found.
           at_slice data 1 5 (\<lambda>d.
             let valLen = Uint32 d
             in if length data < 5 + unat valLen then Err ErrPayloadTooShort
                else at_slice data 5 (unat (5 + valLen)) (\<lambda>v.
                  Ok \<lparr>gs_Found = (found = 1), gs_Value = copy_at 0 v (make_buf (unat valLen))\<rparr>))))"

definition GetResponse_valid :: "GetResponse \<Rightarrow> bool" where
  "GetResponse_valid r \<longleftrightarrow> length (gs_Value r) < 4294967291"

section \<open>SetRequest\<close>

record SetRequest =
  sr_Key :: bytes
  sr_Value :: bytes
  sr_TTL :: u64

definition setHeaderSize :: nat where
  "setHeaderSize = 2 + 4 + 8"

definition SetRequest_Encode :: "SetRequest \<Rightarrow> bytes" where
  "SetRequest_Encode r =
     (let keyLen = length (sr_Key r);
          valLen = length (sr_Value r);
          buf = make_buf (setHeaderSize + keyLen + valLen);
          buf = copy_at 0 (PutUint16 (word_of_nat keyLen)) buf;
          buf = copy_at 2 (PutUint32 (word_of_nat valLen)) buf;
          buf = copy_at 6 (PutUint64 (sr_TTL r)) buf;
          buf = copy_at 14 (sr_Key r) buf
      in copy_at (14 + keyLen) (sr_Value r) buf)"

definition SetRequest_Decode :: "bytes \<Rightarrow> (ProtoError, SetRequest) go" where
  "SetRequest_Decode data =
     (if length data < setHeaderSize then Err ErrPayloadTooShort
      else at_slice data 0 2 (\<lambda>dk.
           at_slice data 2 6 (\<lambda>dv.
           at_slice data 6 14 (\<lambda>ttl.
             let keyLen = Uint16 dk;
                 valLen = Uint32 dv
             in if length data < setHeaderSize + unat keyLen + unat valLen then Err ErrPayloadTooShort
                else at_slice data 14 (unat (14 + keyLen)) (\<lambda>k.
                     at_slice data (unat (14 + keyLen)) (14 + unat keyLen + unat valLen) (\<lambda>v.
                       Ok \<lparr>sr_Key = copy_at 0 k (make_buf (unat keyLen)),
                           sr_Value = copy_at 0 v (make_buf (unat valLen)),
                           sr_TTL = Uint64 ttl\<rparr>))))))"

definition SetRequest_valid :: "SetRequest \<Rightarrow> bool" where
  "SetRequest_valid r \<longleftrightarrow> length (sr_Key r) < 65522 \<and> length (sr_Value r) < 4294967296"

section \<open>SetResponse\<close>

record SetResponse =
  ss_Success :: bool
  ss_Message :: bytes

definition SetResponse_Encode :: "SetResponse \<Rightarrow> bytes" where
  "SetResponse_Encode r =
     (let msgBytes = ss_Message r;
          buf = make_buf (1 + 2 + length msgBytes);
          buf = (if ss_Success r then copy_at 0 [1] buf else buf);
          buf = copy_at 1 (PutUint16 (word_of_nat (length msgBytes))) buf
      in copy_at 3 msgBytes buf)"

definition SetResponse_Decode :: "bytes \<Rightarrow> (ProtoError, SetResponse) go" where
  "SetResponse_Decode data =
     (if length data < 3 then Err ErrPayloadTooShort
      else at_index data 0 (\<lambda>success.
           at_slice data 1 3 (\<lambda>d.
             let msgLen = Uint16 d
             in if length data < 3 + unat msgLen then Err ErrPayloadTooShort
                else at_slice data 3 (unat (3 + msgLen)) (\<lambda>m.
                  Ok \<lparr>ss_Success = (success = 1), ss_Message = m\<rparr>))))"

definition SetResponse_valid :: "SetResponse \<Rightarrow> bool" where
  "SetResponse_valid r \<longleftrightarrow> length (ss_Message r) < 65533"

section \<open>DeleteRequest\<close>

record DeleteRequest =
  dr_Key :: bytes

definition DeleteRequest_Encode :: "DeleteRequest \<Rightarrow> bytes" where
  "DeleteRequest_Encode r =
     (let keyLen = length (dr_Key r);
          buf = make_buf (2 + keyLen);
          buf = copy_at 0 (PutUint16 (word_of_nat keyLen)) buf
      in copy_at 2 (dr_Key r) buf)"

definition DeleteRequest_Decode :: "bytes \<Rightarrow> (ProtoError, DeleteRequest) go" where
  "DeleteRequest_Decode data =
     (if length data < 2 then Err ErrPayloadTooShort
      else at_slice data 0 2 (\<lambda>d.
             let keyLen = Uint16 d
             in if length data < 2 + unat keyLen then Err ErrPayloadTooShort
                else at_slice data 2 (unat (2 + keyLen)) (\<lambda>k.
                  Ok \<lparr>dr_Key = copy_at 0 k (make_buf (unat keyLen))\<rparr>)))"

definition DeleteRequest_valid :: "DeleteRequest \<Rightarrow> bool" where
  "DeleteRequest_valid r \<longleftrightarrow> length (dr_Key r) < 65534"

section \<open>DeleteResponse\<close>

record DeleteResponse =
  ds_Success :: bool
  ds_Message :: bytes

definition DeleteResponse_Encode :: "DeleteResponse \<Rightarrow> bytes" where
  "DeleteResponse_Encode r =
     (let msgBytes = ds_Message r;
          buf = make_buf (1 + 2 + length msgBytes);
          buf = (if ds_Success r then copy_at 0 [1] buf else buf);
          buf = copy_at 1 (PutUint16 (word_of_nat (length msgBytes))) buf
      in copy_at 3 msgBytes buf)"

definition DeleteResponse_Decode :: "bytes \<Rightarrow> (ProtoError, DeleteResponse) go" where
  "DeleteResponse_Decode data =
     (if length data < 3 then Err ErrPayloadTooShort
      else at_index data 0 (\<lambda>success.
           at_slice data 1 3 (\<lambda>d.
             let msgLen = Uint16 d
             in if length data < 3 + unat msgLen then Err ErrPayloadTooShort
                else at_slice data 3 (unat (3 + msgLen)) (\<lambda>m.
                  Ok \<lparr>ds_Success = (success = 1), ds_Message = m\<rparr>))))"

definition DeleteResponse_valid :: "DeleteResponse \<Rightarrow> bool" where
  "DeleteResponse_valid r \<longleftrightarrow> length (ds_Message r) < 65533"

section \<open>The wire formats\<close>

lemma GetRequest_Encode_layout:
  "GetRequest_Encode r =
     PutUint16 (word_of_nat (length (gr_Key r))) @ gr_Key r"
  by (simp add: GetRequest_Encode_def Let_def buffer_simps)

lemma DeleteRequest_Encode_layout:
  "DeleteRequest_Encode r =
     PutUint16 (word_of_nat (length (dr_Key r))) @ dr_Key r"
  by (simp add: DeleteRequest_Encode_def Let_def buffer_simps)

lemma GetResponse_Encode_layout:
  "GetResponse_Encode r =
     [if gs_Found r then 1 else 0] @ PutUint32 (word_of_nat (length (gs_Value r))) @ gs_Value r"
  by (simp add: GetResponse_Encode_def Let_def buffer_simps)

lemma SetResponse_Encode_layout:
  "SetResponse_Encode r =
     [if ss_Success r then 1 else 0] @ PutUint16 (word_of_nat (length (ss_Message r))) @ ss_Message r"
  by (simp add: SetResponse_Encode_def Let_def buffer_simps)

lemma DeleteResponse_Encode_layout:
  "DeleteResponse_Encode r =
     [if ds_Success r then 1 else 0] @ PutUint16 (word_of_nat (length (ds_Message r))) @ ds_Message r"
  by (simp add: DeleteResponse_Encode_def Let_def buffer_simps)

lemma SetRequest_Encode_layout:
  "SetRequest_Encode r =
     PutUint16 (word_of_nat (length (sr_Key r))) @ PutUint32 (word_of_nat (length (sr_Value r))) @
     PutUint64 (sr_TTL r) @ sr_Key r @ sr_Value r"
  by (simp add: SetRequest_Encode_def Let_def buffer_simps setHeaderSize_def)

section \<open>The codecs\<close>

interpretation get_request_codec: wire_codec GetRequest_Encode GetRequest_Decode GetRequest_valid
proof unfold_locales
  fix m junk
  assume "GetRequest_valid m"
  then show "GetRequest_Decode (GetRequest_Encode m @ junk) = Ok m"
    by (simp add: GetRequest_Encode_layout GetRequest_Decode_def GetRequest_valid_def unat_plus_u16 copy_at_exact)
next
  fix m n
  assume "GetRequest_valid m" and "n < length (GetRequest_Encode m)"
  then show "GetRequest_Decode (take n (GetRequest_Encode m)) = Err ErrPayloadTooShort"
    by (auto simp: GetRequest_Encode_layout GetRequest_Decode_def GetRequest_valid_def Let_def take_Cons')
qed

interpretation delete_request_codec: wire_codec DeleteRequest_Encode DeleteRequest_Decode DeleteRequest_valid
proof unfold_locales
  fix m junk
  assume "DeleteRequest_valid m"
  then show "DeleteRequest_Decode (DeleteRequest_Encode m @ junk) = Ok m"
    by (simp add: DeleteRequest_Encode_layout DeleteRequest_Decode_def DeleteRequest_valid_def unat_plus_u16 copy_at_exact)
next
  fix m n
  assume "DeleteRequest_valid m" and "n < length (DeleteRequest_Encode m)"
  then show "DeleteRequest_Decode (take n (DeleteRequest_Encode m)) = Err ErrPayloadTooShort"
    by (auto simp: DeleteRequest_Encode_layout DeleteRequest_Decode_def DeleteRequest_valid_def Let_def take_Cons')
qed

interpretation get_response_codec: wire_codec GetResponse_Encode GetResponse_Decode GetResponse_valid
proof unfold_locales
  fix m junk
  assume "GetResponse_valid m"
  then show "GetResponse_Decode (GetResponse_Encode m @ junk) = Ok m"
    by (simp add: GetResponse_Encode_layout GetResponse_Decode_def GetResponse_valid_def unat_plus_u32 copy_at_exact)
next
  fix m n
  assume "GetResponse_valid m" and "n < length (GetResponse_Encode m)"
  then show "GetResponse_Decode (take n (GetResponse_Encode m)) = Err ErrPayloadTooShort"
    by (cases rule: split_at [of n 5])
      (simp_all add: GetResponse_Encode_layout GetResponse_Decode_def GetResponse_valid_def Let_def take_Cons')
qed

interpretation set_response_codec: wire_codec SetResponse_Encode SetResponse_Decode SetResponse_valid
proof unfold_locales
  fix m junk
  assume "SetResponse_valid m"
  then show "SetResponse_Decode (SetResponse_Encode m @ junk) = Ok m"
    by (simp add: SetResponse_Encode_layout SetResponse_Decode_def SetResponse_valid_def unat_plus_u16 copy_at_exact)
next
  fix m n
  assume "SetResponse_valid m" and "n < length (SetResponse_Encode m)"
  then show "SetResponse_Decode (take n (SetResponse_Encode m)) = Err ErrPayloadTooShort"
    by (cases rule: split_at [of n 3])
      (simp_all add: SetResponse_Encode_layout SetResponse_Decode_def SetResponse_valid_def Let_def take_Cons')
qed

interpretation delete_response_codec: wire_codec DeleteResponse_Encode DeleteResponse_Decode DeleteResponse_valid
proof unfold_locales
  fix m junk
  assume "DeleteResponse_valid m"
  then show "DeleteResponse_Decode (DeleteResponse_Encode m @ junk) = Ok m"
    by (simp add: DeleteResponse_Encode_layout DeleteResponse_Decode_def DeleteResponse_valid_def unat_plus_u16 copy_at_exact)
next
  fix m n
  assume "DeleteResponse_valid m" and "n < length (DeleteResponse_Encode m)"
  then show "DeleteResponse_Decode (take n (DeleteResponse_Encode m)) = Err ErrPayloadTooShort"
    by (cases rule: split_at [of n 3])
      (simp_all add: DeleteResponse_Encode_layout DeleteResponse_Decode_def DeleteResponse_valid_def Let_def take_Cons')
qed

lemma SetRequest_Decode_header:
  "length data < 14 \<Longrightarrow> SetRequest_Decode data = Err ErrPayloadTooShort"
  by (simp add: SetRequest_Decode_def setHeaderSize_def)

interpretation set_request_codec: wire_codec SetRequest_Encode SetRequest_Decode SetRequest_valid
proof unfold_locales
  fix m junk
  assume "SetRequest_valid m"
  then show "SetRequest_Decode (SetRequest_Encode m @ junk) = Ok m"
    by (simp add: SetRequest_Encode_layout SetRequest_Decode_def SetRequest_valid_def unat_plus_u16
        copy_at_exact setHeaderSize_def)
next
  fix m n
  assume v: "SetRequest_valid m" and n: "n < length (SetRequest_Encode m)"
  show "SetRequest_Decode (take n (SetRequest_Encode m)) = Err ErrPayloadTooShort"
  proof (cases rule: split_at [of n 14])
    case before
    then show ?thesis by (simp add: SetRequest_Decode_header)
  next
    case (at k)
    with v n show ?thesis
      by (simp add: SetRequest_Encode_layout SetRequest_Decode_def SetRequest_valid_def Let_def
          setHeaderSize_def)
  qed
qed

section \<open>When a decoder panics\<close>

text \<open>Exactly when the slice bound wraps: the length field is within a header of its maximum and
  the payload is long enough to pass the length check.\<close>

lemma GetRequest_Decode_Panic:
  "GetRequest_Decode data = Panic \<longleftrightarrow>
     65534 \<le> unat (Uint16 (sub data 0 2)) \<and> 2 + unat (Uint16 (sub data 0 2)) \<le> length data"
  using unat_u16_bound [of "Uint16 (sub data 0 2)"]
  by (auto simp: GetRequest_Decode_def Let_def at_slice_panics at_index_panics wrap_u16)

lemma SetRequest_Decode_Panic:
  "SetRequest_Decode data = Panic \<longleftrightarrow>
     65522 \<le> unat (Uint16 (sub data 0 2)) \<and>
     14 + unat (Uint16 (sub data 0 2)) + unat (Uint32 (sub data 2 6)) \<le> length data"
  using unat_u16_bound [of "Uint16 (sub data 0 2)"]
  by (auto simp: SetRequest_Decode_def Let_def at_slice_panics at_index_panics wrap_u16 setHeaderSize_def)

lemma GetResponse_Decode_Panic:
  "GetResponse_Decode data = Panic \<longleftrightarrow>
     4294967291 \<le> unat (Uint32 (sub data 1 5)) \<and> 5 + unat (Uint32 (sub data 1 5)) \<le> length data"
  using unat_u32_bound [of "Uint32 (sub data 1 5)"]
  by (auto simp: GetResponse_Decode_def Let_def at_slice_panics at_index_panics wrap_u32)

lemma SetResponse_Decode_Panic:
  "SetResponse_Decode data = Panic \<longleftrightarrow>
     65533 \<le> unat (Uint16 (sub data 1 3)) \<and> 3 + unat (Uint16 (sub data 1 3)) \<le> length data"
  using unat_u16_bound [of "Uint16 (sub data 1 3)"]
  by (auto simp: SetResponse_Decode_def Let_def at_slice_panics at_index_panics wrap_u16)

lemma DeleteRequest_Decode_Panic:
  "DeleteRequest_Decode data = Panic \<longleftrightarrow>
     65534 \<le> unat (Uint16 (sub data 0 2)) \<and> 2 + unat (Uint16 (sub data 0 2)) \<le> length data"
  using unat_u16_bound [of "Uint16 (sub data 0 2)"]
  by (auto simp: DeleteRequest_Decode_def Let_def at_slice_panics at_index_panics wrap_u16)

lemma DeleteResponse_Decode_Panic:
  "DeleteResponse_Decode data = Panic \<longleftrightarrow>
     65533 \<le> unat (Uint16 (sub data 1 3)) \<and> 3 + unat (Uint16 (sub data 1 3)) \<le> length data"
  using unat_u16_bound [of "Uint16 (sub data 1 3)"]
  by (auto simp: DeleteResponse_Decode_def Let_def at_slice_panics at_index_panics wrap_u16)

end
