(* ===== verification/Proto_Cluster.thy ===== *)
theory Proto_Cluster
  imports Proto_Base
begin

text \<open>
  The node-to-node messages of package \<open>protocol/cluster\<close>: heartbeats, votes and the replication
  stream. The lengths read from the wire are converted to \<open>int\<close> before any arithmetic here, so the
  bounds do not wrap as they do in \<open>protocol/kv\<close>.
\<close>

section \<open>Heartbeat\<close>

record Heartbeat =
  hb_Term :: u64
  hb_LeaderID :: bytes

definition Heartbeat_Encode :: "Heartbeat \<Rightarrow> bytes" where
  "Heartbeat_Encode h =
     (let idBytes = hb_LeaderID h;
          buf = make_buf (8 + 2 + length idBytes);
          buf = copy_at 0 (PutUint64 (hb_Term h)) buf;
          buf = copy_at 8 (PutUint16 (word_of_nat (length idBytes))) buf
      in copy_at 10 idBytes buf)"

definition Heartbeat_Decode :: "bytes \<Rightarrow> (ProtoError, Heartbeat) go" where
  "Heartbeat_Decode data =
     (if length data < 10 then Err ErrPayloadTooShort
      else at_slice data 0 8 (\<lambda>trm.
           at_slice data 8 10 (\<lambda>d.
             let idLen = unat (Uint16 d)
             in if length data < 10 + idLen then Err ErrPayloadTooShort
                else at_slice data 10 (10 + idLen) (\<lambda>i.
                  Ok \<lparr>hb_Term = Uint64 trm, hb_LeaderID = i\<rparr>))))"

definition Heartbeat_valid :: "Heartbeat \<Rightarrow> bool" where
  "Heartbeat_valid h \<longleftrightarrow> length (hb_LeaderID h) < 65536"

section \<open>HeartbeatAck\<close>

record HeartbeatAck =
  ha_Term :: u64
  ha_LastAppliedIndex :: u64

definition HeartbeatAck_Encode :: "HeartbeatAck \<Rightarrow> bytes" where
  "HeartbeatAck_Encode h =
     (let buf = make_buf 16;
          buf = copy_at 0 (PutUint64 (ha_Term h)) buf
      in copy_at 8 (PutUint64 (ha_LastAppliedIndex h)) buf)"

definition HeartbeatAck_Decode :: "bytes \<Rightarrow> (ProtoError, HeartbeatAck) go" where
  "HeartbeatAck_Decode data =
     (if length data < 16 then Err ErrPayloadTooShort
      else at_slice data 0 8 (\<lambda>trm.
           at_slice data 8 16 (\<lambda>idx.
             Ok \<lparr>ha_Term = Uint64 trm, ha_LastAppliedIndex = Uint64 idx\<rparr>)))"

section \<open>VoteRequest\<close>

record VoteRequest =
  vr_Term :: u64
  vr_CandidateID :: bytes
  vr_LastLogIndex :: u64

definition VoteRequest_Encode :: "VoteRequest \<Rightarrow> bytes" where
  "VoteRequest_Encode v =
     (let idBytes = vr_CandidateID v;
          buf = make_buf (8 + 2 + length idBytes + 8);
          buf = copy_at 0 (PutUint64 (vr_Term v)) buf;
          buf = copy_at 8 (PutUint16 (word_of_nat (length idBytes))) buf;
          buf = copy_at 10 idBytes buf
      in copy_at (10 + length idBytes) (PutUint64 (vr_LastLogIndex v)) buf)"

definition VoteRequest_Decode :: "bytes \<Rightarrow> (ProtoError, VoteRequest) go" where
  "VoteRequest_Decode data =
     (if length data < 10 then Err ErrPayloadTooShort
      else at_slice data 0 8 (\<lambda>trm.
           at_slice data 8 10 (\<lambda>d.
             let idLen = unat (Uint16 d)
             in if length data < 10 + idLen + 8 then Err ErrPayloadTooShort
                else at_slice data 10 (10 + idLen) (\<lambda>i.
                     at_slice data (10 + idLen) (18 + idLen) (\<lambda>l.
                       Ok \<lparr>vr_Term = Uint64 trm, vr_CandidateID = i, vr_LastLogIndex = Uint64 l\<rparr>)))))"

definition VoteRequest_valid :: "VoteRequest \<Rightarrow> bool" where
  "VoteRequest_valid v \<longleftrightarrow> length (vr_CandidateID v) < 65536"

section \<open>VoteResponse\<close>

record VoteResponse =
  vs_Term :: u64
  vs_Granted :: bool

definition VoteResponse_Encode :: "VoteResponse \<Rightarrow> bytes" where
  "VoteResponse_Encode v =
     (let buf = make_buf 9;
          buf = copy_at 0 (PutUint64 (vs_Term v)) buf
      in if vs_Granted v then copy_at 8 [1] buf else buf)"

definition VoteResponse_Decode :: "bytes \<Rightarrow> (ProtoError, VoteResponse) go" where
  "VoteResponse_Decode data =
     (if length data < 9 then Err ErrPayloadTooShort
      else at_slice data 0 8 (\<lambda>trm.
           at_index data 8 (\<lambda>granted.
             Ok \<lparr>vs_Term = Uint64 trm, vs_Granted = (granted = 1)\<rparr>)))"

section \<open>ReplicationJoin\<close>

record ReplicationJoin =
  rj_NodeAddr :: bytes

definition ReplicationJoin_Encode :: "ReplicationJoin \<Rightarrow> bytes" where
  "ReplicationJoin_Encode r =
     (let addrBytes = rj_NodeAddr r;
          buf = make_buf (2 + length addrBytes);
          buf = copy_at 0 (PutUint16 (word_of_nat (length addrBytes))) buf
      in copy_at 2 addrBytes buf)"

definition ReplicationJoin_Decode :: "bytes \<Rightarrow> (ProtoError, ReplicationJoin) go" where
  "ReplicationJoin_Decode data =
     (if length data < 2 then Err ErrPayloadTooShort
      else at_slice data 0 2 (\<lambda>d.
             let addrLen = unat (Uint16 d)
             in if length data < 2 + addrLen then Err ErrPayloadTooShort
                else at_slice data 2 (2 + addrLen) (\<lambda>a. Ok \<lparr>rj_NodeAddr = a\<rparr>)))"

definition ReplicationJoin_valid :: "ReplicationJoin \<Rightarrow> bool" where
  "ReplicationJoin_valid r \<longleftrightarrow> length (rj_NodeAddr r) < 65536"

section \<open>ReplicationSync\<close>

definition replicationSyncHeaderSize :: nat where
  "replicationSyncHeaderSize = 8 + 1 + 2 + 4 + 8"

record ReplicationSync =
  rs_LogIndex :: u64
  rs_Op :: byte
  rs_Key :: bytes
  rs_Value :: bytes
  rs_ExpiresAt :: u64

definition ReplicationSync_Encode :: "ReplicationSync \<Rightarrow> bytes" where
  "ReplicationSync_Encode r =
     (let keyLen = length (rs_Key r);
          valLen = length (rs_Value r);
          buf = make_buf (replicationSyncHeaderSize + keyLen + valLen);
          buf = copy_at 0 (PutUint64 (rs_LogIndex r)) buf;
          buf = copy_at 8 [rs_Op r] buf;
          buf = copy_at 9 (PutUint16 (word_of_nat keyLen)) buf;
          buf = copy_at 11 (PutUint32 (word_of_nat valLen)) buf;
          buf = copy_at 15 (PutUint64 (rs_ExpiresAt r)) buf;
          buf = copy_at 23 (rs_Key r) buf
      in copy_at (23 + keyLen) (rs_Value r) buf)"

definition ReplicationSync_Decode :: "bytes \<Rightarrow> (ProtoError, ReplicationSync) go" where
  "ReplicationSync_Decode data =
     (if length data < replicationSyncHeaderSize then Err ErrPayloadTooShort
      else at_slice data 0 8 (\<lambda>idx.
           at_index data 8 (\<lambda>op.
           at_slice data 9 11 (\<lambda>dk.
           at_slice data 11 15 (\<lambda>dv.
           at_slice data 15 23 (\<lambda>expiresAt.
             let keyLen = unat (Uint16 dk);
                 valLen = unat (Uint32 dv)
             in if length data < replicationSyncHeaderSize + keyLen + valLen then Err ErrPayloadTooShort
                else at_slice data 23 (23 + keyLen) (\<lambda>k.
                     at_slice data (23 + keyLen) (23 + keyLen + valLen) (\<lambda>v.
                       Ok \<lparr>rs_LogIndex = Uint64 idx, rs_Op = op,
                           rs_Key = copy_at 0 k (make_buf keyLen),
                           rs_Value = copy_at 0 v (make_buf valLen),
                           rs_ExpiresAt = Uint64 expiresAt\<rparr>))))))))"

definition ReplicationSync_valid :: "ReplicationSync \<Rightarrow> bool" where
  "ReplicationSync_valid r \<longleftrightarrow> length (rs_Key r) < 65536 \<and> length (rs_Value r) < 4294967296"

section \<open>ReplicationAck\<close>

record ReplicationAck =
  ra_LastAppliedIndex :: u64

definition ReplicationAck_Encode :: "ReplicationAck \<Rightarrow> bytes" where
  "ReplicationAck_Encode r =
     (let buf = make_buf 8 in copy_at 0 (PutUint64 (ra_LastAppliedIndex r)) buf)"

definition ReplicationAck_Decode :: "bytes \<Rightarrow> (ProtoError, ReplicationAck) go" where
  "ReplicationAck_Decode data =
     (if length data < 8 then Err ErrPayloadTooShort
      else at_slice data 0 8 (\<lambda>idx. Ok \<lparr>ra_LastAppliedIndex = Uint64 idx\<rparr>))"

section \<open>The wire formats\<close>

lemma Heartbeat_Encode_layout:
  "Heartbeat_Encode r =
     PutUint64 (hb_Term r) @ PutUint16 (word_of_nat (length (hb_LeaderID r))) @ hb_LeaderID r"
  by (simp add: Heartbeat_Encode_def Let_def buffer_simps)

lemma HeartbeatAck_Encode_layout:
  "HeartbeatAck_Encode r =
     PutUint64 (ha_Term r) @ PutUint64 (ha_LastAppliedIndex r)"
  by (simp add: HeartbeatAck_Encode_def Let_def buffer_simps)

lemma VoteRequest_Encode_layout:
  "VoteRequest_Encode r =
     PutUint64 (vr_Term r) @ PutUint16 (word_of_nat (length (vr_CandidateID r))) @
     vr_CandidateID r @ PutUint64 (vr_LastLogIndex r)"
  by (simp add: VoteRequest_Encode_def Let_def buffer_simps)

lemma VoteResponse_Encode_layout:
  "VoteResponse_Encode r =
     PutUint64 (vs_Term r) @ [if vs_Granted r then 1 else 0]"
  by (simp add: VoteResponse_Encode_def Let_def buffer_simps copy_at_exact)

lemma ReplicationJoin_Encode_layout:
  "ReplicationJoin_Encode r =
     PutUint16 (word_of_nat (length (rj_NodeAddr r))) @ rj_NodeAddr r"
  by (simp add: ReplicationJoin_Encode_def Let_def buffer_simps)

lemma ReplicationSync_Encode_layout:
  "ReplicationSync_Encode r =
     PutUint64 (rs_LogIndex r) @ [rs_Op r] @ PutUint16 (word_of_nat (length (rs_Key r))) @
     PutUint32 (word_of_nat (length (rs_Value r))) @ PutUint64 (rs_ExpiresAt r) @ rs_Key r @ rs_Value r"
  by (simp add: ReplicationSync_Encode_def Let_def buffer_simps replicationSyncHeaderSize_def)

lemma ReplicationAck_Encode_layout:
  "ReplicationAck_Encode r =
     PutUint64 (ra_LastAppliedIndex r)"
  by (simp add: ReplicationAck_Encode_def Let_def buffer_simps)

section \<open>The codecs\<close>

interpretation heartbeat_codec: wire_codec Heartbeat_Encode Heartbeat_Decode Heartbeat_valid
proof unfold_locales
  fix m junk
  assume "Heartbeat_valid m"
  then show "Heartbeat_Decode (Heartbeat_Encode m @ junk) = Ok m"
    by (simp add: Heartbeat_Encode_layout Heartbeat_Decode_def Heartbeat_valid_def copy_at_exact nth_append)
next
  fix m n
  assume "Heartbeat_valid m" and "n < length (Heartbeat_Encode m)"
  then show "Heartbeat_Decode (take n (Heartbeat_Encode m)) = Err ErrPayloadTooShort"
    by (cases rule: split_at [of n 10])
      (simp_all add: Heartbeat_Encode_layout Heartbeat_Decode_def Heartbeat_valid_def Let_def take_Cons')
qed

interpretation heartbeat_ack_codec: wire_codec HeartbeatAck_Encode HeartbeatAck_Decode "\<lambda>_. True"
proof unfold_locales
  fix m junk
  show "HeartbeatAck_Decode (HeartbeatAck_Encode m @ junk) = Ok m"
    by (simp add: HeartbeatAck_Encode_layout HeartbeatAck_Decode_def copy_at_exact nth_append)
next
  fix m n
  assume "n < length (HeartbeatAck_Encode m)"
  then show "HeartbeatAck_Decode (take n (HeartbeatAck_Encode m)) = Err ErrPayloadTooShort"
    by (cases rule: split_at [of n 16])
      (simp_all add: HeartbeatAck_Encode_layout HeartbeatAck_Decode_def Let_def take_Cons')
qed

interpretation vote_request_codec: wire_codec VoteRequest_Encode VoteRequest_Decode VoteRequest_valid
proof unfold_locales
  fix m junk
  assume "VoteRequest_valid m"
  then show "VoteRequest_Decode (VoteRequest_Encode m @ junk) = Ok m"
    by (simp add: VoteRequest_Encode_layout VoteRequest_Decode_def VoteRequest_valid_def copy_at_exact nth_append)
next
  fix m n
  assume "VoteRequest_valid m" and "n < length (VoteRequest_Encode m)"
  then show "VoteRequest_Decode (take n (VoteRequest_Encode m)) = Err ErrPayloadTooShort"
    by (cases rule: split_at [of n 10])
      (simp_all add: VoteRequest_Encode_layout VoteRequest_Decode_def VoteRequest_valid_def Let_def take_Cons')
qed

interpretation vote_response_codec: wire_codec VoteResponse_Encode VoteResponse_Decode "\<lambda>_. True"
proof unfold_locales
  fix m junk
  show "VoteResponse_Decode (VoteResponse_Encode m @ junk) = Ok m"
    by (simp add: VoteResponse_Encode_layout VoteResponse_Decode_def copy_at_exact nth_append)
next
  fix m n
  assume "n < length (VoteResponse_Encode m)"
  then show "VoteResponse_Decode (take n (VoteResponse_Encode m)) = Err ErrPayloadTooShort"
    by (cases rule: split_at [of n 9])
      (simp_all add: VoteResponse_Encode_layout VoteResponse_Decode_def Let_def take_Cons')
qed

interpretation join_codec: wire_codec ReplicationJoin_Encode ReplicationJoin_Decode ReplicationJoin_valid
proof unfold_locales
  fix m junk
  assume "ReplicationJoin_valid m"
  then show "ReplicationJoin_Decode (ReplicationJoin_Encode m @ junk) = Ok m"
    by (simp add: ReplicationJoin_Encode_layout ReplicationJoin_Decode_def ReplicationJoin_valid_def copy_at_exact nth_append)
next
  fix m n
  assume "ReplicationJoin_valid m" and "n < length (ReplicationJoin_Encode m)"
  then show "ReplicationJoin_Decode (take n (ReplicationJoin_Encode m)) = Err ErrPayloadTooShort"
    by (cases rule: split_at [of n 2])
      (simp_all add: ReplicationJoin_Encode_layout ReplicationJoin_Decode_def ReplicationJoin_valid_def Let_def take_Cons')
qed

lemma ReplicationSync_Decode_header:
  "length data < 23 \<Longrightarrow> ReplicationSync_Decode data = Err ErrPayloadTooShort"
  by (simp add: ReplicationSync_Decode_def replicationSyncHeaderSize_def)

interpretation sync_codec: wire_codec ReplicationSync_Encode ReplicationSync_Decode ReplicationSync_valid
proof unfold_locales
  fix m junk
  assume "ReplicationSync_valid m"
  then show "ReplicationSync_Decode (ReplicationSync_Encode m @ junk) = Ok m"
    by (simp add: ReplicationSync_Encode_layout ReplicationSync_Decode_def ReplicationSync_valid_def
        copy_at_exact nth_append replicationSyncHeaderSize_def)
next
  fix m n
  assume v: "ReplicationSync_valid m" and n: "n < length (ReplicationSync_Encode m)"
  show "ReplicationSync_Decode (take n (ReplicationSync_Encode m)) = Err ErrPayloadTooShort"
  proof (cases rule: split_at [of n 23])
    case before
    then show ?thesis by (simp add: ReplicationSync_Decode_header)
  next
    case (at k)
    with v n show ?thesis
      by (simp add: ReplicationSync_Encode_layout ReplicationSync_Decode_def ReplicationSync_valid_def
          Let_def take_Cons' replicationSyncHeaderSize_def)
  qed
qed

interpretation ack_codec: wire_codec ReplicationAck_Encode ReplicationAck_Decode "\<lambda>_. True"
proof unfold_locales
  fix m junk
  show "ReplicationAck_Decode (ReplicationAck_Encode m @ junk) = Ok m"
    by (simp add: ReplicationAck_Encode_layout ReplicationAck_Decode_def copy_at_exact nth_append)
next
  fix m n
  assume "n < length (ReplicationAck_Encode m)"
  then show "ReplicationAck_Decode (take n (ReplicationAck_Encode m)) = Err ErrPayloadTooShort"
    by (cases rule: split_at [of n 8])
      (simp_all add: ReplicationAck_Encode_layout ReplicationAck_Decode_def Let_def take_Cons')
qed

section \<open>No decoder panics\<close>

lemma cluster_decoders_total:
  "Heartbeat_Decode data \<noteq> Panic" "HeartbeatAck_Decode data \<noteq> Panic" "VoteRequest_Decode data \<noteq> Panic"
  "VoteResponse_Decode data \<noteq> Panic" "ReplicationJoin_Decode data \<noteq> Panic"
  "ReplicationSync_Decode data \<noteq> Panic" "ReplicationAck_Decode data \<noteq> Panic"
  by (auto simp: Heartbeat_Decode_def HeartbeatAck_Decode_def VoteRequest_Decode_def VoteResponse_Decode_def
      ReplicationJoin_Decode_def ReplicationSync_Decode_def ReplicationAck_Decode_def Let_def
      replicationSyncHeaderSize_def at_slice_panics at_index_panics)

end
