(* ===== verification/Proto_Client.thy ===== *)
theory Proto_Client
  imports Proto_Base
begin

text \<open>
  Cluster discovery, package \<open>protocol/client\<close>: the topology request and the topology response with
  its variable number of nodes. The encoder computes the size of the payload first and then writes
  node after node at a running offset; the decoder walks the payload with a running offset and stops
  at the first field that does not fit.
\<close>

section \<open>TopologyRequest\<close>

text \<open>The struct has no fields, so its only value is the unit value; its payload is empty and
  \<open>Decode\<close> accepts anything.\<close>

definition TopologyRequest_Encode :: "unit \<Rightarrow> bytes" where
  "TopologyRequest_Encode t = []"

definition TopologyRequest_Decode :: "bytes \<Rightarrow> (ProtoError, unit) go" where
  "TopologyRequest_Decode data = Ok ()"

section \<open>TopologyResponse\<close>

definition TopologyRoleFollower :: byte where "TopologyRoleFollower = 0x00"
definition TopologyRoleLeader :: byte where "TopologyRoleLeader = 0x01"

record NodeInfo =
  ni_Address :: bytes
  ni_Role :: byte
  ni_NodeID :: bytes

record TopologyResponse =
  tr_LeaderAddr :: bytes
  tr_Nodes :: "NodeInfo list"

definition NodeInfo_size :: "NodeInfo \<Rightarrow> nat" where
  "NodeInfo_size n = 2 + length (ni_Address n) + 1 + 2 + length (ni_NodeID n)"

text \<open>The body of the encoder's second loop, on the buffer and the offset.\<close>

definition put_node :: "NodeInfo \<Rightarrow> bytes \<times> nat \<Rightarrow> bytes \<times> nat" where
  "put_node n = (\<lambda>(buf, offset).
     let addrBytes = ni_Address n;
         idBytes = ni_NodeID n;
         buf = copy_at offset (PutUint16 (word_of_nat (length addrBytes))) buf;
         offset = offset + 2;
         buf = copy_at offset addrBytes buf;
         offset = offset + length addrBytes;
         buf = copy_at offset [ni_Role n] buf;
         offset = offset + 1;
         buf = copy_at offset (PutUint16 (word_of_nat (length idBytes))) buf;
         offset = offset + 2;
         buf = copy_at offset idBytes buf
     in (buf, offset + length idBytes))"

definition TopologyResponse_Encode :: "TopologyResponse \<Rightarrow> bytes" where
  "TopologyResponse_Encode t =
     (let leaderBytes = tr_LeaderAddr t;
          size = fold (\<lambda>n size. size + NodeInfo_size n) (tr_Nodes t) (2 + length leaderBytes + 2);
          buf = make_buf size;
          buf = copy_at 0 (PutUint16 (word_of_nat (length leaderBytes))) buf;
          offset = 2;
          buf = copy_at offset leaderBytes buf;
          offset = offset + length leaderBytes;
          buf = copy_at offset (PutUint16 (word_of_nat (length (tr_Nodes t)))) buf;
          offset = offset + 2
      in fst (fold put_node (tr_Nodes t) (buf, offset)))"

text \<open>The body of the decoder's loop: one node and the offset after it.\<close>

definition get_node :: "bytes \<Rightarrow> nat \<Rightarrow> (ProtoError, NodeInfo \<times> nat) go" where
  "get_node data offset =
     (if length data < offset + 2 then Err ErrPayloadTooShort
      else at_slice data offset (offset + 2) (\<lambda>d.
           let addrLen = unat (Uint16 d);
               offset = offset + 2
           in if length data < offset + addrLen then Err ErrPayloadTooShort
      else at_slice data offset (offset + addrLen) (\<lambda>addr.
           let offset = offset + addrLen
           in if length data < offset + 1 then Err ErrPayloadTooShort
      else at_index data offset (\<lambda>role.
           let offset = offset + 1
           in if length data < offset + 2 then Err ErrPayloadTooShort
      else at_slice data offset (offset + 2) (\<lambda>d.
           let idLen = unat (Uint16 d);
               offset = offset + 2
           in if length data < offset + idLen then Err ErrPayloadTooShort
      else at_slice data offset (offset + idLen) (\<lambda>i.
           Ok (\<lparr>ni_Address = addr, ni_Role = role, ni_NodeID = i\<rparr>, offset + idLen)))))))"

fun get_nodes :: "bytes \<Rightarrow> nat \<Rightarrow> nat \<Rightarrow> NodeInfo list \<Rightarrow> (ProtoError, NodeInfo list) go" where
  "get_nodes data offset 0 nodes = Ok nodes"
| "get_nodes data offset (Suc left) nodes =
     (case get_node data offset of
        Err e \<Rightarrow> Err e
      | Panic \<Rightarrow> Panic
      | Ok (n, offset') \<Rightarrow> get_nodes data offset' left (nodes @ [n]))"

definition TopologyResponse_Decode :: "bytes \<Rightarrow> (ProtoError, TopologyResponse) go" where
  "TopologyResponse_Decode data =
     (if length data < 4 then Err ErrPayloadTooShort
      else at_slice data 0 2 (\<lambda>d.
           let leaderLen = unat (Uint16 d);
               offset = 2
           in if length data < offset + leaderLen then Err ErrPayloadTooShort
      else at_slice data offset (offset + leaderLen) (\<lambda>leader.
           let offset = offset + leaderLen
           in if length data < offset + 2 then Err ErrPayloadTooShort
      else at_slice data offset (offset + 2) (\<lambda>d.
           let nodeCount = unat (Uint16 d);
               offset = offset + 2
           in case get_nodes data offset nodeCount [] of
                Err e \<Rightarrow> Err e
              | Panic \<Rightarrow> Panic
              | Ok nodes \<Rightarrow> Ok \<lparr>tr_LeaderAddr = leader, tr_Nodes = nodes\<rparr>))))"

definition NodeInfo_valid :: "NodeInfo \<Rightarrow> bool" where
  "NodeInfo_valid n \<longleftrightarrow> length (ni_Address n) < 65536 \<and> length (ni_NodeID n) < 65536"

definition TopologyResponse_valid :: "TopologyResponse \<Rightarrow> bool" where
  "TopologyResponse_valid t \<longleftrightarrow> length (tr_LeaderAddr t) < 65536 \<and> length (tr_Nodes t) < 65536 \<and>
     list_all NodeInfo_valid (tr_Nodes t)"

section \<open>The wire formats\<close>

definition node_layout :: "NodeInfo \<Rightarrow> bytes" where
  "node_layout n = PutUint16 (word_of_nat (length (ni_Address n))) @ ni_Address n @ [ni_Role n] @
     PutUint16 (word_of_nat (length (ni_NodeID n))) @ ni_NodeID n"

lemma length_node_layout [simp]: "length (node_layout n) = NodeInfo_size n"
  by (simp add: node_layout_def NodeInfo_size_def)

lemma put_node_layout:
  assumes "NodeInfo_size n \<le> m"
  shows "put_node n (pre @ make_buf m, length pre) =
    (pre @ node_layout n @ make_buf (m - NodeInfo_size n), length pre + NodeInfo_size n)"
  using assms
  by (simp add: put_node_def node_layout_def NodeInfo_size_def Let_def buffer_simps)

lemma fold_put_node_layout:
  "sum_list (map NodeInfo_size ns) \<le> m \<Longrightarrow>
   fst (fold put_node ns (pre @ make_buf m, length pre)) =
     pre @ concat (map node_layout ns) @ make_buf (m - sum_list (map NodeInfo_size ns))"
proof (induction ns arbitrary: pre m)
  case Nil
  then show ?case by simp
next
  case (Cons n ns)
  have "fold put_node (n # ns) (pre @ make_buf m, length pre) =
    fold put_node ns ((pre @ node_layout n) @ make_buf (m - NodeInfo_size n), length (pre @ node_layout n))"
    using Cons.prems by (simp add: put_node_layout)
  with Cons.IH [of "m - NodeInfo_size n" "pre @ node_layout n"] Cons.prems show ?case
    by simp
qed

lemma fold_size: "fold (\<lambda>n size. size + NodeInfo_size n) ns k = k + sum_list (map NodeInfo_size ns)"
  by (induction ns arbitrary: k) simp_all

lemma TopologyResponse_Encode_layout:
  "TopologyResponse_Encode t =
     PutUint16 (word_of_nat (length (tr_LeaderAddr t))) @ tr_LeaderAddr t @
     PutUint16 (word_of_nat (length (tr_Nodes t))) @ concat (map node_layout (tr_Nodes t))"
proof -
  let ?pre = "PutUint16 (word_of_nat (length (tr_LeaderAddr t))) @ tr_LeaderAddr t @
     PutUint16 (word_of_nat (length (tr_Nodes t)))"
  let ?m = "sum_list (map NodeInfo_size (tr_Nodes t))"
  have "TopologyResponse_Encode t = fst (fold put_node (tr_Nodes t) (?pre @ make_buf ?m, length ?pre))"
    by (simp add: TopologyResponse_Encode_def Let_def buffer_simps fold_size)
  also have "\<dots> = ?pre @ concat (map node_layout (tr_Nodes t))"
    by (subst fold_put_node_layout) simp_all
  finally show ?thesis by simp
qed

section \<open>The codecs\<close>

lemma get_node_layout:
  "NodeInfo_valid n \<Longrightarrow>
   get_node (pre @ node_layout n @ rest) (length pre) = Ok (n, length pre + NodeInfo_size n)"
  by (simp add: get_node_def node_layout_def NodeInfo_size_def NodeInfo_valid_def Let_def nth_append)

text \<open>Reading a node depends only on the bytes up to its end, so a payload cut inside a node cannot
  yield it.\<close>

lemma get_node_mono:
  "get_node data offset = Ok r \<Longrightarrow> get_node (data @ junk) offset = Ok r \<and> snd r \<le> length data"
  by (auto simp: get_node_def Let_def nth_append split: if_splits)

lemma get_node_total:
  "(\<exists>r. get_node data offset = Ok r) \<or> get_node data offset = Err ErrPayloadTooShort"
  by (auto simp: get_node_def Let_def)

lemma get_node_short:
  assumes "NodeInfo_valid n" and "k < NodeInfo_size n"
  shows "get_node (pre @ take k (node_layout n)) (length pre) = Err ErrPayloadTooShort"
proof (rule disjE [OF get_node_total [of "pre @ take k (node_layout n)" "length pre"]])
  assume "\<exists>r. get_node (pre @ take k (node_layout n)) (length pre) = Ok r"
  then obtain r where "get_node (pre @ take k (node_layout n)) (length pre) = Ok r" ..
  from get_node_mono [OF this, of "drop k (node_layout n)"] get_node_layout [OF assms(1), of pre "[]"]
  have "length pre + NodeInfo_size n \<le> length (pre @ take k (node_layout n))"
    by auto
  with assms(2) show ?thesis by simp
qed

lemma get_nodes_layout:
  "list_all NodeInfo_valid ns \<Longrightarrow>
   get_nodes (pre @ concat (map node_layout ns) @ rest) (length pre) (length ns) acc = Ok (acc @ ns)"
proof (induction ns arbitrary: pre acc)
  case Nil
  then show ?case by simp
next
  case (Cons n ns)
  then have "get_node (pre @ node_layout n @ concat (map node_layout ns) @ rest) (length pre) =
    Ok (n, length (pre @ node_layout n))"
    by (simp add: get_node_layout)
  with Cons.IH [of "pre @ node_layout n" "acc @ [n]"] Cons.prems show ?case
    by simp
qed

lemma get_nodes_short:
  "list_all NodeInfo_valid ns \<Longrightarrow> k < length (concat (map node_layout ns)) \<Longrightarrow>
   get_nodes (pre @ take k (concat (map node_layout ns))) (length pre) (length ns) acc =
     Err ErrPayloadTooShort"
proof (induction ns arbitrary: pre acc k)
  case Nil
  then show ?case by simp
next
  case (Cons n ns)
  show ?case
  proof (cases rule: split_at [of k "NodeInfo_size n"])
    case before
    with Cons.prems get_node_short [of n k pre] show ?thesis by simp
  next
    case (at j)
    with Cons.IH [of j "pre @ node_layout n" "acc @ [n]"] Cons.prems
      get_node_layout [of n pre "take j (concat (map node_layout ns))"]
    show ?thesis by (simp add: length_concat)
  qed
qed

interpretation topology_request_codec: wire_codec TopologyRequest_Encode TopologyRequest_Decode "\<lambda>_. True"
  by unfold_locales (simp_all add: TopologyRequest_Encode_def TopologyRequest_Decode_def)

lemma TopologyResponse_Decode_layout:
  assumes "TopologyResponse_valid t"
  shows "TopologyResponse_Decode (TopologyResponse_Encode t @ junk) = Ok t"
proof -
  let ?pre = "PutUint16 (word_of_nat (length (tr_LeaderAddr t))) @ tr_LeaderAddr t @
     PutUint16 (word_of_nat (length (tr_Nodes t)))"
  have "get_nodes (?pre @ concat (map node_layout (tr_Nodes t)) @ junk) (length ?pre)
      (length (tr_Nodes t)) [] = Ok (tr_Nodes t)"
    using assms get_nodes_layout [of "tr_Nodes t" ?pre junk "[]"] by (simp add: TopologyResponse_valid_def)
  with assms show ?thesis
    by (simp add: TopologyResponse_Decode_def TopologyResponse_Encode_layout TopologyResponse_valid_def
        Let_def add.commute)
qed

lemma TopologyResponse_Decode_header:
  "length data < 4 \<Longrightarrow> TopologyResponse_Decode data = Err ErrPayloadTooShort"
  by (simp add: TopologyResponse_Decode_def)

lemma TopologyResponse_Decode_short:
  assumes v: "TopologyResponse_valid t" and n: "n < length (TopologyResponse_Encode t)"
  shows "TopologyResponse_Decode (take n (TopologyResponse_Encode t)) = Err ErrPayloadTooShort"
proof (cases rule: split_at [of n "4 + length (tr_LeaderAddr t)"])
  case before
  show ?thesis
  proof (cases rule: split_at [of n 4])
    case before
    then show ?thesis by (simp add: TopologyResponse_Decode_header)
  next
    case (at j)
    with before v show ?thesis
      by (simp add: TopologyResponse_Decode_def TopologyResponse_Encode_layout TopologyResponse_valid_def Let_def)
  qed
next
  case (at k)
  let ?pre = "PutUint16 (word_of_nat (length (tr_LeaderAddr t))) @ tr_LeaderAddr t @
     PutUint16 (word_of_nat (length (tr_Nodes t)))"
  have "k < length (concat (map node_layout (tr_Nodes t)))"
    using n at by (simp add: TopologyResponse_Encode_layout)
  then have "get_nodes (?pre @ take k (concat (map node_layout (tr_Nodes t)))) (length ?pre)
      (length (tr_Nodes t)) [] = Err ErrPayloadTooShort"
    using v by (intro get_nodes_short) (simp_all add: TopologyResponse_valid_def)
  with at v show ?thesis
    by (simp add: TopologyResponse_Decode_def TopologyResponse_Encode_layout TopologyResponse_valid_def
        Let_def add.commute)
qed

interpretation topology_response_codec:
  wire_codec TopologyResponse_Encode TopologyResponse_Decode TopologyResponse_valid
  by unfold_locales (simp_all add: TopologyResponse_Decode_layout TopologyResponse_Decode_short)

section \<open>No decoder panics\<close>

lemma get_nodes_total: "get_nodes data offset left acc \<noteq> Panic"
proof (induction left arbitrary: offset acc)
  case (Suc left)
  then show ?case
    using get_node_total [of data offset] by (auto split: go.splits)
qed simp

lemma client_decoders_total:
  "TopologyRequest_Decode data \<noteq> Panic" "TopologyResponse_Decode data \<noteq> Panic"
  by (auto simp: TopologyRequest_Decode_def TopologyResponse_Decode_def get_nodes_total Let_def
      split: go.splits)

end
