(* ===== verification/Protocol.thy ===== *)
theory Protocol
  imports Proto_KV Proto_Cluster Proto_Client
begin

text \<open>
  The message codec of package \<open>protocol\<close> (\<open>protocol/message.go\<close>): the dynamic type of a
  \<open>Message\<close>, the registry of factories filled by the \<open>init\<close> functions of the message files, and
  \<open>EncodeMessage\<close>/\<open>DecodeMessage\<close>, which put the opcode in front of the payload and find the
  decoder by it.
\<close>

section \<open>Messages\<close>

text \<open>A value of the interface type \<open>Message\<close> is a pointer to one of the registered structs.\<close>

datatype Message =
    MGetRequest GetRequest
  | MSetRequest SetRequest
  | MDeleteRequest DeleteRequest
  | MGetResponse GetResponse
  | MSetResponse SetResponse
  | MDeleteResponse DeleteResponse
  | MTopologyRequest unit
  | MTopologyResponse TopologyResponse
  | MReplicationSync ReplicationSync
  | MReplicationAck ReplicationAck
  | MReplicationJoin ReplicationJoin
  | MHeartbeat Heartbeat
  | MHeartbeatAck HeartbeatAck
  | MVoteRequest VoteRequest
  | MVoteResponse VoteResponse
  | MErrorMessage ErrorMessage

fun OpCode :: "Message \<Rightarrow> byte" where
  "OpCode (MGetRequest _) = OpGet"
| "OpCode (MSetRequest _) = OpSet"
| "OpCode (MDeleteRequest _) = OpDelete"
| "OpCode (MGetResponse _) = OpGetResponse"
| "OpCode (MSetResponse _) = OpSetResponse"
| "OpCode (MDeleteResponse _) = OpDeleteResponse"
| "OpCode (MTopologyRequest _) = OpTopologyRequest"
| "OpCode (MTopologyResponse _) = OpTopologyResponse"
| "OpCode (MReplicationSync _) = OpReplicationSync"
| "OpCode (MReplicationAck _) = OpReplicationAck"
| "OpCode (MReplicationJoin _) = OpReplicationJoin"
| "OpCode (MHeartbeat _) = OpHeartbeat"
| "OpCode (MHeartbeatAck _) = OpHeartbeatAck"
| "OpCode (MVoteRequest _) = OpVoteRequest"
| "OpCode (MVoteResponse _) = OpVoteResponse"
| "OpCode (MErrorMessage _) = OpError"

text \<open>The method \<open>Encode\<close> of each type; no implementation in the repository returns an error.\<close>

fun Message_Encode :: "Message \<Rightarrow> (ProtoError, bytes) go" where
  "Message_Encode (MGetRequest m) = Ok (GetRequest_Encode m)"
| "Message_Encode (MSetRequest m) = Ok (SetRequest_Encode m)"
| "Message_Encode (MDeleteRequest m) = Ok (DeleteRequest_Encode m)"
| "Message_Encode (MGetResponse m) = Ok (GetResponse_Encode m)"
| "Message_Encode (MSetResponse m) = Ok (SetResponse_Encode m)"
| "Message_Encode (MDeleteResponse m) = Ok (DeleteResponse_Encode m)"
| "Message_Encode (MTopologyRequest m) = Ok (TopologyRequest_Encode m)"
| "Message_Encode (MTopologyResponse m) = Ok (TopologyResponse_Encode m)"
| "Message_Encode (MReplicationSync m) = Ok (ReplicationSync_Encode m)"
| "Message_Encode (MReplicationAck m) = Ok (ReplicationAck_Encode m)"
| "Message_Encode (MReplicationJoin m) = Ok (ReplicationJoin_Encode m)"
| "Message_Encode (MHeartbeat m) = Ok (Heartbeat_Encode m)"
| "Message_Encode (MHeartbeatAck m) = Ok (HeartbeatAck_Encode m)"
| "Message_Encode (MVoteRequest m) = Ok (VoteRequest_Encode m)"
| "Message_Encode (MVoteResponse m) = Ok (VoteResponse_Encode m)"
| "Message_Encode (MErrorMessage m) = Ok (ErrorMessage_Encode m)"

text \<open>The method \<open>Decode\<close>: it fills the receiver, whose type decides which decoder runs.\<close>

fun Message_Decode :: "Message \<Rightarrow> bytes \<Rightarrow> (ProtoError, Message) go" where
  "Message_Decode (MGetRequest _) data = go_map MGetRequest (GetRequest_Decode data)"
| "Message_Decode (MSetRequest _) data = go_map MSetRequest (SetRequest_Decode data)"
| "Message_Decode (MDeleteRequest _) data = go_map MDeleteRequest (DeleteRequest_Decode data)"
| "Message_Decode (MGetResponse _) data = go_map MGetResponse (GetResponse_Decode data)"
| "Message_Decode (MSetResponse _) data = go_map MSetResponse (SetResponse_Decode data)"
| "Message_Decode (MDeleteResponse _) data = go_map MDeleteResponse (DeleteResponse_Decode data)"
| "Message_Decode (MTopologyRequest _) data = go_map MTopologyRequest (TopologyRequest_Decode data)"
| "Message_Decode (MTopologyResponse _) data = go_map MTopologyResponse (TopologyResponse_Decode data)"
| "Message_Decode (MReplicationSync _) data = go_map MReplicationSync (ReplicationSync_Decode data)"
| "Message_Decode (MReplicationAck _) data = go_map MReplicationAck (ReplicationAck_Decode data)"
| "Message_Decode (MReplicationJoin _) data = go_map MReplicationJoin (ReplicationJoin_Decode data)"
| "Message_Decode (MHeartbeat _) data = go_map MHeartbeat (Heartbeat_Decode data)"
| "Message_Decode (MHeartbeatAck _) data = go_map MHeartbeatAck (HeartbeatAck_Decode data)"
| "Message_Decode (MVoteRequest _) data = go_map MVoteRequest (VoteRequest_Decode data)"
| "Message_Decode (MVoteResponse _) data = go_map MVoteResponse (VoteResponse_Decode data)"
| "Message_Decode (MErrorMessage _) data = go_map MErrorMessage (ErrorMessage_Decode data)"

section \<open>The registry\<close>

type_synonym registry = "(byte, unit \<Rightarrow> Message) gomap"

text \<open>\<open>None\<close> is the panic on a duplicate registration.\<close>

definition Register :: "byte \<Rightarrow> (unit \<Rightarrow> Message) \<Rightarrow> registry \<Rightarrow> registry option" where
  "Register opcode factory reg =
     (case gomap_get reg opcode of
        Some _ \<Rightarrow> None
      | None \<Rightarrow> Some (gomap_set opcode factory reg))"

definition Lookup :: "registry \<Rightarrow> byte \<Rightarrow> Message option" where
  "Lookup reg opcode =
     (case gomap_get reg opcode of
        None \<Rightarrow> None
      | Some factory \<Rightarrow> Some (factory ()))"

text \<open>The calls of \<open>Register\<close> made by the \<open>init\<close> functions of the message files.\<close>

definition registrations :: "(byte \<times> (unit \<Rightarrow> Message)) list" where
  "registrations =
    [(OpGet, \<lambda>_. MGetRequest \<lparr>gr_Key = []\<rparr>),
     (OpSet, \<lambda>_. MSetRequest \<lparr>sr_Key = [], sr_Value = [], sr_TTL = 0\<rparr>),
     (OpDelete, \<lambda>_. MDeleteRequest \<lparr>dr_Key = []\<rparr>),
     (OpGetResponse, \<lambda>_. MGetResponse \<lparr>gs_Found = False, gs_Value = []\<rparr>),
     (OpSetResponse, \<lambda>_. MSetResponse \<lparr>ss_Success = False, ss_Message = []\<rparr>),
     (OpDeleteResponse, \<lambda>_. MDeleteResponse \<lparr>ds_Success = False, ds_Message = []\<rparr>),
     (OpTopologyRequest, \<lambda>_. MTopologyRequest ()),
     (OpTopologyResponse, \<lambda>_. MTopologyResponse \<lparr>tr_LeaderAddr = [], tr_Nodes = []\<rparr>),
     (OpReplicationSync, \<lambda>_. MReplicationSync \<lparr>rs_LogIndex = 0, rs_Op = 0, rs_Key = [], rs_Value = [], rs_ExpiresAt = 0\<rparr>),
     (OpReplicationAck, \<lambda>_. MReplicationAck \<lparr>ra_LastAppliedIndex = 0\<rparr>),
     (OpReplicationJoin, \<lambda>_. MReplicationJoin \<lparr>rj_NodeAddr = []\<rparr>),
     (OpHeartbeat, \<lambda>_. MHeartbeat \<lparr>hb_Term = 0, hb_LeaderID = []\<rparr>),
     (OpHeartbeatAck, \<lambda>_. MHeartbeatAck \<lparr>ha_Term = 0, ha_LastAppliedIndex = 0\<rparr>),
     (OpVoteRequest, \<lambda>_. MVoteRequest \<lparr>vr_Term = 0, vr_CandidateID = [], vr_LastLogIndex = 0\<rparr>),
     (OpVoteResponse, \<lambda>_. MVoteResponse \<lparr>vs_Term = 0, vs_Granted = False\<rparr>),
     (OpError, \<lambda>_. MErrorMessage \<lparr>em_Code = 0, em_Message = []\<rparr>)]"

fun run_inits :: "(byte \<times> (unit \<Rightarrow> Message)) list \<Rightarrow> registry \<Rightarrow> registry option" where
  "run_inits [] reg = Some reg"
| "run_inits ((op, f) # rest) reg =
     (case Register op f reg of None \<Rightarrow> None | Some reg' \<Rightarrow> run_inits rest reg')"

section \<open>The message codec\<close>

definition EncodeMessage :: "Message \<Rightarrow> (ProtoError, bytes) go" where
  "EncodeMessage msg =
     (case Message_Encode msg of
        Err e \<Rightarrow> Err (EncodeErr (OpCode msg) e)
      | Panic \<Rightarrow> Panic
      | Ok payload \<Rightarrow>
          (let wire = make_buf (1 + length payload);
               wire = copy_at 0 [OpCode msg] wire
           in Ok (copy_at 1 payload wire)))"

definition DecodeMessage :: "registry \<Rightarrow> bytes \<Rightarrow> (ProtoError, Message) go" where
  "DecodeMessage reg data =
     (if length data < 1 then Err ErrPayloadTooShort
      else at_index data 0 (\<lambda>opcode.
             case Lookup reg opcode of
               None \<Rightarrow> Err (ErrUnknownOpCode opcode)
             | Some msg \<Rightarrow>
                 at_slice data 1 (length data) (\<lambda>payload.
                   case Message_Decode msg payload of
                     Err e \<Rightarrow> Err (DecodeErr opcode e)
                   | Panic \<Rightarrow> Panic
                   | Ok m \<Rightarrow> Ok m)))"

text \<open>The registry after all \<open>init\<close> functions have run.\<close>

definition the_registry :: registry where
  "the_registry = (case run_inits registrations [] of Some reg \<Rightarrow> reg | None \<Rightarrow> [])"

text \<open>The messages the wire format can carry: every variable-length field fits its length field,
  and in the \<open>kv\<close> messages the field also stays clear of the wrap-around of the slice bound.\<close>

fun Message_valid :: "Message \<Rightarrow> bool" where
  "Message_valid (MGetRequest m) = GetRequest_valid m"
| "Message_valid (MSetRequest m) = SetRequest_valid m"
| "Message_valid (MDeleteRequest m) = DeleteRequest_valid m"
| "Message_valid (MGetResponse m) = GetResponse_valid m"
| "Message_valid (MSetResponse m) = SetResponse_valid m"
| "Message_valid (MDeleteResponse m) = DeleteResponse_valid m"
| "Message_valid (MTopologyRequest m) = True"
| "Message_valid (MTopologyResponse m) = TopologyResponse_valid m"
| "Message_valid (MReplicationSync m) = ReplicationSync_valid m"
| "Message_valid (MReplicationAck m) = True"
| "Message_valid (MReplicationJoin m) = ReplicationJoin_valid m"
| "Message_valid (MHeartbeat m) = Heartbeat_valid m"
| "Message_valid (MHeartbeatAck m) = True"
| "Message_valid (MVoteRequest m) = VoteRequest_valid m"
| "Message_valid (MVoteResponse m) = True"
| "Message_valid (MErrorMessage m) = ErrorMessage_valid m"

text \<open>The payloads on which a slice bound of \<open>protocol/kv\<close> wraps: \<open>lenField\<close> is the value of the
  16-bit length field and \<open>limit\<close> the first value for which adding the header size wraps.\<close>

definition bound_wraps :: "byte \<Rightarrow> bytes \<Rightarrow> bool" where
  "bound_wraps op p \<longleftrightarrow>
     (if op = OpGet \<or> op = OpDelete then
        65534 \<le> unat (Uint16 (sub p 0 2)) \<and> 2 + unat (Uint16 (sub p 0 2)) \<le> length p
      else if op = OpSet then
        65522 \<le> unat (Uint16 (sub p 0 2)) \<and>
        14 + unat (Uint16 (sub p 0 2)) + unat (Uint32 (sub p 2 6)) \<le> length p
      else if op = OpSetResponse \<or> op = OpDeleteResponse then
        65533 \<le> unat (Uint16 (sub p 1 3)) \<and> 3 + unat (Uint16 (sub p 1 3)) \<le> length p
      else if op = OpGetResponse then
        4294967291 \<le> unat (Uint32 (sub p 1 5)) \<and> 5 + unat (Uint32 (sub p 1 5)) \<le> length p
      else False)"

section \<open>The documented layouts\<close>

text \<open>The wire format as \<open>protocol/protocol.txt\<close>, \<open>TECHNICAL.md\<close> and the comments of the message files give it,
  written down apart from the encoders: the opcode byte, then the fields in their documented order, integers
  big-endian in the documented number of bytes and a length before each field of variable length.\<close>

primrec big_endian :: "nat \<Rightarrow> nat \<Rightarrow> bytes" where
  "big_endian 0 n = []"
| "big_endian (Suc k) n = word_of_nat (n div 256 ^ k) # big_endian k n"

definition len2 :: "bytes \<Rightarrow> bytes" where
  "len2 b = big_endian 2 (length b)"

definition len4 :: "bytes \<Rightarrow> bytes" where
  "len4 b = big_endian 4 (length b)"

definition int8 :: "u64 \<Rightarrow> bytes" where
  "int8 w = big_endian 8 (unat w)"

definition flag :: "bool \<Rightarrow> bytes" where
  "flag b = [if b then 0x01 else 0x00]"

definition node_format :: "NodeInfo \<Rightarrow> bytes" where
  "node_format n = len2 (ni_Address n) @ ni_Address n @ [ni_Role n] @ len2 (ni_NodeID n) @ ni_NodeID n"

fun wire_format :: "Message \<Rightarrow> bytes" where
  "wire_format (MGetRequest m) = [0x01] @ len2 (gr_Key m) @ gr_Key m"
| "wire_format (MSetRequest m) =
     [0x02] @ len2 (sr_Key m) @ len4 (sr_Value m) @ int8 (sr_TTL m) @ sr_Key m @ sr_Value m"
| "wire_format (MDeleteRequest m) = [0x03] @ len2 (dr_Key m) @ dr_Key m"
| "wire_format (MGetResponse m) = [0x04] @ flag (gs_Found m) @ len4 (gs_Value m) @ gs_Value m"
| "wire_format (MSetResponse m) = [0x05] @ flag (ss_Success m) @ len2 (ss_Message m) @ ss_Message m"
| "wire_format (MDeleteResponse m) = [0x06] @ flag (ds_Success m) @ len2 (ds_Message m) @ ds_Message m"
| "wire_format (MTopologyRequest m) = [0x10]"
| "wire_format (MTopologyResponse m) =
     [0x11] @ len2 (tr_LeaderAddr m) @ tr_LeaderAddr m @ big_endian 2 (length (tr_Nodes m)) @ concat (map node_format (tr_Nodes m))"
| "wire_format (MReplicationSync m) =
     [0x20] @ int8 (rs_LogIndex m) @ [rs_Op m] @ len2 (rs_Key m) @ len4 (rs_Value m) @ int8 (rs_ExpiresAt m) @
     rs_Key m @ rs_Value m"
| "wire_format (MReplicationAck m) = [0x21] @ int8 (ra_LastAppliedIndex m)"
| "wire_format (MReplicationJoin m) = [0x22] @ len2 (rj_NodeAddr m) @ rj_NodeAddr m"
| "wire_format (MHeartbeat m) = [0x30] @ int8 (hb_Term m) @ len2 (hb_LeaderID m) @ hb_LeaderID m"
| "wire_format (MHeartbeatAck m) = [0x31] @ int8 (ha_Term m) @ int8 (ha_LastAppliedIndex m)"
| "wire_format (MVoteRequest m) =
     [0x40] @ int8 (vr_Term m) @ len2 (vr_CandidateID m) @ vr_CandidateID m @ int8 (vr_LastLogIndex m)"
| "wire_format (MVoteResponse m) = [0x41] @ int8 (vs_Term m) @ flag (vs_Granted m)"
| "wire_format (MErrorMessage m) = [0xFE] @ big_endian 2 (unat (em_Code m)) @ len2 (em_Message m) @ em_Message m"

section \<open>Lemmas\<close>

lemma big_endian_snoc: "big_endian (Suc k) n = big_endian k (n div 256) @ [word_of_nat n]"
  by (induction k) (simp_all add: div_mult2_eq)

lemma be_put_big_endian: "be_put k w = big_endian k (unat w)"
proof (induction k arbitrary: w)
  case (Suc k)
  have "unat (drop_bit 8 w) = unat w div 256" by (subst unat_drop_bit_eq) (simp add: drop_bit_eq_div)
  with Suc show ?case by (simp only: be_put.simps big_endian_snoc of_nat_unat)
qed simp

lemma big_endian_numeral:
  "big_endian (numeral k) n = word_of_nat (n div 256 ^ pred_numeral k) # big_endian (pred_numeral k) n"
  by (simp add: numeral_eq_Suc)

lemma put_lengths:
  "length b < 65536 \<Longrightarrow> PutUint16 (word_of_nat (length b)) = big_endian 2 (length b)"
  "length b < 4294967296 \<Longrightarrow> PutUint32 (word_of_nat (length b)) = big_endian 4 (length b)"
  by (simp_all add: PutUint16_def PutUint32_def be_put_big_endian)

lemma node_layout_format: "NodeInfo_valid n \<Longrightarrow> node_layout n = node_format n"
  by (simp add: node_layout_def node_format_def len2_def put_lengths NodeInfo_valid_def)

lemma node_layouts_format: "list_all NodeInfo_valid ns \<Longrightarrow> concat (map node_layout ns) = concat (map node_format ns)"
  by (induction ns) (simp_all add: node_layout_format)

lemmas encode_layouts =
  GetRequest_Encode_layout SetRequest_Encode_layout DeleteRequest_Encode_layout GetResponse_Encode_layout
  SetResponse_Encode_layout DeleteResponse_Encode_layout TopologyRequest_Encode_def TopologyResponse_Encode_layout
  ReplicationSync_Encode_layout ReplicationAck_Encode_layout ReplicationJoin_Encode_layout Heartbeat_Encode_layout
  HeartbeatAck_Encode_layout VoteRequest_Encode_layout VoteResponse_Encode_layout ErrorMessage_Encode_layout

lemmas valid_defs =
  GetRequest_valid_def SetRequest_valid_def DeleteRequest_valid_def GetResponse_valid_def SetResponse_valid_def
  DeleteResponse_valid_def TopologyResponse_valid_def ReplicationSync_valid_def ReplicationJoin_valid_def
  Heartbeat_valid_def VoteRequest_valid_def ErrorMessage_valid_def

lemmas format_defs = len2_def len4_def int8_def flag_def put_lengths node_layouts_format PutUint64_def PutUint16_def
  be_put_big_endian

lemma run_inits_map_of:
  "distinct (map fst regs) \<Longrightarrow> fst ` set regs \<inter> fst ` set reg = {} \<Longrightarrow>
   \<exists>reg'. run_inits regs reg = Some reg' \<and> gomap_get reg' = gomap_get reg ++ map_of regs"
proof (induction regs arbitrary: reg)
  case Nil
  then show ?case by simp
next
  case (Cons r regs)
  obtain op f where r: "r = (op, f)" by (cases r)
  from Cons.prems r have "gomap_get reg op = None"
    by (auto simp: map_of_eq_None_iff)
  then have reg: "Register op f reg = Some (gomap_set op f reg)"
    by (simp add: Register_def)
  have "fst ` set regs \<inter> fst ` set (gomap_set op f reg) = {}"
    using Cons.prems r by (auto simp: dom_update)
  then obtain reg' where "run_inits regs (gomap_set op f reg) = Some reg'"
    and "gomap_get reg' = gomap_get (gomap_set op f reg) ++ map_of regs"
    using Cons.IH [of "gomap_set op f reg"] Cons.prems(1) by auto
  moreover have "op \<notin> fst ` set regs" using Cons.prems(1) r by simp
  ultimately show ?case
    using reg r by (auto simp: update_conv' fun_eq_iff map_add_def map_of_eq_None_iff split: option.splits)
qed

lemma distinct_registrations: "distinct (map fst registrations)"
  by (simp add: registrations_def opcode_defs)

lemma the_registry_get: "gomap_get the_registry = map_of registrations"
  using run_inits_map_of [of registrations "[]"] distinct_registrations
  by (auto simp: the_registry_def)

lemma Lookup_registry:
  "Lookup the_registry op = map_option (\<lambda>f. f ()) (map_of registrations op)"
  by (simp add: Lookup_def the_registry_get split: option.splits)

lemma Lookup_OpCode:
  "\<exists>m'. Lookup the_registry (OpCode m) = Some m' \<and> OpCode m' = OpCode m \<and>
     Message_Decode m' = Message_Decode m"
  by (cases m) (simp_all add: Lookup_registry registrations_def opcode_defs fun_eq_iff)

lemma EncodeMessage_layout:
  "EncodeMessage m = (case Message_Encode m of
     Err e \<Rightarrow> Err (EncodeErr (OpCode m) e) | Panic \<Rightarrow> Panic | Ok p \<Rightarrow> Ok (OpCode m # p))"
  by (auto simp: EncodeMessage_def Let_def buffer_simps split: go.split)

lemma EncodeMessage_format: "Message_valid m \<Longrightarrow> EncodeMessage m = Ok (wire_format m)"
  by (cases m) (simp_all add: EncodeMessage_layout encode_layouts valid_defs format_defs opcode_defs)

lemma DecodeMessage_cons:
  "DecodeMessage the_registry (OpCode m # payload) =
     (case Message_Decode m payload of
        Err e \<Rightarrow> Err (DecodeErr (OpCode m) e) | Panic \<Rightarrow> Panic | Ok m' \<Rightarrow> Ok m')"
  using Lookup_OpCode [of m] by (auto simp: DecodeMessage_def split: go.split)

lemmas dec_enc_facts =
  get_request_codec.dec_enc set_request_codec.dec_enc delete_request_codec.dec_enc
  get_response_codec.dec_enc set_response_codec.dec_enc delete_response_codec.dec_enc
  topology_request_codec.dec_enc topology_response_codec.dec_enc sync_codec.dec_enc
  ack_codec.dec_enc join_codec.dec_enc heartbeat_codec.dec_enc heartbeat_ack_codec.dec_enc
  vote_request_codec.dec_enc vote_response_codec.dec_enc error_codec.dec_enc

lemmas dec_short_facts =
  get_request_codec.dec_short set_request_codec.dec_short delete_request_codec.dec_short
  get_response_codec.dec_short set_response_codec.dec_short delete_response_codec.dec_short
  topology_request_codec.dec_short topology_response_codec.dec_short sync_codec.dec_short
  ack_codec.dec_short join_codec.dec_short heartbeat_codec.dec_short heartbeat_ack_codec.dec_short
  vote_request_codec.dec_short vote_response_codec.dec_short error_codec.dec_short

text \<open>The per-type contracts, gathered over the dynamic type.\<close>

lemma Message_Encode_Ok: obtains p where "Message_Encode m = Ok p"
  by (cases m) auto

lemma Message_Decode_Encode:
  assumes "Message_valid m" and "Message_Encode m = Ok p"
  shows "Message_Decode m (p @ junk) = Ok m"
  using assms by (cases m) (auto simp: dec_enc_facts)

lemma Message_Decode_short:
  assumes "Message_valid m" and "Message_Encode m = Ok p" and "n < length p"
  shows "Message_Decode m (take n p) = Err ErrPayloadTooShort"
  using assms by (cases m) (auto simp: dec_short_facts)

lemma DecodeMessage_EncodeMessage:
  assumes "Message_valid m" and "EncodeMessage m = Ok w"
  shows "DecodeMessage the_registry (w @ junk) = Ok m"
proof -
  obtain p where p: "Message_Encode m = Ok p" by (rule Message_Encode_Ok)
  with assms(2) have "w = OpCode m # p" by (simp add: EncodeMessage_layout)
  with Message_Decode_Encode [OF assms(1) p, of junk] show ?thesis
    by (simp add: DecodeMessage_cons)
qed

lemma Message_Decode_Panic: "Message_Decode m p = Panic \<longleftrightarrow> bound_wraps (OpCode m) p"
proof -
  have go_map_Panic: "go_map f x = Panic \<longleftrightarrow> x = Panic" for f :: "'x \<Rightarrow> 'y" and x :: "('z, 'x) go"
    by (cases x) simp_all
  show ?thesis
    by (cases m)
      (simp_all add: go_map_Panic bound_wraps_def opcode_defs GetRequest_Decode_Panic SetRequest_Decode_Panic
        GetResponse_Decode_Panic SetResponse_Decode_Panic DeleteRequest_Decode_Panic
        DeleteResponse_Decode_Panic cluster_decoders_total client_decoders_total error_decoder_total)
qed

lemma Lookup_Some_OpCode: "Lookup the_registry op = Some m \<Longrightarrow> OpCode m = op"
  by (auto simp: Lookup_registry registrations_def split: if_splits)

lemma bound_wraps_registered: "bound_wraps op p \<Longrightarrow> \<exists>m. Lookup the_registry op = Some m"
  by (auto simp: bound_wraps_def Lookup_registry registrations_def split: if_splits)

lemma DecodeMessage_Panic: "DecodeMessage the_registry (op # p) = Panic \<longleftrightarrow> bound_wraps op p"
proof (cases "Lookup the_registry op")
  case None
  with bound_wraps_registered [of op p] show ?thesis by (auto simp: DecodeMessage_def)
next
  case (Some m)
  with Lookup_Some_OpCode [OF Some] Message_Decode_Panic [of m p] show ?thesis
    by (auto simp: DecodeMessage_def split: go.splits)
qed

text \<open>The encoder accepts a GET whose key has 65534 or 65535 bytes and a decoder that
  receives the result panics: the bound \<open>2+keyLen\<close> wraps to 0 or 1.\<close>

lemma GetRequest_long_key:
  assumes "65534 \<le> length k" and "length k < 65536"
  shows "\<exists>w. EncodeMessage (MGetRequest \<lparr>gr_Key = k\<rparr>) = Ok w \<and> DecodeMessage the_registry w = Panic"
proof -
  let ?p = "PutUint16 (word_of_nat (length k)) @ k"
  have "EncodeMessage (MGetRequest \<lparr>gr_Key = k\<rparr>) = Ok (OpGet # ?p)"
    by (simp add: EncodeMessage_layout GetRequest_Encode_layout)
  moreover have "Message_Decode (MGetRequest \<lparr>gr_Key = k\<rparr>) ?p = Panic"
    using assms by (simp only: Message_Decode_Panic) (simp add: bound_wraps_def)
  ultimately show ?thesis
    using DecodeMessage_cons [of "MGetRequest \<lparr>gr_Key = k\<rparr>" ?p] by simp
qed

section \<open>Properties\<close>

text \<open>C5 (roundtrip): a message whose fields fit the wire format is encoded to exactly the bytes that the
  documentation gives for it, opcode, order of the fields, widths and byte order included, and decoding those bytes
  through the registry gives the message back.\<close>

theorem message_round_trip:
  assumes "Message_valid m"
  shows "EncodeMessage m = Ok (wire_format m) \<and> DecodeMessage the_registry (wire_format m) = Ok m"
  using EncodeMessage_format [OF assms] DecodeMessage_EncodeMessage [OF assms, of _ "[]"] by simp

theorem message_round_trip_witness:
  "EncodeMessage (MSetRequest \<lparr>sr_Key = [1, 2], sr_Value = [7], sr_TTL = 12345\<rparr>) =
     Ok [0x02, 0, 2, 0, 0, 0, 1, 0, 0, 0, 0, 0, 0, 0x30, 0x39, 1, 2, 7] \<and>
   DecodeMessage the_registry [0x02, 0, 2, 0, 0, 0, 1, 0, 0, 0, 0, 0, 0, 0x30, 0x39, 1, 2, 7] =
     Ok (MSetRequest \<lparr>sr_Key = [1, 2], sr_Value = [7], sr_TTL = 12345\<rparr>)"
proof -
  have "(12345 :: byte) = 0x39" by simp
  with message_round_trip [of "MSetRequest \<lparr>sr_Key = [1, 2], sr_Value = [7], sr_TTL = 12345\<rparr>"] show ?thesis
    by (simp add: SetRequest_valid_def len2_def len4_def int8_def big_endian_numeral)
qed

text \<open>A wire message cut anywhere after its opcode is refused, and the error is
  \<open>ErrPayloadTooShort\<close> under its wrapping; no truncation makes a decoder panic.\<close>

lemma message_truncated:
  assumes "Message_valid m" and "EncodeMessage m = Ok w" and "1 \<le> n" and "n < length w"
  shows "\<exists>e. DecodeMessage the_registry (take n w) = Err e \<and> Is_ErrPayloadTooShort e"
proof -
  obtain p where p: "Message_Encode m = Ok p" by (rule Message_Encode_Ok)
  with assms(2) have w: "w = OpCode m # p" by (simp add: EncodeMessage_layout)
  then have "take n w = OpCode m # take (n - 1) p"
    using assms(3) by (cases n) simp_all
  moreover have "Message_Decode m (take (n - 1) p) = Err ErrPayloadTooShort"
    using assms(1,3,4) p w by (intro Message_Decode_short) auto
  ultimately show ?thesis by (simp add: DecodeMessage_cons)
qed

text \<open>C35 (error): decoding panics exactly on the payloads where a slice bound of \<open>protocol/kv\<close>
  wraps around; on every other input, of any length and content, it returns a message or an error.\<close>

theorem decode_panics_iff:
  "DecodeMessage the_registry data = Panic \<longleftrightarrow> (\<exists>op p. data = op # p \<and> bound_wraps op p)"
proof (cases data)
  case Nil
  then show ?thesis by (simp add: DecodeMessage_def)
next
  case (Cons op p)
  then show ?thesis by (simp add: DecodeMessage_Panic)
qed

text \<open>The sixteen registrations made by the \<open>init\<close> functions never hit the panic of
  \<open>Register\<close> in whatever order the packages are initialised, and always build the same registry.\<close>

lemma init_any_order:
  assumes "distinct (map fst regs)" and "set regs = set registrations"
  shows "\<exists>reg. run_inits regs [] = Some reg \<and> Lookup reg = Lookup the_registry"
proof -
  obtain reg where reg: "run_inits regs [] = Some reg" and "gomap_get reg = map_of regs"
    using run_inits_map_of [of regs "[]"] assms(1) by auto
  moreover have "map_of regs = map_of registrations"
    using assms distinct_registrations by (intro map_of_eqI) (auto dest: map_of_SomeD)
  ultimately have "gomap_get reg = gomap_get the_registry"
    by (simp add: the_registry_get)
  with reg show ?thesis by (auto simp: Lookup_def fun_eq_iff)
qed

end
