(* ===== verification/Raft.thy ===== *)
theory Raft
  imports Protocol
begin

text \<open>
  The consensus state of one node: \<open>cluster/raft.go\<close>. Every critical section under \<open>RaftState.mu\<close> is a
  function on the state; the methods that leave the lock and come back (\<open>runCandidate\<close>, \<open>runLeader\<close>,
  \<open>requestVoteRPC\<close>) are split where they do. How the sections of the goroutines of all nodes interleave
  is the subject of the theory Election.
\<close>

section \<open>State\<close>

datatype Role = RoleFollower | RoleCandidate | RoleLeader

text \<open>\<open>rf_heartbeatCh\<close> says whether the channel, of capacity one, holds a token.\<close>

record RaftState =
  rf_nodeAddr :: bytes
  rf_peers :: "bytes list"
  rf_currentTerm :: u64
  rf_votedFor :: bytes
  rf_role :: Role
  rf_leaderAddr :: bytes
  rf_heartbeatCh :: bool

definition NewRaftState :: "bytes \<Rightarrow> bytes list \<Rightarrow> RaftState" where
  "NewRaftState nodeAddr peers =
     \<lparr>rf_nodeAddr = nodeAddr, rf_peers = peers, rf_currentTerm = 0, rf_votedFor = [],
      rf_role = RoleFollower, rf_leaderAddr = [], rf_heartbeatCh = False\<rparr>"

text \<open>Which role-change callback an operation calls after it has released the lock.\<close>

datatype callback = NoCallback | OnLeader | OnFollower

section \<open>Messages from peers\<close>

text \<open>The non-blocking send on \<open>heartbeatCh\<close>.\<close>

definition signal_heartbeat :: "RaftState \<Rightarrow> RaftState" where
  "signal_heartbeat r = r\<lparr>rf_heartbeatCh := True\<rparr>"

definition HandleHeartbeat :: "u64 \<Rightarrow> bytes \<Rightarrow> RaftState \<Rightarrow> callback \<times> RaftState" where
  "HandleHeartbeat term leaderID r =
     (if term < rf_currentTerm r then (NoCallback, r)
      else let wasLeader = (rf_role r = RoleLeader);
               r = (if term > rf_currentTerm r then r\<lparr>rf_currentTerm := term, rf_votedFor := []\<rparr> else r);
               r = r\<lparr>rf_leaderAddr := leaderID, rf_role := RoleFollower\<rparr>
           in (if wasLeader then OnFollower else NoCallback, signal_heartbeat r))"

text \<open>The answer, the callback and the new state.\<close>

definition HandleVoteRequest :: "VoteRequest \<Rightarrow> RaftState \<Rightarrow> (bool \<times> u64) \<times> callback \<times> RaftState" where
  "HandleVoteRequest req r =
     (if vr_Term req < rf_currentTerm r then ((False, rf_currentTerm r), NoCallback, r)
      else if rf_role r = RoleLeader \<and> vr_Term req = rf_currentTerm r then ((False, rf_currentTerm r), NoCallback, r)
      else let wasLeader = (rf_role r = RoleLeader);
               r = (if vr_Term req > rf_currentTerm r
                    then r\<lparr>rf_currentTerm := vr_Term req, rf_votedFor := [], rf_role := RoleFollower\<rparr> else r)
           in if rf_votedFor r = [] \<or> rf_votedFor r = vr_CandidateID req
              then let r = r\<lparr>rf_votedFor := vr_CandidateID req\<rparr>
                   in ((True, rf_currentTerm r), if wasLeader then OnFollower else NoCallback, signal_heartbeat r)
              else ((False, rf_currentTerm r), NoCallback, r))"

definition GetLeaderAddr :: "RaftState \<Rightarrow> bytes" where
  "GetLeaderAddr r = rf_leaderAddr r"

definition GetRole :: "RaftState \<Rightarrow> Role" where
  "GetRole r = rf_role r"

definition GetTerm :: "RaftState \<Rightarrow> u64" where
  "GetTerm r = rf_currentTerm r"

definition GetPeers :: "RaftState \<Rightarrow> bytes list" where
  "GetPeers r = rf_peers r"

section \<open>The state machine of \<open>run\<close>\<close>

definition otherPeers :: "RaftState \<Rightarrow> bytes list" where
  "otherPeers r = filter (\<lambda>p. p \<noteq> rf_nodeAddr r) (rf_peers r)"

text \<open>The two cases of \<open>runFollower\<close>: a token, \<open>None\<close> while there is none, and the election timeout.\<close>

definition runFollower_heartbeat :: "RaftState \<Rightarrow> RaftState option" where
  "runFollower_heartbeat r = (if rf_heartbeatCh r then Some (r\<lparr>rf_heartbeatCh := False\<rparr>) else None)"

definition runFollower_timeout :: "RaftState \<Rightarrow> RaftState" where
  "runFollower_timeout r = r\<lparr>rf_role := RoleCandidate\<rparr>"

text \<open>The first section of \<open>runCandidate\<close>: the term of the election, the peers to ask, the new state.\<close>

definition runCandidate_begin :: "RaftState \<Rightarrow> u64 \<times> bytes list \<times> RaftState" where
  "runCandidate_begin r =
     (let r = r\<lparr>rf_currentTerm := rf_currentTerm r + 1, rf_votedFor := rf_nodeAddr r\<rparr>
      in (rf_currentTerm r, otherPeers r, r))"

text \<open>The case \<open>heartbeatCh\<close> of its \<open>select\<close>.\<close>

definition runCandidate_heartbeat :: "RaftState \<Rightarrow> RaftState option" where
  "runCandidate_heartbeat r =
     (if rf_heartbeatCh r then Some (r\<lparr>rf_heartbeatCh := False, rf_role := RoleFollower\<rparr>) else None)"

definition quorum :: "bytes list \<Rightarrow> nat" where
  "quorum peers = length peers div 2 + 1"

text \<open>Its last section, with the number of votes counted.\<close>

definition runCandidate_end :: "u64 \<Rightarrow> nat \<Rightarrow> RaftState \<Rightarrow> callback \<times> RaftState" where
  "runCandidate_end term got r =
     (if rf_role r \<noteq> RoleCandidate \<or> rf_currentTerm r \<noteq> term then (NoCallback, r)
      else if got \<ge> quorum (rf_peers r)
      then (OnLeader, r\<lparr>rf_role := RoleLeader, rf_leaderAddr := rf_nodeAddr r\<rparr>)
      else (NoCallback, r\<lparr>rf_role := RoleFollower\<rparr>))"

text \<open>The top of the loop of \<open>runLeader\<close>, \<open>None\<close> where it returns, and the case \<open>heartbeatCh\<close> with
  whether the loop goes on.\<close>

definition runLeader_top :: "RaftState \<Rightarrow> (u64 \<times> bytes list) option" where
  "runLeader_top r = (if rf_role r \<noteq> RoleLeader then None else Some (rf_currentTerm r, otherPeers r))"

definition runLeader_heartbeat :: "RaftState \<Rightarrow> (bool \<times> RaftState) option" where
  "runLeader_heartbeat r =
     (if rf_heartbeatCh r then Some (rf_role r = RoleLeader, r\<lparr>rf_heartbeatCh := False\<rparr>) else None)"

section \<open>Calls to peers\<close>

text \<open>\<open>requestVoteRPC\<close> sends this request; when an answer of the right type arrives it runs a last
  section and returns whether the vote was granted. Every failure on the way returns false.\<close>

definition vote_request :: "RaftState \<Rightarrow> u64 \<Rightarrow> VoteRequest" where
  "vote_request r term = \<lparr>vr_Term = term, vr_CandidateID = rf_nodeAddr r, vr_LastLogIndex = 0\<rparr>"

definition requestVoteRPC_reply :: "VoteResponse \<Rightarrow> RaftState \<Rightarrow> bool \<times> RaftState" where
  "requestVoteRPC_reply resp r =
     (let r = (if vs_Term resp > rf_currentTerm r
               then r\<lparr>rf_currentTerm := vs_Term resp, rf_role := RoleFollower, rf_votedFor := []\<rparr> else r)
      in (vs_Granted resp, r))"

definition heartbeat_message :: "RaftState \<Rightarrow> u64 \<Rightarrow> Heartbeat" where
  "heartbeat_message r term = \<lparr>hb_Term = term, hb_LeaderID = rf_nodeAddr r\<rparr>"

text \<open>\<open>randomTimeout\<close>, in nanoseconds; \<open>int63n\<close> is \<open>rand.Int63n\<close>.\<close>

definition electionTimeoutMin :: duration where "electionTimeoutMin = 150 * 1000000"
definition electionTimeoutMax :: duration where "electionTimeoutMax = 300 * 1000000"
definition heartbeatInterval :: duration where "heartbeatInterval = 50 * 1000000"

definition randomTimeout :: "(int \<Rightarrow> int) \<Rightarrow> duration" where
  "randomTimeout int63n = (let d = electionTimeoutMax - electionTimeoutMin in electionTimeoutMin + int63n d)"

section \<open>Lemmas\<close>

text \<open>The fields an operation keeps, and how terms, votes and roles move.\<close>

named_theorems raft_ops \<open>definitions of the operations on a raft state\<close>

lemmas raft_defs [raft_ops] = HandleHeartbeat_def HandleVoteRequest_def signal_heartbeat_def runFollower_heartbeat_def
  runFollower_timeout_def runCandidate_begin_def runCandidate_heartbeat_def runCandidate_end_def runLeader_top_def
  runLeader_heartbeat_def requestVoteRPC_reply_def

text \<open>A granted vote is cast in the term of the request, for its candidate, by a node that had not
  voted for another one in that term.\<close>

lemma HandleVoteRequest_granted:
  assumes "HandleVoteRequest q r = ((True, t), cb, r')"
  shows "t = vr_Term q \<and> rf_currentTerm r' = vr_Term q \<and> rf_votedFor r' = vr_CandidateID q \<and>
    (rf_currentTerm r = vr_Term q \<longrightarrow> rf_votedFor r = [] \<or> rf_votedFor r = vr_CandidateID q)"
  using assms by (auto simp: raft_ops Let_def split: if_splits)

text \<open>How an operation may move a state without casting a vote, and without making a leader.\<close>

definition vote_kept :: "RaftState \<Rightarrow> RaftState \<Rightarrow> bool" where
  "vote_kept r r' \<longleftrightarrow> rf_currentTerm r \<le> rf_currentTerm r' \<and>
     (rf_currentTerm r' = rf_currentTerm r \<longrightarrow> rf_votedFor r' = rf_votedFor r)"

definition lead_kept :: "RaftState \<Rightarrow> RaftState \<Rightarrow> bool" where
  "lead_kept r r' \<longleftrightarrow> (rf_role r' = RoleLeader \<longrightarrow> rf_role r = RoleLeader \<and> rf_currentTerm r' = rf_currentTerm r)"

named_theorems raft_kept \<open>operations that cast no vote and make no leader\<close>

lemma HandleHeartbeat_kept [raft_kept]:
  "HandleHeartbeat t l r = (cb, r') \<Longrightarrow> vote_kept r r' \<and> lead_kept r r' \<and> rf_nodeAddr r' = rf_nodeAddr r \<and> rf_peers r' = rf_peers r"
  by (auto simp: raft_ops Let_def vote_kept_def lead_kept_def split: if_splits)

lemma HandleVoteRequest_kept:
  "HandleVoteRequest q r = (a, cb, r') \<Longrightarrow>
   rf_currentTerm r \<le> rf_currentTerm r' \<and> lead_kept r r' \<and> rf_nodeAddr r' = rf_nodeAddr r \<and> rf_peers r' = rf_peers r"
  by (auto simp: raft_ops Let_def lead_kept_def split: if_splits)

lemma HandleVoteRequest_denied_kept:
  "HandleVoteRequest q r = ((False, t), cb, r') \<Longrightarrow> vote_kept r r'"
  by (auto simp: raft_ops Let_def vote_kept_def split: if_splits)

lemma requestVoteRPC_reply_kept [raft_kept]:
  "requestVoteRPC_reply v r = (g, r') \<Longrightarrow>
   vote_kept r r' \<and> lead_kept r r' \<and> rf_nodeAddr r' = rf_nodeAddr r \<and> rf_peers r' = rf_peers r"
  by (auto simp: raft_ops Let_def vote_kept_def lead_kept_def split: if_splits)

lemma runFollower_heartbeat_kept [raft_kept]:
  "runFollower_heartbeat r = Some r' \<Longrightarrow>
   vote_kept r r' \<and> lead_kept r r' \<and> rf_nodeAddr r' = rf_nodeAddr r \<and> rf_peers r' = rf_peers r"
  by (auto simp: raft_ops vote_kept_def lead_kept_def split: if_splits)

lemma runFollower_timeout_kept [raft_kept]:
  "vote_kept r (runFollower_timeout r) \<and> lead_kept r (runFollower_timeout r) \<and>
   rf_nodeAddr (runFollower_timeout r) = rf_nodeAddr r \<and> rf_peers (runFollower_timeout r) = rf_peers r"
  by (auto simp: raft_ops vote_kept_def lead_kept_def)

lemma runCandidate_heartbeat_kept [raft_kept]:
  "runCandidate_heartbeat r = Some r' \<Longrightarrow>
   vote_kept r r' \<and> lead_kept r r' \<and> rf_nodeAddr r' = rf_nodeAddr r \<and> rf_peers r' = rf_peers r"
  by (auto simp: raft_ops vote_kept_def lead_kept_def split: if_splits)

lemma runLeader_heartbeat_kept [raft_kept]:
  "runLeader_heartbeat r = Some (go, r') \<Longrightarrow>
   vote_kept r r' \<and> lead_kept r r' \<and> rf_nodeAddr r' = rf_nodeAddr r \<and> rf_peers r' = rf_peers r"
  by (auto simp: raft_ops vote_kept_def lead_kept_def split: if_splits)

lemma runCandidate_end_kept:
  "runCandidate_end t got r = (cb, r') \<Longrightarrow> vote_kept r r' \<and> rf_nodeAddr r' = rf_nodeAddr r \<and> rf_peers r' = rf_peers r"
  by (auto simp: raft_ops vote_kept_def split: if_splits)

lemma runCandidate_end_leader:
  "runCandidate_end t got r = (cb, r') \<Longrightarrow> rf_role r' = RoleLeader \<Longrightarrow> rf_role r \<noteq> RoleLeader \<Longrightarrow>
   rf_currentTerm r' = t \<and> quorum (rf_peers r) \<le> got"
  by (auto simp: raft_ops split: if_splits)

end
