(* ===== verification/Election.thy ===== *)
theory Election
  imports Raft
begin

text \<open>
  The nodes of a cluster together: the goroutine of \<open>run\<close>, the goroutines of the vote and heartbeat
  calls and the handlers of incoming messages of all nodes, interleaved at the granularity of the
  critical sections of \<open>cluster/raft.go\<close>. Messages may be lost, delayed and overtaken; an answer that
  comes too late is dropped. Timeouts may fire at any time.

  The main theorem is election safety: two leaders of the same term are the same node.
\<close>

section \<open>The cluster\<close>

text \<open>Where the goroutine of \<open>run\<close> is: at the top of its loop, in the \<open>select\<close> of \<open>runFollower\<close>, before
  the first section of \<open>runCandidate\<close>, in its \<open>select\<close>, before its last section, at the top of the loop
  of \<open>runLeader\<close>, and in its \<open>select\<close>.\<close>

datatype pc = PRun | PFollower | PCandidate | PElection u64 | PCount u64 | PLeader | PHeartbeats u64 "bytes list"

text \<open>A call of \<open>requestVoteRPC\<close>: the request is under way, its answer is, or the call has returned.\<close>

datatype rpc = Sent | Answered VoteResponse | Finished

text \<open>A call is named by its candidate, term and peer; \<open>cl_votes\<close> is the variable \<open>votes\<close> of each election.
  \<open>cl_granted\<close> is history: who has voted for whom in which term.\<close>

record Cluster =
  cl_nodes :: "bytes \<Rightarrow> RaftState"
  cl_pc :: "bytes \<Rightarrow> pc"
  cl_rpc :: "bytes \<times> u64 \<times> bytes \<Rightarrow> rpc option"
  cl_votes :: "bytes \<times> u64 \<Rightarrow> nat"
  cl_heartbeats :: "(Heartbeat \<times> bytes) set"
  cl_granted :: "(bytes \<times> u64 \<times> bytes) set"

definition init_cluster :: "bytes list \<Rightarrow> Cluster" where
  "init_cluster peers =
     \<lparr>cl_nodes = (\<lambda>n. NewRaftState n peers), cl_pc = (\<lambda>_. PRun), cl_rpc = (\<lambda>_. None),
      cl_votes = (\<lambda>_. 0), cl_heartbeats = {}, cl_granted = {}\<rparr>"

fun run_target :: "Role \<Rightarrow> pc" where
  "run_target RoleFollower = PFollower"
| "run_target RoleCandidate = PCandidate"
| "run_target RoleLeader = PLeader"

inductive cstep :: "bytes list \<Rightarrow> Cluster \<Rightarrow> Cluster \<Rightarrow> bool" for peers where
  run_loop: "n \<in> set peers \<Longrightarrow> cl_pc s n = PRun \<Longrightarrow>
    cstep peers s (s\<lparr>cl_pc := (cl_pc s)(n := run_target (rf_role (cl_nodes s n)))\<rparr>)"
| follower_heartbeat: "n \<in> set peers \<Longrightarrow> cl_pc s n = PFollower \<Longrightarrow> runFollower_heartbeat (cl_nodes s n) = Some r \<Longrightarrow>
    cstep peers s (s\<lparr>cl_nodes := (cl_nodes s)(n := r), cl_pc := (cl_pc s)(n := PRun)\<rparr>)"
| follower_timeout: "n \<in> set peers \<Longrightarrow> cl_pc s n = PFollower \<Longrightarrow>
    cstep peers s (s\<lparr>cl_nodes := (cl_nodes s)(n := runFollower_timeout (cl_nodes s n)), cl_pc := (cl_pc s)(n := PRun)\<rparr>)"
| candidate_begin: "n \<in> set peers \<Longrightarrow> cl_pc s n = PCandidate \<Longrightarrow> runCandidate_begin (cl_nodes s n) = (t, others, r) \<Longrightarrow>
    cstep peers s
      (s\<lparr>cl_nodes := (cl_nodes s)(n := r), cl_pc := (cl_pc s)(n := PElection t),
         cl_rpc := (\<lambda>(c, u, p). if c = n \<and> u = t \<and> p \<in> set others then Some Sent else cl_rpc s (c, u, p)),
         cl_votes := (cl_votes s)((n, t) := 1), cl_granted := insert (n, t, n) (cl_granted s)\<rparr>)"
| deliver_request: "cl_rpc s (c, t, p) = Some Sent \<Longrightarrow>
    HandleVoteRequest (vote_request (cl_nodes s c) t) (cl_nodes s p) = ((g, u), cb, r) \<Longrightarrow>
    cstep peers s
      (s\<lparr>cl_nodes := (cl_nodes s)(p := r),
         cl_rpc := (cl_rpc s)((c, t, p) := Some (Answered \<lparr>vs_Term = u, vs_Granted = g\<rparr>)),
         cl_granted := (if g then insert (p, t, c) (cl_granted s) else cl_granted s)\<rparr>)"
| deliver_late: "cl_rpc s (c, t, p) = Some Finished \<Longrightarrow>
    HandleVoteRequest (vote_request (cl_nodes s c) t) (cl_nodes s p) = ((g, u), cb, r) \<Longrightarrow>
    cstep peers s
      (s\<lparr>cl_nodes := (cl_nodes s)(p := r),
         cl_granted := (if g then insert (p, t, c) (cl_granted s) else cl_granted s)\<rparr>)"
| receive_answer: "cl_rpc s (c, t, p) = Some (Answered resp) \<Longrightarrow>
    requestVoteRPC_reply resp (cl_nodes s c) = (g, r) \<Longrightarrow>
    cstep peers s
      (s\<lparr>cl_nodes := (cl_nodes s)(c := r), cl_rpc := (cl_rpc s)((c, t, p) := Some Finished),
         cl_votes := (cl_votes s)((c, t) := cl_votes s (c, t) + (if g then 1 else 0))\<rparr>)"
| call_fails: "cl_rpc s (c, t, p) = Some x \<Longrightarrow>
    cstep peers s (s\<lparr>cl_rpc := (cl_rpc s)((c, t, p) := Some Finished)\<rparr>)"
| candidate_heartbeat: "n \<in> set peers \<Longrightarrow> cl_pc s n = PElection t \<Longrightarrow> runCandidate_heartbeat (cl_nodes s n) = Some r \<Longrightarrow>
    cstep peers s (s\<lparr>cl_nodes := (cl_nodes s)(n := r), cl_pc := (cl_pc s)(n := PRun)\<rparr>)"
| candidate_wait: "n \<in> set peers \<Longrightarrow> cl_pc s n = PElection t \<Longrightarrow>
    cstep peers s (s\<lparr>cl_pc := (cl_pc s)(n := PCount t)\<rparr>)"
| candidate_end: "n \<in> set peers \<Longrightarrow> cl_pc s n = PCount t \<Longrightarrow>
    runCandidate_end t (cl_votes s (n, t)) (cl_nodes s n) = (cb, r) \<Longrightarrow>
    cstep peers s (s\<lparr>cl_nodes := (cl_nodes s)(n := r), cl_pc := (cl_pc s)(n := PRun)\<rparr>)"
| leader_top: "n \<in> set peers \<Longrightarrow> cl_pc s n = PLeader \<Longrightarrow>
    cstep peers s
      (s\<lparr>cl_pc := (cl_pc s)(n := (case runLeader_top (cl_nodes s n) of
                                   None \<Rightarrow> PRun | Some (t, others) \<Rightarrow> PHeartbeats t others))\<rparr>)"
| leader_tick: "n \<in> set peers \<Longrightarrow> cl_pc s n = PHeartbeats t others \<Longrightarrow>
    cstep peers s
      (s\<lparr>cl_heartbeats := cl_heartbeats s \<union> (\<lambda>p. (heartbeat_message (cl_nodes s n) t, p)) ` set others,
         cl_pc := (cl_pc s)(n := PLeader)\<rparr>)"
| leader_signal: "n \<in> set peers \<Longrightarrow> cl_pc s n = PHeartbeats t others \<Longrightarrow> runLeader_heartbeat (cl_nodes s n) = Some (go, r) \<Longrightarrow>
    cstep peers s (s\<lparr>cl_nodes := (cl_nodes s)(n := r), cl_pc := (cl_pc s)(n := if go then PLeader else PRun)\<rparr>)"
| deliver_heartbeat: "(hb, p) \<in> cl_heartbeats s \<Longrightarrow> HandleHeartbeat (hb_Term hb) (hb_LeaderID hb) (cl_nodes s p) = (cb, r) \<Longrightarrow>
    cstep peers s (s\<lparr>cl_nodes := (cl_nodes s)(p := r)\<rparr>)"

text \<open>Terms are 64-bit numbers; a run in which one of them is about to wrap is left out.\<close>

definition terms_below_max :: "Cluster \<Rightarrow> bool" where
  "terms_below_max s \<longleftrightarrow> (\<forall>n. rf_currentTerm (cl_nodes s n) < - 1)"

inductive reachable :: "bytes list \<Rightarrow> Cluster \<Rightarrow> bool" for peers where
  start: "reachable peers (init_cluster peers)"
| step: "reachable peers s \<Longrightarrow> terms_below_max s \<Longrightarrow> cstep peers s s' \<Longrightarrow> reachable peers s'"

text \<open>A node whose process is restarted: its state is that of \<open>NewRaftState\<close>, since term and vote are kept in memory only,
  and its calls are gone; messages under way may still arrive.\<close>

definition restart :: "bytes list \<Rightarrow> bytes \<Rightarrow> Cluster \<Rightarrow> Cluster" where
  "restart peers n s =
     s\<lparr>cl_nodes := (cl_nodes s)(n := NewRaftState n peers), cl_pc := (cl_pc s)(n := PRun),
       cl_rpc := (\<lambda>(c, t, p). if c = n then map_option (\<lambda>_. Finished) (cl_rpc s (c, t, p)) else cl_rpc s (c, t, p))\<rparr>"

inductive reachable_restarts :: "bytes list \<Rightarrow> Cluster \<Rightarrow> bool" for peers where
  restarts_start: "reachable_restarts peers (init_cluster peers)"
| restarts_step: "reachable_restarts peers s \<Longrightarrow> terms_below_max s \<Longrightarrow> cstep peers s s' \<Longrightarrow> reachable_restarts peers s'"
| restarts_restart: "reachable_restarts peers s \<Longrightarrow> n \<in> set peers \<Longrightarrow> reachable_restarts peers (restart peers n s)"

text \<open>The peer list every node is configured with: no duplicates, no empty address.\<close>

definition peers_ok :: "bytes list \<Rightarrow> bool" where
  "peers_ok peers \<longleftrightarrow> distinct peers \<and> [] \<notin> set peers"

section \<open>Majorities\<close>

locale quorums =
  fixes members :: "'a set" and size_of_quorum :: nat
  assumes finite_members: "finite members"
    and majority: "card members < 2 * size_of_quorum"
begin

lemma intersect:
  assumes "A \<subseteq> members" and "B \<subseteq> members" and "size_of_quorum \<le> card A" and "size_of_quorum \<le> card B"
  shows "A \<inter> B \<noteq> {}"
proof
  assume "A \<inter> B = {}"
  moreover have "finite A" "finite B" using assms(1,2) finite_members by (auto intro: finite_subset)
  ultimately have "card A + card B = card (A \<union> B)" by (simp add: card_Un_disjoint)
  also have "\<dots> \<le> card members" using assms(1,2) finite_members by (intro card_mono) auto
  finally show False using assms(3,4) majority by simp
qed

end

interpretation peer_quorums: quorums "set peers" "quorum peers" for peers
proof unfold_locales
  have "card (set peers) \<le> length peers" by (rule card_length)
  then show "card (set peers) < 2 * quorum peers" by (simp add: quorum_def)
qed simp

section \<open>Invariants\<close>

text \<open>Every node keeps its address and the peer list.\<close>

definition addr_inv :: "bytes list \<Rightarrow> (bytes \<Rightarrow> RaftState) \<Rightarrow> bool" where
  "addr_inv peers nodes \<longleftrightarrow> (\<forall>n. rf_nodeAddr (nodes n) = n \<and> rf_peers (nodes n) = peers)"

text \<open>A vote was cast for a member, in a term the voter has reached; in its current term the voter still
  remembers it. In one term a voter votes for one candidate.\<close>

definition vote_inv :: "bytes list \<Rightarrow> (bytes \<Rightarrow> RaftState) \<Rightarrow> (bytes \<times> u64 \<times> bytes) set \<Rightarrow> bool" where
  "vote_inv peers nodes granted \<longleftrightarrow>
     (\<forall>p t c. (p, t, c) \<in> granted \<longrightarrow> c \<in> set peers \<and> t \<le> rf_currentTerm (nodes p) \<and>
        (t = rf_currentTerm (nodes p) \<longrightarrow> rf_votedFor (nodes p) = c)) \<and>
     (\<forall>p t c d. (p, t, c) \<in> granted \<longrightarrow> (p, t, d) \<in> granted \<longrightarrow> c = d)"

text \<open>Calls go from a member to another, and an answer that grants is a vote that was cast.\<close>

definition rpc_inv :: "bytes list \<Rightarrow> (bytes \<times> u64 \<times> bytes \<Rightarrow> rpc option) \<Rightarrow> (bytes \<times> u64 \<times> bytes) set \<Rightarrow> bool" where
  "rpc_inv peers rpcs granted \<longleftrightarrow>
     (\<forall>c t p x. rpcs (c, t, p) = Some x \<longrightarrow> c \<in> set peers \<and> p \<in> set peers \<and> p \<noteq> c \<and>
        (\<forall>resp. x = Answered resp \<and> vs_Granted resp \<longrightarrow> (p, t, c) \<in> granted))"

text \<open>The members whose vote an election can have counted, and that it counted no more.\<close>

definition counted :: "bytes list \<Rightarrow> (bytes \<times> u64 \<times> bytes \<Rightarrow> rpc option) \<Rightarrow> (bytes \<times> u64 \<times> bytes) set \<Rightarrow> bytes \<Rightarrow> u64 \<Rightarrow> bytes set" where
  "counted peers rpcs granted c t =
     {p \<in> set peers. (p, t, c) \<in> granted \<and> (p = c \<or> rpcs (c, t, p) = Some Finished)}"

definition count_inv :: "bytes list \<Rightarrow> (bytes \<times> u64 \<times> bytes \<Rightarrow> rpc option) \<Rightarrow> (bytes \<times> u64 \<times> bytes) set \<Rightarrow>
    (bytes \<times> u64 \<Rightarrow> nat) \<Rightarrow> bool" where
  "count_inv peers rpcs granted votes \<longleftrightarrow> (\<forall>c t. votes (c, t) \<le> card (counted peers rpcs granted c t))"

definition voters :: "bytes list \<Rightarrow> (bytes \<times> u64 \<times> bytes) set \<Rightarrow> bytes \<Rightarrow> u64 \<Rightarrow> bytes set" where
  "voters peers granted c t = {p \<in> set peers. (p, t, c) \<in> granted}"

definition leader_inv :: "bytes list \<Rightarrow> (bytes \<Rightarrow> RaftState) \<Rightarrow> (bytes \<times> u64 \<times> bytes) set \<Rightarrow> bool" where
  "leader_inv peers nodes granted \<longleftrightarrow>
     (\<forall>n. rf_role (nodes n) = RoleLeader \<longrightarrow>
        quorum peers \<le> card (voters peers granted n (rf_currentTerm (nodes n))))"

text \<open>Only the goroutine of \<open>run\<close> makes its node a leader, and not while it follows or stands for
  election.\<close>

fun not_leading :: "pc \<Rightarrow> bool" where
  "not_leading PFollower = True"
| "not_leading PCandidate = True"
| "not_leading (PElection _) = True"
| "not_leading (PCount _) = True"
| "not_leading _ = False"

definition pc_inv :: "(bytes \<Rightarrow> RaftState) \<Rightarrow> (bytes \<Rightarrow> pc) \<Rightarrow> bool" where
  "pc_inv nodes pcs \<longleftrightarrow> (\<forall>n. not_leading (pcs n) \<longrightarrow> rf_role (nodes n) \<noteq> RoleLeader)"

definition election_inv :: "bytes list \<Rightarrow> Cluster \<Rightarrow> bool" where
  "election_inv peers s \<longleftrightarrow> addr_inv peers (cl_nodes s) \<and> vote_inv peers (cl_nodes s) (cl_granted s) \<and>
     rpc_inv peers (cl_rpc s) (cl_granted s) \<and> count_inv peers (cl_rpc s) (cl_granted s) (cl_votes s) \<and>
     leader_inv peers (cl_nodes s) (cl_granted s) \<and> pc_inv (cl_nodes s) (cl_pc s)"

section \<open>The steps keep the invariants\<close>

lemma addr_inv_update:
  "addr_inv peers nodes \<Longrightarrow> rf_nodeAddr r = rf_nodeAddr (nodes n) \<Longrightarrow> rf_peers r = rf_peers (nodes n) \<Longrightarrow>
   addr_inv peers (nodes(n := r))"
  by (auto simp: addr_inv_def)

lemma vote_inv_kept:
  "vote_inv peers nodes granted \<Longrightarrow> vote_kept (nodes p) r \<Longrightarrow> vote_inv peers (nodes(p := r)) granted"
  by (fastforce simp: vote_inv_def vote_kept_def)

text \<open>Casting a vote: the voter enters the term or is in it and has voted for nobody else.\<close>

lemma vote_inv_cast:
  assumes "vote_inv peers nodes granted" and "[] \<notin> set peers" and "c \<in> set peers"
    and "rf_currentTerm (nodes p) \<le> t" and "rf_currentTerm r = t" and "rf_votedFor r = c"
    and "rf_currentTerm (nodes p) = t \<Longrightarrow> rf_votedFor (nodes p) = [] \<or> rf_votedFor (nodes p) = c"
  shows "vote_inv peers (nodes(p := r)) (insert (p, t, c) granted)"
proof -
  have old: "d \<in> set peers \<and> u \<le> rf_currentTerm (nodes q) \<and> (u = rf_currentTerm (nodes q) \<longrightarrow> rf_votedFor (nodes q) = d)"
    if "(q, u, d) \<in> granted" for q u d
    using assms(1) that by (simp add: vote_inv_def)
  have same: "d = c" if "(p, t, d) \<in> granted" for d
  proof -
    have "rf_currentTerm (nodes p) = t" using old [OF that] assms(4) by (auto intro: antisym)
    then show ?thesis using old [OF that] assms(2,7) by auto
  qed
  have "u \<le> t \<and> (u = t \<longrightarrow> d = c)" if "(p, u, d) \<in> granted" for u d
    using old [OF that] same [of d] that assms(4) by auto
  with old same assms(1,3,5,6) show ?thesis
    unfolding vote_inv_def by (auto split: if_splits)
qed

lemma leader_inv_update:
  assumes "leader_inv peers nodes granted" and "lead_kept (nodes n) r" and "granted \<subseteq> granted'"
  shows "leader_inv peers (nodes(n := r)) granted'"
proof -
  have "card (voters peers granted c t) \<le> card (voters peers granted' c t)" for c t
    using assms(3) by (intro card_mono) (auto simp: voters_def)
  with assms(1,2) show ?thesis
    by (auto simp: leader_inv_def lead_kept_def intro: order_trans)
qed

lemma rpc_inv_mono: "rpc_inv peers rpcs granted \<Longrightarrow> granted \<subseteq> granted' \<Longrightarrow> rpc_inv peers rpcs granted'"
  by (fastforce simp: rpc_inv_def)

lemma rpc_inv_set:
  "rpc_inv peers rpcs granted \<Longrightarrow> rpcs (c, t, p) = Some y \<Longrightarrow>
   (\<And>resp. x = Answered resp \<Longrightarrow> vs_Granted resp \<Longrightarrow> (p, t, c) \<in> granted) \<Longrightarrow>
   rpc_inv peers (rpcs((c, t, p) := Some x)) granted"
  unfolding rpc_inv_def by (simp split: if_splits) blast

lemma rpc_inv_begin:
  "rpc_inv peers rpcs granted \<Longrightarrow> n \<in> set peers \<Longrightarrow> S \<subseteq> set peers - {n} \<Longrightarrow>
   rpc_inv peers (\<lambda>(c, u, p). if c = n \<and> u = t \<and> p \<in> S then Some Sent else rpcs (c, u, p)) granted"
  unfolding rpc_inv_def by (auto split: if_splits)

lemma count_inv_mono:
  assumes "count_inv peers rpcs granted votes" and "granted \<subseteq> granted'"
  shows "count_inv peers rpcs granted' votes"
proof -
  have "card (counted peers rpcs granted c t) \<le> card (counted peers rpcs granted' c t)" for c t
    using assms(2) by (intro card_mono) (auto simp: counted_def)
  with assms(1) show ?thesis unfolding count_inv_def by (meson order_trans)
qed

lemma count_inv_rpc:
  assumes "count_inv peers rpcs granted votes" and "rpcs k \<noteq> Some Finished \<or> x = Some Finished"
  shows "count_inv peers (rpcs(k := x)) granted votes"
proof -
  have "card (counted peers rpcs granted c t) \<le> card (counted peers (rpcs(k := x)) granted c t)" for c t
    using assms(2) by (intro card_mono) (auto simp: counted_def)
  with assms(1) show ?thesis unfolding count_inv_def by (meson order_trans)
qed

lemma count_inv_begin:
  assumes "count_inv peers rpcs granted votes" and "n \<in> set peers"
  shows "count_inv peers (\<lambda>(c, u, p). if c = n \<and> u = t \<and> p \<in> S then Some Sent else rpcs (c, u, p))
    (insert (n, t, n) granted) (votes((n, t) := Suc 0))"
proof -
  let ?rpcs = "\<lambda>(c, u, p). if c = n \<and> u = t \<and> p \<in> S then Some Sent else rpcs (c, u, p)"
  let ?granted = "insert (n, t, n) granted"
  have "(votes((n, t) := Suc 0)) (c, u) \<le> card (counted peers ?rpcs ?granted c u)" for c u
  proof (cases "(c, u) = (n, t)")
    case True
    have "{n} \<subseteq> counted peers ?rpcs ?granted n t" using assms(2) by (simp add: counted_def)
    then have "card {n} \<le> card (counted peers ?rpcs ?granted n t)" by (intro card_mono) (simp_all add: counted_def)
    with True show ?thesis by simp
  next
    case False
    have "card (counted peers rpcs granted c u) \<le> card (counted peers ?rpcs ?granted c u)"
      using False by (intro card_mono) (auto simp: counted_def)
    with False assms(1) show ?thesis by (auto simp: count_inv_def intro: order_trans)
  qed
  then show ?thesis by (simp add: count_inv_def)
qed

lemma count_inv_receive:
  assumes "count_inv peers rpcs granted votes" and "rpcs (c, t, p) = Some (Answered resp)"
    and "rpc_inv peers rpcs granted"
  shows "count_inv peers (rpcs((c, t, p) := Some Finished)) granted
    (votes((c, t) := votes (c, t) + (if vs_Granted resp then 1 else 0)))"
proof (cases "vs_Granted resp")
  case True
  let ?rpcs = "rpcs((c, t, p) := Some Finished)"
  have p: "p \<in> set peers" "p \<noteq> c" "(p, t, c) \<in> granted"
    using assms(2,3) True by (auto simp: rpc_inv_def)
  then have "counted peers ?rpcs granted c t = insert p (counted peers rpcs granted c t)" "p \<notin> counted peers rpcs granted c t"
    using assms(2) by (auto simp: counted_def)
  then have "card (counted peers ?rpcs granted c t) = Suc (card (counted peers rpcs granted c t))"
    by (simp add: counted_def)
  moreover have "counted peers ?rpcs granted d u = counted peers rpcs granted d u" if "(d, u) \<noteq> (c, t)" for d u
    using that by (auto simp: counted_def)
  ultimately show ?thesis
    using assms(1) True by (auto simp: count_inv_def split: if_splits)
next
  case False
  then have "votes((c, t) := votes (c, t) + (if vs_Granted resp then 1 else 0)) = votes" by simp
  with count_inv_rpc [OF assms(1), of "(c, t, p)" "Some Finished"] show ?thesis by simp
qed

lemma pc_inv_node: "pc_inv nodes pcs \<Longrightarrow> lead_kept (nodes n) r \<Longrightarrow> pc_inv (nodes(n := r)) pcs"
  by (auto simp: pc_inv_def lead_kept_def)

lemma pc_inv_pc: "pc_inv nodes pcs \<Longrightarrow> \<not> not_leading x \<Longrightarrow> pc_inv (nodes(n := r)) (pcs(n := x))"
  by (auto simp: pc_inv_def)

lemma requestVoteRPC_reply_granted: "requestVoteRPC_reply resp r = (g, r') \<Longrightarrow> g = vs_Granted resp"
  by (auto simp: raft_ops Let_def)

lemma runCandidate_begin_facts:
  assumes "runCandidate_begin r = (t, others, r')" and "rf_currentTerm r < - 1"
  shows "rf_currentTerm r < t \<and> rf_currentTerm r' = t \<and> rf_votedFor r' = rf_nodeAddr r \<and>
    rf_nodeAddr r' = rf_nodeAddr r \<and> rf_peers r' = rf_peers r \<and> rf_role r' = rf_role r \<and>
    set others = set (rf_peers r) - {rf_nodeAddr r}"
proof -
  have "rf_currentTerm r < rf_currentTerm r + 1"
  proof -
    have "1 + rf_currentTerm r \<noteq> 0" using assms(2) by (auto simp: add_eq_0_iff)
    then have "unat (1 + rf_currentTerm r) = Suc (unat (rf_currentTerm r))" by (rule unatSuc)
    then show ?thesis by (simp add: word_less_nat_alt add.commute)
  qed
  with assms(1) show ?thesis by (auto simp: raft_ops Let_def otherPeers_def)
qed

lemma election_inv_init: "election_inv peers (init_cluster peers)"
  by (simp add: election_inv_def init_cluster_def addr_inv_def vote_inv_def rpc_inv_def count_inv_def leader_inv_def
      pc_inv_def NewRaftState_def)

text \<open>Steps that move one node, its goroutine or neither, and touch no election.\<close>

lemma election_inv_move:
  assumes "election_inv peers s" and "vote_kept (cl_nodes s n) r" and "lead_kept (cl_nodes s n) r"
    and "rf_nodeAddr r = rf_nodeAddr (cl_nodes s n)" and "rf_peers r = rf_peers (cl_nodes s n)"
    and "cl_nodes s' = (cl_nodes s)(n := r)" and "cl_rpc s' = cl_rpc s" and "cl_votes s' = cl_votes s"
    and "cl_granted s' = cl_granted s"
    and "cl_pc s' = cl_pc s \<or> (\<exists>x. cl_pc s' = (cl_pc s)(n := x) \<and> \<not> not_leading x)"
  shows "election_inv peers s'"
  using assms
  by (auto simp: election_inv_def intro: addr_inv_update vote_inv_kept leader_inv_update pc_inv_node pc_inv_pc)

lemma election_inv_vote:
  assumes "election_inv peers s" and "[] \<notin> set peers" and "cl_rpc s (c, t, p) = Some x" and "x \<in> {Sent, Finished}"
    and "HandleVoteRequest (vote_request (cl_nodes s c) t) (cl_nodes s p) = ((g, u), cb, r)"
    and "cl_nodes s' = (cl_nodes s)(p := r)" and "cl_votes s' = cl_votes s" and "cl_pc s' = cl_pc s"
    and "cl_granted s' = (if g then insert (p, t, c) (cl_granted s) else cl_granted s)"
    and "cl_rpc s' = (if x = Finished then cl_rpc s
          else (cl_rpc s)((c, t, p) := Some (Answered \<lparr>vs_Term = u, vs_Granted = g\<rparr>)))"
  shows "election_inv peers s'"
proof -
  note inv = assms(1) [unfolded election_inv_def]
  have c: "c \<in> set peers" "rf_nodeAddr (cl_nodes s c) = c"
    using inv assms(3) by (auto simp: rpc_inv_def addr_inv_def)
  note k = HandleVoteRequest_kept [OF assms(5)]
  have mono: "cl_granted s \<subseteq> cl_granted s'" using assms(9) by auto
  have "vote_inv peers (cl_nodes s') (cl_granted s')"
  proof (cases g)
    case True
    with HandleVoteRequest_granted [of "vote_request (cl_nodes s c) t" "cl_nodes s p" u cb r] assms(5) c k
    have "rf_currentTerm r = t" "rf_votedFor r = c" "rf_currentTerm (cl_nodes s p) \<le> t"
      "rf_currentTerm (cl_nodes s p) = t \<Longrightarrow> rf_votedFor (cl_nodes s p) = [] \<or> rf_votedFor (cl_nodes s p) = c"
      by (auto simp: vote_request_def)
    with True inv assms(2) c(1) show ?thesis
      by (simp add: assms(6,9) vote_inv_cast)
  next
    case False
    with assms(5) HandleVoteRequest_denied_kept [of "vote_request (cl_nodes s c) t" "cl_nodes s p" u cb r] inv
    show ?thesis by (simp add: assms(6,9) vote_inv_kept)
  qed
  moreover have "rpc_inv peers (cl_rpc s') (cl_granted s')"
    using rpc_inv_mono [of peers "cl_rpc s", OF _ mono] inv assms(3,9,10) by (auto intro!: rpc_inv_set)
  moreover have "count_inv peers (cl_rpc s') (cl_granted s') (cl_votes s')"
    using count_inv_mono [of peers "cl_rpc s", OF _ mono] inv assms(3,4,7,10)
    by (auto intro!: count_inv_rpc split: if_splits)
  moreover have "leader_inv peers (cl_nodes s') (cl_granted s')"
    using inv k mono by (auto simp: assms(6) intro: leader_inv_update)
  moreover have "addr_inv peers (cl_nodes s')" "pc_inv (cl_nodes s') (cl_pc s')"
    using inv k by (auto simp: assms(6,8) intro: addr_inv_update pc_inv_node)
  ultimately show ?thesis by (simp add: election_inv_def)
qed

lemma election_inv_begin:
  assumes "election_inv peers s" and "[] \<notin> set peers" and "terms_below_max s" and "n \<in> set peers" and "cl_pc s n = PCandidate"
    and "runCandidate_begin (cl_nodes s n) = (t, others, r)"
  shows "election_inv peers
      (s\<lparr>cl_nodes := (cl_nodes s)(n := r), cl_pc := (cl_pc s)(n := PElection t),
         cl_rpc := (\<lambda>(c, u, p). if c = n \<and> u = t \<and> p \<in> set others then Some Sent else cl_rpc s (c, u, p)),
         cl_votes := (cl_votes s)((n, t) := Suc 0), cl_granted := insert (n, t, n) (cl_granted s)\<rparr>)"
    (is "election_inv peers ?s'")
proof -
  note inv = assms(1) [unfolded election_inv_def]
  have "rf_currentTerm (cl_nodes s n) < - 1" using assms(3) by (simp add: terms_below_max_def)
  note b = runCandidate_begin_facts [OF assms(6) this]
  have n: "rf_nodeAddr (cl_nodes s n) = n" "rf_peers (cl_nodes s n) = peers" using inv by (simp_all add: addr_inv_def)
  have role: "rf_role r \<noteq> RoleLeader" using inv b assms(5) by (auto simp: pc_inv_def)
  have lt: "rf_currentTerm (cl_nodes s n) < t" using b by simp
  have "vote_inv peers ((cl_nodes s)(n := r)) (insert (n, t, n) (cl_granted s))"
    by (rule vote_inv_cast) (use inv assms(2,4) b n lt in simp_all)
  then have "vote_inv peers (cl_nodes ?s') (cl_granted ?s')" by simp
  moreover have "rpc_inv peers (cl_rpc ?s') (cl_granted ?s')"
    using inv assms(4) b n rpc_inv_begin [of peers "cl_rpc s" "insert (n, t, n) (cl_granted s)" n "set others" t]
      rpc_inv_mono [of peers "cl_rpc s" "cl_granted s" "insert (n, t, n) (cl_granted s)"]
    by (simp add: subset_insertI)
  moreover have "count_inv peers (cl_rpc ?s') (cl_granted ?s') (cl_votes ?s')"
    using inv assms(4) by (simp add: count_inv_begin)
  moreover have "leader_inv peers (cl_nodes ?s') (cl_granted ?s')"
    using inv role leader_inv_update [of peers "cl_nodes s" "cl_granted s" n r "insert (n, t, n) (cl_granted s)"]
    by (simp add: lead_kept_def subset_insertI)
  moreover have "addr_inv peers (cl_nodes ?s')" "pc_inv (cl_nodes ?s') (cl_pc ?s')"
    using inv b role by (auto simp: pc_inv_def intro: addr_inv_update)
  ultimately show ?thesis by (simp add: election_inv_def)
qed

lemma election_inv_receive:
  assumes "election_inv peers s" and "cl_rpc s (c, t, p) = Some (Answered resp)" and "requestVoteRPC_reply resp (cl_nodes s c) = (g, r)"
  shows "election_inv peers
      (s\<lparr>cl_nodes := (cl_nodes s)(c := r), cl_rpc := (cl_rpc s)((c, t, p) := Some Finished),
         cl_votes := (cl_votes s)((c, t) := cl_votes s (c, t) + (if g then 1 else 0))\<rparr>)"
proof -
  note inv = assms(1) [unfolded election_inv_def]
  note k = requestVoteRPC_reply_kept [OF assms(3)]
  have g: "g = vs_Granted resp" using assms(3) by (rule requestVoteRPC_reply_granted)
  show ?thesis
    using inv k count_inv_receive [of peers "cl_rpc s" "cl_granted s" "cl_votes s" c t p resp] assms(2)
    by (auto simp: election_inv_def g intro: addr_inv_update vote_inv_kept leader_inv_update pc_inv_node rpc_inv_set)
qed

lemma election_inv_end:
  assumes "election_inv peers s" and "n \<in> set peers" and "cl_pc s n = PCount t"
    and "runCandidate_end t (cl_votes s (n, t)) (cl_nodes s n) = (cb, r)"
  shows "election_inv peers (s\<lparr>cl_nodes := (cl_nodes s)(n := r), cl_pc := (cl_pc s)(n := PRun)\<rparr>)"
proof -
  note inv = assms(1) [unfolded election_inv_def]
  note k = runCandidate_end_kept [OF assms(4)]
  have role: "rf_role (cl_nodes s n) \<noteq> RoleLeader" using inv assms(3) by (auto simp: pc_inv_def)
  have "quorum peers \<le> card (voters peers (cl_granted s) n (rf_currentTerm r))" if "rf_role r = RoleLeader"
  proof -
    have t: "rf_currentTerm r = t" "quorum peers \<le> cl_votes s (n, t)"
      using runCandidate_end_leader [OF assms(4) that role] inv by (simp_all add: addr_inv_def)
    have "card (counted peers (cl_rpc s) (cl_granted s) n t) \<le> card (voters peers (cl_granted s) n t)"
      by (intro card_mono) (auto simp: counted_def voters_def)
    with t inv show ?thesis unfolding count_inv_def by (meson order_trans)
  qed
  then have "leader_inv peers ((cl_nodes s)(n := r)) (cl_granted s)"
    using inv by (auto simp: leader_inv_def)
  with inv k show ?thesis
    by (auto simp: election_inv_def intro: addr_inv_update vote_inv_kept pc_inv_pc)
qed

lemma election_inv_step:
  assumes "cstep peers s s'" and "election_inv peers s" and "[] \<notin> set peers" and "terms_below_max s"
  shows "election_inv peers s'"
  using assms
proof (induction rule: cstep.cases)
  case (run_loop n s0)
  then show ?case
    by (cases "rf_role (cl_nodes s0 n)") (auto simp: election_inv_def pc_inv_def)
next
  case (follower_heartbeat n s0 r)
  with runFollower_heartbeat_kept [of "cl_nodes s0 n" r] show ?case
    by (auto intro!: election_inv_move [of peers s0 n r])
next
  case (follower_timeout n s0)
  with runFollower_timeout_kept [of "cl_nodes s0 n"] show ?case
    by (auto intro!: election_inv_move [of peers s0 n "runFollower_timeout (cl_nodes s0 n)"])
next
  case (candidate_begin n s0 t others r)
  then show ?case by (simp add: election_inv_begin)
next
  case (deliver_request s0 c t p g u cb r)
  then show ?case by (auto intro!: election_inv_vote [of peers s0 c t p Sent g u cb r])
next
  case (deliver_late s0 c t p g u cb r)
  then show ?case by (auto intro!: election_inv_vote [of peers s0 c t p Finished g u cb r])
next
  case (receive_answer s0 c t p resp g r)
  then show ?case by (simp add: election_inv_receive)
next
  case (call_fails s0 c t p x)
  then show ?case by (auto simp: election_inv_def intro: rpc_inv_set count_inv_rpc)
next
  case (candidate_heartbeat n s0 t r)
  with runCandidate_heartbeat_kept [of "cl_nodes s0 n" r] show ?case
    by (auto intro!: election_inv_move [of peers s0 n r])
next
  case (candidate_wait n s0 t)
  then have "rf_role (cl_nodes s0 n) \<noteq> RoleLeader" by (auto simp: election_inv_def pc_inv_def)
  with candidate_wait show ?case by (auto simp: election_inv_def pc_inv_def)
next
  case (candidate_end n s0 t cb r)
  then show ?case by (simp add: election_inv_end)
next
  case (leader_top n s0)
  then show ?case by (auto simp: election_inv_def pc_inv_def split: option.splits)
next
  case (leader_tick n s0 t others)
  then show ?case by (auto simp: election_inv_def pc_inv_def)
next
  case (leader_signal n s0 t others go r)
  with runLeader_heartbeat_kept [of "cl_nodes s0 n" go r] show ?case
    by (auto intro!: election_inv_move [of peers s0 n r])
next
  case (deliver_heartbeat hb p s0 cb r)
  with HandleHeartbeat_kept [of "hb_Term hb" "hb_LeaderID hb" "cl_nodes s0 p" cb r] show ?case
    by (auto intro!: election_inv_move [of peers s0 p r])
qed

lemma reachable_inv: "reachable peers s \<Longrightarrow> [] \<notin> set peers \<Longrightarrow> election_inv peers s"
  by (induction rule: reachable.induct) (auto intro: election_inv_init election_inv_step)

section \<open>A run that elects\<close>

text \<open>Some number of steps, without restarts.\<close>

definition reaches :: "bytes list \<Rightarrow> Cluster \<Rightarrow> Cluster \<Rightarrow> bool" where
  "reaches peers = (\<lambda>s s'. terms_below_max s \<and> cstep peers s s')\<^sup>*\<^sup>*"

lemma reaches_refl: "reaches peers s s"
  by (simp add: reaches_def)

lemma reaches_snoc: "reaches peers s s' \<Longrightarrow> terms_below_max s' \<Longrightarrow> cstep peers s' s'' \<Longrightarrow> reaches peers s s''"
  unfolding reaches_def by (rule rtranclp.rtrancl_into_rtrancl) auto

lemma reaches_trans: "reaches peers s s' \<Longrightarrow> reaches peers s' s'' \<Longrightarrow> reaches peers s s''"
  unfolding reaches_def by (rule rtranclp_trans)

lemma reaches_reachable: "reaches peers s s' \<Longrightarrow> reachable peers s \<Longrightarrow> reachable peers s'"
  unfolding reaches_def by (induction rule: rtranclp_induct) (auto intro: reachable.step)

lemma reaches_restarts: "reaches peers s s' \<Longrightarrow> reachable_restarts peers s \<Longrightarrow> reachable_restarts peers s'"
  unfolding reaches_def by (induction rule: rtranclp_induct) (auto intro: restarts_step)

lemma below_max: "(\<forall>m. rf_currentTerm (cl_nodes s m) \<le> 1) \<Longrightarrow> terms_below_max s"
proof -
  have "(1 :: u64) < - 1" by (simp add: word_less_nat_alt unsigned_minus_1_eq_mask mask_eq_exp_minus_1)
  then show "(\<forall>m. rf_currentTerm (cl_nodes s m) \<le> 1) \<Longrightarrow> terms_below_max s"
    by (auto simp: terms_below_max_def intro: le_less_trans)
qed

text \<open>The candidate of term 1 while it waits for answers.\<close>

definition standing :: "bytes list \<Rightarrow> bytes \<Rightarrow> Cluster \<Rightarrow> bool" where
  "standing peers n s \<longleftrightarrow> cl_pc s n = PElection 1 \<and> (\<forall>m. rf_currentTerm (cl_nodes s m) \<le> 1) \<and>
     rf_nodeAddr (cl_nodes s n) = n \<and> rf_peers (cl_nodes s n) = peers \<and> rf_currentTerm (cl_nodes s n) = 1 \<and>
     rf_role (cl_nodes s n) = RoleCandidate"

lemma collect_vote:
  assumes "standing peers n s" and "cl_rpc s (n, 1, p) = Some Sent" and "cl_nodes s p = NewRaftState p peers" and "p \<noteq> n"
    and "n \<noteq> []"
  obtains s' where "reaches peers s s'" "standing peers n s'" "cl_votes s' (n, 1) = Suc (cl_votes s (n, 1))"
    "\<And>q. q \<noteq> p \<Longrightarrow> cl_nodes s' q = cl_nodes s q \<and> cl_rpc s' (n, 1, q) = cl_rpc s (n, 1, q)"
proof -
  let ?r = "signal_heartbeat ((NewRaftState p peers)\<lparr>rf_currentTerm := 1, rf_votedFor := n, rf_role := RoleFollower\<rparr>)"
  let ?a = "\<lparr>vs_Term = 1, vs_Granted = True\<rparr>"
  let ?s1 = "s\<lparr>cl_nodes := (cl_nodes s)(p := ?r), cl_rpc := (cl_rpc s)((n, 1, p) := Some (Answered ?a)),
      cl_granted := insert (p, 1, n) (cl_granted s)\<rparr>"
  let ?s2 = "?s1\<lparr>cl_nodes := (cl_nodes ?s1)(n := cl_nodes s n), cl_rpc := (cl_rpc ?s1)((n, 1, p) := Some Finished),
      cl_votes := (cl_votes ?s1)((n, 1) := cl_votes s (n, 1) + 1)\<rparr>"
  have st: "\<forall>m. rf_currentTerm (cl_nodes s m) \<le> 1" "rf_nodeAddr (cl_nodes s n) = n" "rf_currentTerm (cl_nodes s n) = 1"
    using assms(1) by (simp_all add: standing_def)
  have "HandleVoteRequest (vote_request (cl_nodes s n) 1) (cl_nodes s p) = ((True, 1), NoCallback, ?r)"
    using assms(3,5) st(2) by (simp add: HandleVoteRequest_def vote_request_def NewRaftState_def Let_def)
  from deliver_request [OF assms(2) this, of peers] have 1: "cstep peers s ?s1" by simp
  have r1: "reaches peers s ?s1" by (rule reaches_snoc [OF reaches_refl below_max [OF st(1)] 1])
  have t1: "\<forall>m. rf_currentTerm (cl_nodes ?s1 m) \<le> 1" using st(1) by (simp add: signal_heartbeat_def)
  have "requestVoteRPC_reply ?a (cl_nodes ?s1 n) = (True, cl_nodes s n)"
    using assms(4) st(3) by (simp add: requestVoteRPC_reply_def)
  from receive_answer [of ?s1 n 1 p ?a True "cl_nodes s n" peers] this have 2: "cstep peers ?s1 ?s2" by simp
  have "reaches peers s ?s2" by (rule reaches_snoc [OF r1 below_max [OF t1] 2])
  moreover have "standing peers n ?s2" using assms(1,4) t1 by (simp add: standing_def)
  ultimately show ?thesis by (rule that) (use assms(4) in simp_all)
qed

lemma collect_votes:
  assumes "standing peers n s" and "\<And>p. p \<in> set xs \<Longrightarrow> cl_rpc s (n, 1, p) = Some Sent \<and> cl_nodes s p = NewRaftState p peers"
    and "distinct xs" and "n \<notin> set xs" and "n \<noteq> []"
  obtains s' where "reaches peers s s'" "standing peers n s'" "cl_votes s' (n, 1) = cl_votes s (n, 1) + length xs"
    "\<And>q. q \<notin> set xs \<Longrightarrow> cl_nodes s' q = cl_nodes s q \<and> cl_rpc s' (n, 1, q) = cl_rpc s (n, 1, q)"
  using assms
proof (induction xs arbitrary: s thesis)
  case Nil
  then show ?case using reaches_refl by auto
next
  case (Cons p xs)
  from Cons.prems have p: "cl_rpc s (n, 1, p) = Some Sent" "cl_nodes s p = NewRaftState p peers" "p \<noteq> n" by auto
  obtain s1 where s1: "reaches peers s s1" "standing peers n s1" "cl_votes s1 (n, 1) = Suc (cl_votes s (n, 1))"
    "\<And>q. q \<noteq> p \<Longrightarrow> cl_nodes s1 q = cl_nodes s q \<and> cl_rpc s1 (n, 1, q) = cl_rpc s (n, 1, q)"
    using collect_vote [OF Cons.prems(2) p Cons.prems(6)] by blast
  have "cl_rpc s1 (n, 1, q) = Some Sent \<and> cl_nodes s1 q = NewRaftState q peers" if "q \<in> set xs" for q
    using that Cons.prems(3) [of q] Cons.prems(4) s1(4) [of q] by auto
  then obtain s2 where "reaches peers s1 s2" "standing peers n s2" "cl_votes s2 (n, 1) = cl_votes s1 (n, 1) + length xs"
    "\<And>q. q \<notin> set xs \<Longrightarrow> cl_nodes s2 q = cl_nodes s1 q \<and> cl_rpc s2 (n, 1, q) = cl_rpc s1 (n, 1, q)"
    using Cons.IH [OF _ s1(2)] Cons.prems(4-6) by auto
  then show ?case
    using s1 by (intro Cons.prems(1) [of s2]) (auto intro: reaches_trans)
qed

lemma stand_for_election:
  assumes "n \<in> set peers" and "\<forall>m. rf_currentTerm (cl_nodes s m) \<le> 1" and "cl_pc s n = PRun" and "cl_nodes s n = NewRaftState n peers"
  obtains s' where "reaches peers s s'" "standing peers n s'" "cl_votes s' (n, 1) = 1" "\<And>q. q \<noteq> n \<Longrightarrow> cl_nodes s' q = cl_nodes s q"
    "\<And>p. p \<in> set peers \<Longrightarrow> p \<noteq> n \<Longrightarrow> cl_rpc s' (n, 1, p) = Some Sent"
proof -
  let ?r0 = "NewRaftState n peers"
  let ?s1 = "s\<lparr>cl_pc := (cl_pc s)(n := PFollower)\<rparr>"
  let ?s2 = "?s1\<lparr>cl_nodes := (cl_nodes ?s1)(n := runFollower_timeout ?r0), cl_pc := (cl_pc ?s1)(n := PRun)\<rparr>"
  let ?s3 = "?s2\<lparr>cl_pc := (cl_pc ?s2)(n := PCandidate)\<rparr>"
  let ?r = "(runFollower_timeout ?r0)\<lparr>rf_currentTerm := 1, rf_votedFor := n\<rparr>"
  let ?others = "otherPeers ?r"
  let ?s4 = "?s3\<lparr>cl_nodes := (cl_nodes ?s3)(n := ?r), cl_pc := (cl_pc ?s3)(n := PElection 1),
         cl_rpc := (\<lambda>(c, u, p). if c = n \<and> u = 1 \<and> p \<in> set ?others then Some Sent else cl_rpc ?s3 (c, u, p)),
         cl_votes := (cl_votes ?s3)((n, 1) := 1), cl_granted := insert (n, 1, n) (cl_granted ?s3)\<rparr>"
  have below: "terms_below_max s" "terms_below_max ?s1" "terms_below_max ?s2" "terms_below_max ?s3"
    by (rule below_max; use assms(2) in \<open>simp add: NewRaftState_def runFollower_timeout_def\<close>)+
  have "cstep peers s ?s1"
    using run_loop [OF assms(1,3)] assms(4) by (simp add: NewRaftState_def)
  note 1 = reaches_snoc [OF reaches_refl below(1) this]
  have "cstep peers ?s1 ?s2"
    using follower_timeout [OF assms(1), of ?s1] assms(4) by simp
  note 2 = reaches_snoc [OF 1 below(2) this]
  have "cstep peers ?s2 ?s3"
    using run_loop [OF assms(1), of ?s2] by (simp add: runFollower_timeout_def)
  note 3 = reaches_snoc [OF 2 below(3) this]
  have "runCandidate_begin (cl_nodes ?s3 n) = (1, ?others, ?r)"
    by (simp add: runCandidate_begin_def runFollower_timeout_def NewRaftState_def Let_def)
  from candidate_begin [OF assms(1) _ this] have "cstep peers ?s3 ?s4" by simp
  note 4 = reaches_snoc [OF 3 below(4) this]
  moreover have "standing peers n ?s4"
    using assms(2) by (simp add: standing_def runFollower_timeout_def NewRaftState_def)
  ultimately show ?thesis
    by (rule that) (simp_all add: otherPeers_def runFollower_timeout_def NewRaftState_def)
qed

text \<open>A node that has just started wins the election of term 1 with the votes of peers that have just started, whatever the
  others have done before.\<close>

lemma run_elects:
  assumes "n \<in> set peers" and "n \<noteq> []" and "\<forall>m. rf_currentTerm (cl_nodes s m) \<le> 1" and "cl_pc s n = PRun"
    and "cl_nodes s n = NewRaftState n peers" and "\<forall>p\<in>set xs. p \<in> set peers \<and> p \<noteq> n \<and> cl_nodes s p = NewRaftState p peers"
    and "distinct xs" and "quorum peers \<le> Suc (length xs)"
  obtains s' where "reaches peers s s'" "rf_role (cl_nodes s' n) = RoleLeader" "rf_currentTerm (cl_nodes s' n) = 1"
    "rf_leaderAddr (cl_nodes s' n) = n" "\<forall>m. rf_currentTerm (cl_nodes s' m) \<le> 1"
    "\<And>q. q \<notin> insert n (set xs) \<Longrightarrow> cl_nodes s' q = cl_nodes s q"
    "\<And>q. q \<in> set peers \<Longrightarrow> q \<notin> insert n (set xs) \<Longrightarrow> cl_rpc s' (n, 1, q) = Some Sent"
    "cl_pc s' n = PRun" "rf_nodeAddr (cl_nodes s' n) = n" "rf_peers (cl_nodes s' n) = peers"
proof -
  obtain s0 where s0: "reaches peers s s0" "standing peers n s0" "cl_votes s0 (n, 1) = 1" "\<And>q. q \<noteq> n \<Longrightarrow> cl_nodes s0 q = cl_nodes s q"
    "\<And>p. p \<in> set peers \<Longrightarrow> p \<noteq> n \<Longrightarrow> cl_rpc s0 (n, 1, p) = Some Sent"
    by (rule stand_for_election [OF assms(1,3-5)]) blast
  have "cl_rpc s0 (n, 1, p) = Some Sent \<and> cl_nodes s0 p = NewRaftState p peers" if "p \<in> set xs" for p
    using that assms(6) s0(4,5) by auto
  moreover have "n \<notin> set xs" using assms(6) by auto
  ultimately obtain s1 where s1: "reaches peers s0 s1" "standing peers n s1" "cl_votes s1 (n, 1) = cl_votes s0 (n, 1) + length xs"
    "\<And>q. q \<notin> set xs \<Longrightarrow> cl_nodes s1 q = cl_nodes s0 q \<and> cl_rpc s1 (n, 1, q) = cl_rpc s0 (n, 1, q)"
    using collect_votes [OF s0(2) _ assms(7) _ assms(2)] by blast
  let ?s2 = "s1\<lparr>cl_pc := (cl_pc s1)(n := PCount 1)\<rparr>"
  let ?r = "(cl_nodes s1 n)\<lparr>rf_role := RoleLeader, rf_leaderAddr := n\<rparr>"
  let ?s3 = "?s2\<lparr>cl_nodes := (cl_nodes ?s2)(n := ?r), cl_pc := (cl_pc ?s2)(n := PRun)\<rparr>"
  have b: "terms_below_max s1" "terms_below_max ?s2"
    using s1(2) by (auto simp: standing_def intro!: below_max)
  have "cstep peers s1 ?s2"
    using s1(2) assms(1) by (intro candidate_wait) (simp_all add: standing_def)
  note 2 = reaches_snoc [OF reaches_trans [OF s0(1) s1(1)] b(1) this]
  have "cstep peers ?s2 ?s3"
    using s1(2,3) s0(3) assms(1,8) by (intro candidate_end [where t = 1 and cb = OnLeader]) (simp_all add: standing_def runCandidate_end_def)
  note 3 = reaches_snoc [OF 2 b(2) this]
  then show ?thesis
    by (rule that) (use s1(2,4) s0(4,5) in \<open>simp_all add: standing_def\<close>)
qed

text \<open>The first election, with the votes of all.\<close>

lemma first_election:
  assumes "peers_ok peers" and "n \<in> set peers"
  obtains s where "reaches peers (init_cluster peers) s" "rf_role (cl_nodes s n) = RoleLeader" "rf_currentTerm (cl_nodes s n) = 1"
    "rf_leaderAddr (cl_nodes s n) = n" "\<forall>m. rf_currentTerm (cl_nodes s m) \<le> 1"
proof -
  have p: "distinct peers" "n \<noteq> []" using assms by (auto simp: peers_ok_def)
  have q: "quorum peers \<le> Suc (length (remove1 n peers))" using assms(2) by (simp add: quorum_def length_remove1)
  have i: "cl_nodes (init_cluster peers) m = NewRaftState m peers" "cl_pc (init_cluster peers) m = PRun" for m
    by (simp_all add: init_cluster_def)
  have t: "\<forall>m. rf_currentTerm (cl_nodes (init_cluster peers) m) \<le> 1" by (simp add: i NewRaftState_def)
  have x: "\<forall>p\<in>set (remove1 n peers). p \<in> set peers \<and> p \<noteq> n \<and> cl_nodes (init_cluster peers) p = NewRaftState p peers"
    using p(1) i by simp
  show ?thesis
    by (rule run_elects [OF assms(2) p(2) t i(2,1) x _ q]) (use p(1) in \<open>auto intro: that\<close>)
qed

text \<open>The leader of term 1 after its first round of heartbeats, while its request to the third node is still under way.\<close>

lemma first_heartbeats:
  obtains s where "reachable [[1], [2], [3]] s" "cl_rpc s ([1], 1, [3]) = Some Sent" "cl_nodes s [3] = NewRaftState [3] [[1], [2], [3]]"
    "(heartbeat_message (cl_nodes s [1]) 1, [3]) \<in> cl_heartbeats s" "rf_nodeAddr (cl_nodes s [1]) = [1]"
proof -
  let ?ps = "[[1], [2], [3]] :: bytes list" and ?i = "init_cluster [[1], [2], [3]]"
  have i: "cl_nodes ?i m = NewRaftState m ?ps" "cl_pc ?i m = PRun" for m by (simp_all add: init_cluster_def)
  have t: "\<forall>m. rf_currentTerm (cl_nodes ?i m) \<le> 1" by (simp add: i NewRaftState_def)
  obtain s where s: "reaches ?ps ?i s" "rf_role (cl_nodes s [1]) = RoleLeader" "rf_currentTerm (cl_nodes s [1]) = 1"
      "\<forall>m. rf_currentTerm (cl_nodes s m) \<le> 1" "\<And>q. q \<notin> {[1], [2]} \<Longrightarrow> cl_nodes s q = cl_nodes ?i q"
      "\<And>q. q \<in> set ?ps \<Longrightarrow> q \<notin> {[1], [2]} \<Longrightarrow> cl_rpc s ([1], 1, q) = Some Sent"
      "cl_pc s [1] = PRun" "rf_nodeAddr (cl_nodes s [1]) = [1]" "rf_peers (cl_nodes s [1]) = ?ps"
    by (rule run_elects [OF _ _ t i(2,1), of "[1]" "[[2]]"]) (simp_all add: i quorum_def)
  let ?s1 = "s\<lparr>cl_pc := (cl_pc s)([1] := PLeader)\<rparr>"
  let ?s2 = "?s1\<lparr>cl_pc := (cl_pc ?s1)([1] := PHeartbeats 1 [[2], [3]])\<rparr>"
  let ?s3 = "?s2\<lparr>cl_heartbeats := cl_heartbeats ?s2 \<union> (\<lambda>p. (heartbeat_message (cl_nodes ?s2 [1]) 1, p)) ` set [[2], [3]],
      cl_pc := (cl_pc ?s2)([1] := PLeader)\<rparr>"
  have b: "terms_below_max s" "terms_below_max ?s1" "terms_below_max ?s2" by (rule below_max; use s(4) in simp)+
  have "cstep ?ps s ?s1" using run_loop [of "[1]" ?ps s] s(2,7) by simp
  note 1 = reaches_snoc [OF s(1) b(1) this]
  have "cstep ?ps ?s1 ?s2" using leader_top [of "[1]" ?ps ?s1] s(2,3,8,9) by (simp add: runLeader_top_def otherPeers_def)
  note 2 = reaches_snoc [OF 1 b(2) this]
  have "cstep ?ps ?s2 ?s3" using leader_tick [of "[1]" ?ps ?s2 1 "[[2], [3]]"] by simp
  note 3 = reaches_snoc [OF 2 b(3) this]
  show ?thesis
    by (rule that [OF reaches_reachable [OF 3 reachable.start]]) (use s(5) [of "[3]"] s(6) [of "[3]"] s(8) i(1) in simp_all)
qed

lemma restart_all:
  "cl_nodes (fold (restart peers) ns s) m = (if m \<in> set ns then NewRaftState m peers else cl_nodes s m)"
  "cl_pc (fold (restart peers) ns s) m = (if m \<in> set ns then PRun else cl_pc s m)"
  by (induction ns arbitrary: s) (auto simp: restart_def)

lemma restart_all_reachable:
  "reachable_restarts peers s \<Longrightarrow> set ns \<subseteq> set peers \<Longrightarrow> reachable_restarts peers (fold (restart peers) ns s)"
  by (induction ns arbitrary: s) (auto intro: restarts_restart)

section \<open>Properties\<close>

text \<open>C4 (safety): election safety. In every state the cluster can reach, whatever is lost, delayed or
  reordered and whenever timeouts fire, two leaders of the same term are the same node.\<close>

theorem election_safety:
  assumes "reachable peers s" and "peers_ok peers"
    and "rf_role (cl_nodes s a) = RoleLeader" and "rf_role (cl_nodes s b) = RoleLeader"
    and "rf_currentTerm (cl_nodes s a) = rf_currentTerm (cl_nodes s b)"
  shows "a = b"
proof -
  have inv: "leader_inv peers (cl_nodes s) (cl_granted s)" "vote_inv peers (cl_nodes s) (cl_granted s)"
    using reachable_inv [OF assms(1)] assms(2) by (simp_all add: peers_ok_def election_inv_def)
  let ?V = "\<lambda>c. voters peers (cl_granted s) c (rf_currentTerm (cl_nodes s b))"
  have "quorum peers \<le> card (?V a)" "quorum peers \<le> card (?V b)"
    using inv(1) assms(3-5) unfolding leader_inv_def by metis+
  moreover have "?V a \<subseteq> set peers" "?V b \<subseteq> set peers" by (auto simp: voters_def)
  ultimately have "?V a \<inter> ?V b \<noteq> {}" by (intro peer_quorums.intersect)
  then obtain p where "(p, rf_currentTerm (cl_nodes s b), a) \<in> cl_granted s" "(p, rf_currentTerm (cl_nodes s b), b) \<in> cl_granted s"
    by (auto simp: voters_def)
  with inv(2) show ?thesis unfolding vote_inv_def by blast
qed

theorem election_safety_witness:
  "\<exists>s. reachable [[1], [2], [3]] s \<and> {b. rf_role (cl_nodes s b) = RoleLeader \<and> rf_currentTerm (cl_nodes s b) = 1} = {[2]}"
proof -
  have p: "peers_ok [[1], [2], [3]]" by (simp add: peers_ok_def)
  then obtain s where s: "reachable [[1], [2], [3]] s" "rf_role (cl_nodes s [2]) = RoleLeader" "rf_currentTerm (cl_nodes s [2]) = 1"
    using first_election [of _ "[2]"] reaches_reachable [OF _ reachable.start] by (metis list.set_intros)
  have "b = [2]" if "rf_role (cl_nodes s b) = RoleLeader" "rf_currentTerm (cl_nodes s b) = 1" for b
    by (rule election_safety [OF s(1) p]) (use s that in simp_all)
  with s show ?thesis by blast
qed

text \<open>C40 (liveness): elections succeed when the network lets them. From the initial state, for every
  cluster and every node of it, there is a run in which that node becomes the leader of term 1.\<close>

theorem leader_can_be_elected:
  assumes "peers_ok peers" and "n \<in> set peers"
  shows "\<exists>s. reachable peers s \<and> rf_role (cl_nodes s n) = RoleLeader \<and> rf_currentTerm (cl_nodes s n) = 1 \<and>
    rf_leaderAddr (cl_nodes s n) = n"
  using first_election [OF assms] reaches_reachable [OF _ reachable.start] by metis

theorem leader_can_be_elected_witness:
  "\<exists>s. reachable [[1], [2], [3]] s \<and> rf_role (cl_nodes s [2]) = RoleLeader \<and> rf_currentTerm (cl_nodes s [2]) = 1 \<and>
    rf_leaderAddr (cl_nodes s [2]) = [2]"
  by (rule leader_can_be_elected) (simp_all add: peers_ok_def)

text \<open>C27 (safety): election safety does not survive restarts. In every cluster of at least three nodes, for any two of
  them there is a run with restarts in which both lead in term 1: the nodes that voted for the first have forgotten it.\<close>

theorem restarts_elect_twice:
  assumes "peers_ok peers" and "3 \<le> length peers" and "a \<in> set peers" and "b \<in> set peers" and "a \<noteq> b"
  shows "\<exists>s. reachable_restarts peers s \<and> rf_role (cl_nodes s a) = RoleLeader \<and> rf_role (cl_nodes s b) = RoleLeader \<and>
    rf_currentTerm (cl_nodes s a) = 1 \<and> rf_currentTerm (cl_nodes s b) = 1"
proof -
  obtain s where s: "reaches peers (init_cluster peers) s" "rf_role (cl_nodes s a) = RoleLeader" "rf_currentTerm (cl_nodes s a) = 1"
    "\<forall>m. rf_currentTerm (cl_nodes s m) \<le> 1"
    using first_election [OF assms(1,3)] by blast
  let ?ns = "remove1 a peers" and ?s = "fold (restart peers) (remove1 a peers) s" and ?xs = "remove1 b (remove1 a peers)"
  note r = restart_all_reachable [OF reaches_restarts [OF s(1) restarts_start] set_remove1_subset, of a] restart_all [of peers ?ns s]
  have p: "distinct peers" "b \<noteq> []" using assms(1,4) by (auto simp: peers_ok_def)
  have "length ?xs = length peers - 2" using assms(3-5) p by (simp add: length_remove1)
  then have q: "quorum peers \<le> Suc (length ?xs)" using assms(2) by (simp add: quorum_def)
  have b: "b \<in> set ?ns" using assms(4,5) by simp
  have t: "\<forall>m. rf_currentTerm (cl_nodes ?s m) \<le> 1" using s(4) r(2) by (simp add: NewRaftState_def)
  have x: "\<forall>p\<in>set ?xs. p \<in> set peers \<and> p \<noteq> b \<and> cl_nodes ?s p = NewRaftState p peers"
    using p(1) r(2) by simp
  have "cl_pc ?s b = PRun" "cl_nodes ?s b = NewRaftState b peers" using b r(2,3) by simp_all
  then obtain s' where s': "reaches peers ?s s'" "rf_role (cl_nodes s' b) = RoleLeader" "rf_currentTerm (cl_nodes s' b) = 1"
    "\<And>q. q \<notin> insert b (set ?xs) \<Longrightarrow> cl_nodes s' q = cl_nodes ?s q"
    using run_elects [OF assms(4) p(2) t _ _ x _ q] p(1) by (metis distinct_remove1)
  have "cl_nodes s' a = cl_nodes s a" using s'(4) [of a] assms(5) p(1) r(2) [of a] by simp
  then show ?thesis using reaches_restarts [OF s'(1) r(1)] s'(2,3) s(2,3) by auto
qed

theorem restarts_elect_twice_witness:
  "\<exists>s. reachable_restarts [[1], [2], [3]] s \<and> rf_role (cl_nodes s [1]) = RoleLeader \<and> rf_role (cl_nodes s [3]) = RoleLeader \<and>
    rf_currentTerm (cl_nodes s [1]) = 1 \<and> rf_currentTerm (cl_nodes s [3]) = 1"
  by (rule restarts_elect_twice) (simp_all add: peers_ok_def)

end
