(* ===== verification/Frame.thy ===== *)
theory Frame
  imports Protocol
begin

text \<open>
  Length-prefixed framing over TCP (\<open>protocol/frame.go\<close>). What a connection will deliver is a
  \<open>Reader\<close>; what has been sent on it is the list of bytes so far, and each write is given its
  outcome by the network.
\<close>

section \<open>Frames\<close>

definition frameHeaderSize :: nat where
  "frameHeaderSize = 4"

definition EncodeFrame :: "Message \<Rightarrow> (ProtoError, bytes) go" where
  "EncodeFrame msg =
     (case EncodeMessage msg of
        Err e \<Rightarrow> Err e
      | Panic \<Rightarrow> Panic
      | Ok wire \<Rightarrow>
          (let frame = make_buf (frameHeaderSize + length wire);
               frame = copy_at 0 (PutUint32 (word_of_nat (length wire))) frame
           in Ok (copy_at frameHeaderSize wire frame)))"

text \<open>The result of the call and everything sent on the connection so far.\<close>

definition WriteFrame :: "write_outcome \<Rightarrow> bytes \<Rightarrow> Message \<Rightarrow> (ProtoError, unit) go \<times> bytes" where
  "WriteFrame out sent msg =
     (case EncodeFrame msg of
        Ok frame \<Rightarrow>
          (case write_error out of None \<Rightarrow> Ok () | Some e \<Rightarrow> Err (IO e), sent @ written out frame)
      | Err e \<Rightarrow> (Err e, sent)
      | Panic \<Rightarrow> (Panic, sent))"

definition ReadFrame :: "registry \<Rightarrow> Reader \<Rightarrow> u32 \<Rightarrow> (ProtoError, Message) go \<times> Reader" where
  "ReadFrame reg r maxLen =
     (case ReadFull r frameHeaderSize of
        (Err e, r1) \<Rightarrow> (Err (IO e), r1)
      | (Panic, r1) \<Rightarrow> (Panic, r1)
      | (Ok header, r1) \<Rightarrow>
          (let msgLen = Uint32 header
           in if 0 < maxLen \<and> maxLen < msgLen then (Err ErrFrameTooLarge, r1)
              else case ReadFull r1 (unat msgLen) of
                (Err e, r2) \<Rightarrow> (Err (IO e), r2)
              | (Panic, r2) \<Rightarrow> (Panic, r2)
              | (Ok body, r2) \<Rightarrow>
                  (case DecodeMessage reg body of
                     Err e \<Rightarrow> (Err (Malformed e), r2)
                   | Panic \<Rightarrow> (Panic, r2)
                   | Ok msg \<Rightarrow> (Ok msg, r2))))"

text \<open>Reading until the first error, the way the loops of the callers do; \<open>fuel\<close> bounds the number
  of frames.\<close>

fun ReadFrames :: "nat \<Rightarrow> registry \<Rightarrow> Reader \<Rightarrow> u32 \<Rightarrow> Message list \<times> Reader" where
  "ReadFrames 0 reg r maxLen = ([], r)"
| "ReadFrames (Suc n) reg r maxLen =
     (case ReadFrame reg r maxLen of
        (Ok m, r') \<Rightarrow> (let (ms, r'') = ReadFrames n reg r' maxLen in (m # ms, r''))
      | (Err e, r') \<Rightarrow> ([], r')
      | (Panic, r') \<Rightarrow> ([], r'))"

text \<open>A message fits a frame when it is valid and its wire form is shorter than 4 GiB.\<close>

definition Frame_valid :: "Message \<Rightarrow> bool" where
  "Frame_valid m \<longleftrightarrow> Message_valid m \<and>
     (case EncodeMessage m of Ok w \<Rightarrow> length w < 4294967296 | _ \<Rightarrow> False)"

text \<open>What the server's limit means for a message.\<close>

definition within_limit :: "u32 \<Rightarrow> Message \<Rightarrow> bool" where
  "within_limit maxLen m \<longleftrightarrow> maxLen = 0 \<or>
     (case EncodeMessage m of Ok w \<Rightarrow> length w \<le> unat maxLen | _ \<Rightarrow> False)"

section \<open>Lemmas\<close>

lemma EncodeMessage_Ok: obtains p where "EncodeMessage m = Ok (OpCode m # p)"
  by (rule Message_Encode_Ok [of m]) (simp add: EncodeMessage_layout)

lemma EncodeFrame_layout:
  "EncodeMessage m = Ok w \<Longrightarrow> EncodeFrame m = Ok (PutUint32 (word_of_nat (length w)) @ w)"
  by (simp add: EncodeFrame_def frameHeaderSize_def Let_def buffer_simps)

text \<open>The bytes of a frame with body \<open>b\<close>.\<close>

definition frame_of :: "bytes \<Rightarrow> bytes" where
  "frame_of b = PutUint32 (word_of_nat (length b)) @ b"

lemma length_frame_of [simp]: "length (frame_of b) = 4 + length b"
  by (simp add: frame_of_def)

text \<open>Every complete frame within the limit is consumed exactly, whatever its body decodes to.\<close>

lemma ReadFrame_frame_of:
  assumes "length b < 4294967296" and "maxLen = 0 \<or> length b \<le> unat maxLen"
  shows "ReadFrame reg \<lparr>rd_data = frame_of b @ rest, rd_end = e\<rparr> maxLen =
    (case DecodeMessage reg b of Err e' \<Rightarrow> Err (Malformed e') | Panic \<Rightarrow> Panic | Ok m \<Rightarrow> Ok m,
     \<lparr>rd_data = rest, rd_end = e\<rparr>)"
proof -
  have "\<not> (0 < maxLen \<and> maxLen < (word_of_nat (length b) :: u32))"
    using assms by (auto simp: word_less_nat_alt)
  then show ?thesis
    using assms(1)
    by (simp add: ReadFrame_def frame_of_def frameHeaderSize_def Let_def split: go.splits)
qed

lemma ReadFrame_too_large:
  assumes "length b < 4294967296" and "0 < maxLen" and "unat maxLen < length b"
  shows "ReadFrame reg \<lparr>rd_data = frame_of b @ rest, rd_end = e\<rparr> maxLen =
    (Err ErrFrameTooLarge, \<lparr>rd_data = b @ rest, rd_end = e\<rparr>)"
proof -
  have "0 < maxLen \<and> maxLen < (word_of_nat (length b) :: u32)"
    using assms by (simp add: word_less_nat_alt)
  then show ?thesis
    by (simp add: ReadFrame_def frame_of_def frameHeaderSize_def Let_def)
qed

lemma Frame_validE:
  assumes "Frame_valid m"
  obtains w where "EncodeMessage m = Ok w" and "EncodeFrame m = Ok (frame_of w)"
    and "length w < 4294967296" and "DecodeMessage the_registry w = Ok m"
proof -
  obtain p where p: "EncodeMessage m = Ok (OpCode m # p)" by (rule EncodeMessage_Ok)
  moreover have "length (OpCode m # p) < 4294967296" and "Message_valid m"
    using assms p by (simp_all add: Frame_valid_def)
  moreover have "DecodeMessage the_registry (OpCode m # p) = Ok m"
    using DecodeMessage_EncodeMessage [OF \<open>Message_valid m\<close> p, of "[]"] by simp
  ultimately show thesis
    using that EncodeFrame_layout [OF p] by (simp add: frame_of_def)
qed

lemma ReadFrame_EncodeFrame:
  assumes "Frame_valid m" and "within_limit maxLen m" and "EncodeFrame m = Ok f"
  shows "ReadFrame the_registry \<lparr>rd_data = f @ rest, rd_end = e\<rparr> maxLen =
    (Ok m, \<lparr>rd_data = rest, rd_end = e\<rparr>)"
proof -
  obtain w where w: "EncodeMessage m = Ok w" "EncodeFrame m = Ok (frame_of w)"
    "length w < 4294967296" "DecodeMessage the_registry w = Ok m"
    using assms(1) by (rule Frame_validE)
  then have "maxLen = 0 \<or> length w \<le> unat maxLen"
    using assms(2) by (simp add: within_limit_def)
  with w assms(3) show ?thesis
    by (simp add: ReadFrame_frame_of)
qed

text \<open>With a limit of at most 65536 bytes no frame makes \<open>ReadFrame\<close> panic; the wrapped
  slice bounds need a frame of more than 65536 bytes, well under the default limit of 10 MiB.\<close>

lemma ReadFrame_small:
  assumes "0 < maxLen" and "unat maxLen \<le> 65536"
  shows "fst (ReadFrame the_registry r maxLen) \<noteq> Panic"
proof -
  have body: "DecodeMessage the_registry b \<noteq> Panic" if "length b \<le> 65536" for b
    using that by (cases b) (auto simp: DecodeMessage_def [of _ "[]"] DecodeMessage_Panic bound_wraps_def split: if_splits)
  have "unat l \<le> 65536" if "\<not> maxLen < l" for l :: u32
    using that assms by (simp add: word_le_nat_alt not_less)
  then show ?thesis
    using assms body by (auto simp: ReadFrame_def ReadFull_def Let_def split: go.splits if_splits)
qed

section \<open>Properties\<close>

text \<open>Frames written back to back on a connection are read back as the same messages
  in the same order, and the bytes after them are left for the next read.\<close>

lemma frames_round_trip:
  assumes "list_all (\<lambda>m. Frame_valid m \<and> within_limit maxLen m) ms"
    and "map EncodeFrame ms = map Ok fs"
  shows "ReadFrames (length ms) the_registry \<lparr>rd_data = concat fs @ rest, rd_end = e\<rparr> maxLen =
    (ms, \<lparr>rd_data = rest, rd_end = e\<rparr>)"
  using assms
proof (induction ms arbitrary: fs)
  case Nil
  then show ?case by simp
next
  case (Cons m ms)
  then obtain f fs' where "fs = f # fs'" and "EncodeFrame m = Ok f" and "map EncodeFrame ms = map Ok fs'"
    by (cases fs) auto
  moreover have "ReadFrame the_registry \<lparr>rd_data = f @ concat fs' @ rest, rd_end = e\<rparr> maxLen =
      (Ok m, \<lparr>rd_data = concat fs' @ rest, rd_end = e\<rparr>)"
    using Cons.prems(1) \<open>EncodeFrame m = Ok f\<close> by (intro ReadFrame_EncodeFrame) simp_all
  ultimately show ?case
    using Cons.IH [of fs'] Cons.prems(1) by simp
qed

text \<open>An oversized frame is refused on its header alone, before any byte of its body is
  read; a frame within the limit whose body does not decode is reported as \<open>ErrMalformedMessage\<close>
  and consumed to its end, so the next read starts at the next frame.\<close>

lemma frame_errors_keep_alignment:
  assumes "length b < 4294967296"
  shows "(0 < maxLen \<and> unat maxLen < length b \<longrightarrow>
      ReadFrame reg \<lparr>rd_data = frame_of b @ rest, rd_end = e\<rparr> maxLen =
        (Err ErrFrameTooLarge, \<lparr>rd_data = b @ rest, rd_end = e\<rparr>)) \<and>
    ((maxLen = 0 \<or> length b \<le> unat maxLen) \<and> DecodeMessage reg b = Err e' \<longrightarrow>
      ReadFrame reg \<lparr>rd_data = frame_of b @ rest, rd_end = e\<rparr> maxLen =
        (Err (Malformed e'), \<lparr>rd_data = rest, rd_end = e\<rparr>))"
  using assms by (simp_all add: ReadFrame_too_large ReadFrame_frame_of)

end
