(* ===== verification/Engine.thy ===== *)
theory Engine
  imports Protocol Store
begin

text \<open>
  Package \<open>engine\<close>: the handlers of the client commands and their registry. The interface \<open>Store\<close> the
  handlers are written against is a record of its three methods over a state of the caller's choice;
  what the handlers rely on is the locale \<open>engine_store\<close>. The node of package \<open>cluster\<close> provides it.
\<close>

section \<open>The store interface\<close>

record 's EngineStore =
  st_Set :: "bytes \<Rightarrow> bytes \<Rightarrow> duration \<Rightarrow> 's \<Rightarrow> (StoreError, 's, unit) outcome"
  st_Get :: "bytes \<Rightarrow> 's \<Rightarrow> (StoreError, 's, bytes) outcome"
  st_Delete :: "bytes \<Rightarrow> 's \<Rightarrow> (StoreError, 's, unit) outcome"

text \<open>\<open>err.Error()\<close> of the errors a store returns.\<close>

fun IOError_text :: "IOError \<Rightarrow> string" where
  "IOError_text EOF = ''EOF''"
| "IOError_text ErrUnexpectedEOF = ''unexpected EOF''"
| "IOError_text (IOFailure txt) = txt"
| "IOError_text StillWaiting = []"

fun StoreError_text :: "StoreError \<Rightarrow> string" where
  "StoreError_text ErrKeyNotFound = ''key not found''"
| "StoreError_text ErrMemoryFull = ''memory limit reached: write rejected (noevict policy)''"
| "StoreError_text (WALError e) = IOError_text e"

datatype EngineError = NoHandler byte

fun EngineError_text :: "EngineError \<Rightarrow> string" where
  "EngineError_text (NoHandler opcode) = ''engine: no handler for opcode 0x'' @ hex02 opcode"

type_synonym 's result = "(EngineError, 's, Message) outcome"

section \<open>Handlers\<close>

text \<open>How a call of the store continues: with its result and the new state, unless it did not return.\<close>

fun after :: "('e, 's, 'a) outcome \<Rightarrow> ('e + 'a \<Rightarrow> 's \<Rightarrow> ('f, 's, 'b) outcome) \<Rightarrow> ('f, 's, 'b) outcome" where
  "after (Returns r s) k = k r s"
| "after Blocks k = Blocks"
| "after Diverges k = Diverges"
| "after Panics k = Panics"

text \<open>A message of another dynamic type is a panic of the type assertion.\<close>

fun handleGet :: "Message \<Rightarrow> 's EngineStore \<Rightarrow> 's \<Rightarrow> 's result" where
  "handleGet (MGetRequest req) db s =
     after (st_Get db (gr_Key req) s) (\<lambda>r s'.
       case r of
         Inl e \<Rightarrow>
           (if e = ErrKeyNotFound then Returns (Inr (MGetResponse \<lparr>gs_Found = False, gs_Value = []\<rparr>)) s'
            else Returns (Inr (MErrorMessage \<lparr>em_Code = ErrCodeInternal, em_Message = str (StoreError_text e)\<rparr>)) s')
       | Inr val \<Rightarrow> Returns (Inr (MGetResponse \<lparr>gs_Found = True, gs_Value = val\<rparr>)) s')"
| "handleGet msg db s = Panics"

text \<open>\<open>time.Duration(req.TTL)\<close> reads the 64 bits as a signed number.\<close>

fun handleSet :: "Message \<Rightarrow> 's EngineStore \<Rightarrow> 's \<Rightarrow> 's result" where
  "handleSet (MSetRequest req) db s =
     (let ttl = sint (sr_TTL req)
      in after (st_Set db (sr_Key req) (sr_Value req) ttl s) (\<lambda>r s'.
           case r of
             Inl e \<Rightarrow> Returns (Inr (MSetResponse \<lparr>ss_Success = False, ss_Message = str (StoreError_text e)\<rparr>)) s'
           | Inr _ \<Rightarrow> Returns (Inr (MSetResponse \<lparr>ss_Success = True, ss_Message = str ''OK''\<rparr>)) s'))"
| "handleSet msg db s = Panics"

fun handleDelete :: "Message \<Rightarrow> 's EngineStore \<Rightarrow> 's \<Rightarrow> 's result" where
  "handleDelete (MDeleteRequest req) db s =
     after (st_Delete db (dr_Key req) s) (\<lambda>r s'.
       case r of
         Inl e \<Rightarrow>
           (if e = ErrKeyNotFound
            then Returns (Inr (MDeleteResponse \<lparr>ds_Success = False, ds_Message = str ''key not found''\<rparr>)) s'
            else Returns (Inr (MDeleteResponse \<lparr>ds_Success = False, ds_Message = str (StoreError_text e)\<rparr>)) s')
       | Inr _ \<Rightarrow> Returns (Inr (MDeleteResponse \<lparr>ds_Success = True, ds_Message = str ''OK''\<rparr>)) s')"
| "handleDelete msg db s = Panics"

section \<open>Dispatch\<close>

type_synonym 's handlers = "(byte, Message \<Rightarrow> 's EngineStore \<Rightarrow> 's \<Rightarrow> 's result) gomap"

definition Register_handler :: "byte \<Rightarrow> (Message \<Rightarrow> 's EngineStore \<Rightarrow> 's \<Rightarrow> 's result) \<Rightarrow> 's handlers \<Rightarrow> 's handlers option" where
  "Register_handler opcode h hs =
     (case gomap_get hs opcode of
        Some _ \<Rightarrow> None
      | None \<Rightarrow> Some (gomap_set opcode h hs))"

text \<open>The registrations of \<open>init\<close>, in order.\<close>

definition init_handlers :: "'s handlers option" where
  "init_handlers =
     (case Register_handler OpGet handleGet [] of
        None \<Rightarrow> None
      | Some hs \<Rightarrow>
          (case Register_handler OpSet handleSet hs of
             None \<Rightarrow> None
           | Some hs \<Rightarrow> Register_handler OpDelete handleDelete hs))"

definition Dispatch :: "'s handlers \<Rightarrow> Message \<Rightarrow> 's EngineStore \<Rightarrow> 's \<Rightarrow> 's result" where
  "Dispatch hs msg db s =
     (case gomap_get hs (OpCode msg) of
        None \<Rightarrow> Returns (Inl (NoHandler (OpCode msg))) s
      | Some h \<Rightarrow> h msg db s)"

text \<open>The table the process runs with.\<close>

definition the_handlers :: "'s handlers" where
  "the_handlers = [(OpGet, handleGet), (OpSet, handleSet), (OpDelete, handleDelete)]"

lemma init_handlers_eq: "init_handlers = Some the_handlers"
  by (simp add: init_handlers_def the_handlers_def Register_handler_def opcode_defs)

lemma Dispatch_requests [simp]:
  "Dispatch the_handlers (MGetRequest g) db s = handleGet (MGetRequest g) db s"
  "Dispatch the_handlers (MSetRequest r) db s = handleSet (MSetRequest r) db s"
  "Dispatch the_handlers (MDeleteRequest d) db s = handleDelete (MDeleteRequest d) db s"
  by (simp_all add: Dispatch_def the_handlers_def opcode_defs)

text \<open>The commands of a client.\<close>

fun is_command :: "Message \<Rightarrow> bool" where
  "is_command (MGetRequest _) = True"
| "is_command (MSetRequest _) = True"
| "is_command (MDeleteRequest _) = True"
| "is_command _ = False"

lemma Dispatch_other: "\<not> is_command msg \<Longrightarrow> Dispatch the_handlers msg db s = Returns (Inl (NoHandler (OpCode msg))) s"
  by (cases msg) (simp_all add: Dispatch_def the_handlers_def opcode_defs)

section \<open>The contract of a store\<close>

text \<open>What the engine and its clients rely on: calls neither panic nor run forever on a state that
  satisfies the invariant, they keep it, and a read sees the last write.\<close>

locale engine_store =
  fixes db :: "'s EngineStore" and inv :: "'s \<Rightarrow> bool"
  assumes set_safe: "inv s \<Longrightarrow> st_Set db key val ttl s \<notin> {Diverges, Panics}"
    and get_returns: "inv s \<Longrightarrow> \<exists>r s'. st_Get db key s = Returns r s'"
    and delete_safe: "inv s \<Longrightarrow> st_Delete db key s \<notin> {Diverges, Panics}"
    and set_inv: "inv s \<Longrightarrow> st_Set db key val ttl s = Returns r s' \<Longrightarrow> inv s'"
    and get_inv: "inv s \<Longrightarrow> st_Get db key s = Returns r' s' \<Longrightarrow> inv s'"
    and delete_inv: "inv s \<Longrightarrow> st_Delete db key s = Returns r s' \<Longrightarrow> inv s'"
    and get_error: "inv s \<Longrightarrow> st_Get db key s = Returns (Inl e) s' \<Longrightarrow> e = ErrKeyNotFound"
    and get_after_set: "inv s \<Longrightarrow> st_Set db key val ttl s = Returns (Inr ()) s' \<Longrightarrow>
          \<exists>s''. st_Get db key s' = Returns (Inr val) s''"
    and get_after_delete: "inv s \<Longrightarrow> st_Delete db key s = Returns (Inr ()) s' \<Longrightarrow>
          \<exists>s''. st_Get db key s' = Returns (Inl ErrKeyNotFound) s''"
begin

lemma dispatch_safe: "inv s \<Longrightarrow> Dispatch the_handlers msg db s \<notin> {Diverges, Panics}"
proof (cases "is_command msg")
  case True
  assume "inv s"
  with True show ?thesis
  proof (cases msg)
    case (MGetRequest g)
    from get_returns [OF \<open>inv s\<close>, of "gr_Key g"] obtain r s' where "st_Get db (gr_Key g) s = Returns r s'" by blast
    with MGetRequest show ?thesis by (simp split: sum.splits)
  next
    case (MSetRequest r)
    with set_safe [OF \<open>inv s\<close>, of "sr_Key r" "sr_Value r" "sint (sr_TTL r)"] show ?thesis
      by (cases "st_Set db (sr_Key r) (sr_Value r) (sint (sr_TTL r)) s") (auto split: sum.splits)
  next
    case (MDeleteRequest d)
    with delete_safe [OF \<open>inv s\<close>, of "dr_Key d"] show ?thesis
      by (cases "st_Delete db (dr_Key d) s") (auto split: sum.splits)
  qed simp_all
qed (simp add: Dispatch_other)

lemma dispatch_inv: "inv s \<Longrightarrow> Dispatch the_handlers msg db s = Returns r s' \<Longrightarrow> inv s'"
proof (cases "is_command msg")
  case True
  assume a: "inv s" "Dispatch the_handlers msg db s = Returns r s'"
  with True show ?thesis
  proof (cases msg)
    case (MGetRequest g)
    with a get_inv [OF a(1), of "gr_Key g"] show ?thesis
      by (cases "st_Get db (gr_Key g) s") (auto split: sum.splits if_splits)
  next
    case (MSetRequest q)
    with a set_inv [OF a(1), of "sr_Key q" "sr_Value q" "sint (sr_TTL q)"] show ?thesis
      by (cases "st_Set db (sr_Key q) (sr_Value q) (sint (sr_TTL q)) s") (auto split: sum.splits)
  next
    case (MDeleteRequest d)
    with a delete_inv [OF a(1), of "dr_Key d"] show ?thesis
      by (cases "st_Delete db (dr_Key d) s") (auto split: sum.splits if_splits)
  qed simp_all
qed (simp add: Dispatch_other)

lemma dispatch_set_get:
  assumes "inv s" and "Dispatch the_handlers (MSetRequest q) db s = Returns (Inr (MSetResponse \<lparr>ss_Success = True, ss_Message = m\<rparr>)) s'"
  shows "\<exists>s''. Dispatch the_handlers (MGetRequest \<lparr>gr_Key = sr_Key q\<rparr>) db s' =
    Returns (Inr (MGetResponse \<lparr>gs_Found = True, gs_Value = sr_Value q\<rparr>)) s''"
proof -
  have "st_Set db (sr_Key q) (sr_Value q) (sint (sr_TTL q)) s = Returns (Inr ()) s'"
    using assms(2) by (cases "st_Set db (sr_Key q) (sr_Value q) (sint (sr_TTL q)) s") (auto split: sum.splits)
  from get_after_set [OF assms(1) this] show ?thesis by auto
qed

lemma dispatch_delete_get:
  assumes "inv s" and "Dispatch the_handlers (MDeleteRequest q) db s = Returns (Inr (MDeleteResponse \<lparr>ds_Success = True, ds_Message = m\<rparr>)) s'"
  shows "\<exists>s''. Dispatch the_handlers (MGetRequest \<lparr>gr_Key = dr_Key q\<rparr>) db s' =
    Returns (Inr (MGetResponse \<lparr>gs_Found = False, gs_Value = []\<rparr>)) s''"
proof -
  have "st_Delete db (dr_Key q) s = Returns (Inr ()) s'"
    using assms(2) by (cases "st_Delete db (dr_Key q) s") (auto split: sum.splits if_splits)
  from get_after_delete [OF assms(1) this] show ?thesis by auto
qed

end

end
