(* ===== verification/Replication.thy ===== *)
theory Replication
  imports Frame Store_Recovery Engine Raft
begin

text \<open>
  Replication from the leader to its followers: \<open>cluster/leader.go\<close> and \<open>cluster/follower.go\<close>. The
  connections of a process are named by numbers; \<open>Net\<close> has what has been sent on each and which are
  closed. The leader's mutex makes a broadcast one step. The follower's loop runs over the bytes its
  connection delivers.
\<close>

section \<open>Connections\<close>

type_synonym conn = nat

record Net =
  net_sent :: "conn \<Rightarrow> bytes"
  net_closed :: "conn set"

definition conn_write :: "write_outcome \<Rightarrow> conn \<Rightarrow> bytes \<Rightarrow> Net \<Rightarrow> IOError option \<times> Net" where
  "conn_write out c b net =
     (if c \<in> net_closed net then (Some (IOFailure ''use of closed network connection''), net)
      else (write_error out, net\<lparr>net_sent := (net_sent net)(c := net_sent net c @ written out b)\<rparr>))"

definition conn_close :: "conn \<Rightarrow> Net \<Rightarrow> Net" where
  "conn_close c net = net\<lparr>net_closed := insert c (net_closed net)\<rparr>"

section \<open>The leader\<close>

record Leader =
  ld_followers :: "(bytes, conn) gomap"
  ld_logIndex :: u64

definition newLeader :: Leader where
  "newLeader = \<lparr>ld_followers = [], ld_logIndex = 0\<rparr>"

text \<open>The goroutine \<open>drainAcks\<close> that it starts is below.\<close>

definition AddFollower :: "bytes \<Rightarrow> conn \<Rightarrow> Leader \<Rightarrow> Leader" where
  "AddFollower nodeAddr c l = l\<lparr>ld_followers := gomap_set nodeAddr c (ld_followers l)\<rparr>"

text \<open>The two loops of \<open>broadcast\<close>. \<open>outs c\<close> is the outcome of the write on connection \<open>c\<close>; \<open>None\<close> is the
  panic of a method call on the nil connection of an address that is not in the map.\<close>

fun broadcast_writes :: "(conn \<Rightarrow> write_outcome) \<Rightarrow> bytes \<Rightarrow> (bytes \<times> conn) list \<Rightarrow> Net \<Rightarrow> bytes list \<Rightarrow> bytes list \<times> Net" where
  "broadcast_writes outs frame [] net dead = (dead, net)"
| "broadcast_writes outs frame ((addr, c) # rest) net dead =
     (case conn_write (outs c) c frame net of
        (None, net') \<Rightarrow> broadcast_writes outs frame rest net' dead
      | (Some e, net') \<Rightarrow> broadcast_writes outs frame rest net' (dead @ [addr]))"

fun broadcast_drops :: "bytes list \<Rightarrow> Leader \<Rightarrow> Net \<Rightarrow> (Leader \<times> Net) option" where
  "broadcast_drops [] l net = Some (l, net)"
| "broadcast_drops (addr # rest) l net =
     (case gomap_get (ld_followers l) addr of
        None \<Rightarrow> None
      | Some c \<Rightarrow>
          broadcast_drops rest (l\<lparr>ld_followers := gomap_delete addr (ld_followers l)\<rparr>) (conn_close c net))"

definition broadcast :: "bytes map_order \<Rightarrow> (conn \<Rightarrow> write_outcome) \<Rightarrow> Message \<Rightarrow> Leader \<Rightarrow> Net \<Rightarrow> (Leader \<times> Net) option" where
  "broadcast ord outs msg l net =
     (case EncodeFrame msg of
        Err e \<Rightarrow> Some (l, net)
      | Panic \<Rightarrow> None
      | Ok frame \<Rightarrow>
          (let (dead, net) = broadcast_writes outs frame (in_order ord (ld_followers l)) net []
           in broadcast_drops dead l net))"

text \<open>The bits of \<open>expiredAt\<close>, an int64, are those of the field \<open>ExpiresAt\<close>.\<close>

definition BroadcastSet :: "bytes map_order \<Rightarrow> (conn \<Rightarrow> write_outcome) \<Rightarrow> bytes \<Rightarrow> bytes \<Rightarrow> u64 \<Rightarrow> Leader \<Rightarrow> Net \<Rightarrow>
    (Leader \<times> Net) option" where
  "BroadcastSet ord outs key val expiredAt l net =
     (let l = l\<lparr>ld_logIndex := ld_logIndex l + 1\<rparr>
      in broadcast ord outs
           (MReplicationSync \<lparr>rs_LogIndex = ld_logIndex l, rs_Op = WAL_OpSet, rs_Key = key, rs_Value = val,
                              rs_ExpiresAt = expiredAt\<rparr>) l net)"

definition BroadcastDelete :: "bytes map_order \<Rightarrow> (conn \<Rightarrow> write_outcome) \<Rightarrow> bytes \<Rightarrow> Leader \<Rightarrow> Net \<Rightarrow>
    (Leader \<times> Net) option" where
  "BroadcastDelete ord outs key l net =
     (let l = l\<lparr>ld_logIndex := ld_logIndex l + 1\<rparr>
      in broadcast ord outs
           (MReplicationSync \<lparr>rs_LogIndex = ld_logIndex l, rs_Op = WAL_OpDelete, rs_Key = key, rs_Value = [],
                              rs_ExpiresAt = 0\<rparr>) l net)"

definition removeFollower :: "bytes \<Rightarrow> Leader \<Rightarrow> Net \<Rightarrow> Leader \<times> Net" where
  "removeFollower nodeAddr l net =
     (case gomap_get (ld_followers l) nodeAddr of
        None \<Rightarrow> (l, net)
      | Some c \<Rightarrow> (l\<lparr>ld_followers := gomap_delete nodeAddr (ld_followers l)\<rparr>, conn_close c net))"

text \<open>The loop of \<open>drainAcks\<close> ends with the error that ended it, or with a panic of \<open>ReadFrame\<close>; the
  deferred \<open>removeFollower\<close> follows. While the follower is connected and silent the loop waits and nothing has changed.\<close>

function drain_loop :: "Reader \<Rightarrow> (ProtoError, unit) go" where
  "drain_loop r =
     (case ReadFrame the_registry r 0 of
        (Err e, r') \<Rightarrow> Err e
      | (Panic, r') \<Rightarrow> Panic
      | (Ok msg, r') \<Rightarrow> drain_loop r')"
  by auto

text \<open>Every frame that is read to its end takes at least the four bytes of its header.\<close>

lemma ReadFrame_consumes:
  "(Ok m, r') = ReadFrame reg r maxLen \<Longrightarrow> length (rd_data r') < length (rd_data r)"
  "(Err e, r') = ReadFrame reg r maxLen \<Longrightarrow> Is_ErrMalformedMessage e \<Longrightarrow> length (rd_data r') < length (rd_data r)"
  by (auto simp: ReadFrame_def ReadFull_def frameHeaderSize_def Let_def split: go.splits if_splits)

termination drain_loop
  by (relation "measure (\<lambda>r. length (rd_data r))") (auto dest: ReadFrame_consumes)

declare drain_loop.simps [simp del]

definition drainAcks :: "bytes \<Rightarrow> Reader \<Rightarrow> Leader \<Rightarrow> Net \<Rightarrow> (Leader \<times> Net) option" where
  "drainAcks nodeAddr r l net =
     (case drain_loop r of
        Panic \<Rightarrow> None
      | Err e \<Rightarrow> Some (if e = IO StillWaiting then (l, net) else removeFollower nodeAddr l net)
      | Ok _ \<Rightarrow> Some (removeFollower nodeAddr l net))"

section \<open>The follower\<close>

text \<open>The errors of the store are only printed.\<close>

definition applySync :: "Env \<Rightarrow> ReplicationSync \<Rightarrow> KVStore \<Rightarrow> (ProtoError, KVStore, unit) outcome" where
  "applySync env sync db =
     (let key = rs_Key sync
      in if rs_Op sync = WAL_OpSet
         then let expiredAt = from_nano (rs_ExpiresAt sync)
              in after (SetWithExpiry env key (rs_Value sync) expiredAt db) (\<lambda>err db'. Returns (Inr ()) db')
         else if rs_Op sync = WAL_OpDelete
         then after (Delete env key db) (\<lambda>err db'. Returns (Inr ()) db')
         else Returns (Inr ()) db)"

text \<open>One round of the loop of \<open>syncWithLeader\<close>: \<open>env\<close> and \<open>out\<close> are what the store and the connection meet when
  a change is applied and acknowledged, \<open>sent\<close> what the follower has sent. The loop goes on with \<open>Next\<close>; at a \<open>Stop\<close>
  the call ends, or waits for the leader.\<close>

datatype turn = Next Reader KVStore bytes | Stop "(ProtoError, KVStore \<times> bytes, unit) outcome"

definition sync_round :: "Env \<Rightarrow> write_outcome \<Rightarrow> Reader \<Rightarrow> KVStore \<Rightarrow> bytes \<Rightarrow> turn" where
  "sync_round env out r db sent =
     (case ReadFrame the_registry r 0 of
        (Panic, r') \<Rightarrow> Stop Panics
      | (Err e, r') \<Rightarrow>
          (if Is_ErrMalformedMessage e then Next r' db sent
           else if e = IO StillWaiting then Stop Blocks
           else Stop (Returns (Inl e) (db, sent)))
      | (Ok msg, r') \<Rightarrow>
          (case msg of
             MReplicationSync sync \<Rightarrow>
               (case applySync env sync db of
                  Returns _ db' \<Rightarrow>
                    (let (_, sent') = WriteFrame out sent (MReplicationAck \<lparr>ra_LastAppliedIndex = rs_LogIndex sync\<rparr>)
                     in Next r' db' sent')
                | Blocks \<Rightarrow> Stop Blocks
                | Diverges \<Rightarrow> Stop Diverges
                | Panics \<Rightarrow> Stop Panics)
           | _ \<Rightarrow> Next r' db sent))"

text \<open>The loop; \<open>envs i\<close> and \<open>outs i\<close> belong to its \<open>i\<close>-th round. It returns with an error in every case; the result is
  that error, the store and what was sent.\<close>

function sync_loop :: "(nat \<Rightarrow> Env) \<Rightarrow> (nat \<Rightarrow> write_outcome) \<Rightarrow> nat \<Rightarrow> Reader \<Rightarrow> KVStore \<Rightarrow> bytes \<Rightarrow>
    (ProtoError, KVStore \<times> bytes, unit) outcome" where
  "sync_loop envs outs i r db sent =
     (case sync_round (envs i) (outs i) r db sent of
        Stop res \<Rightarrow> res
      | Next r' db' sent' \<Rightarrow> sync_loop envs outs (i + 1) r' db' sent')"
  by pat_completeness auto

lemma sync_round_consumes:
  assumes "sync_round env out r db sent = Next r' db' sent'"
  shows "length (rd_data r') < length (rd_data r)"
proof -
  obtain res r1 where rf: "ReadFrame the_registry r 0 = (res, r1)" by (cases "ReadFrame the_registry r 0")
  show ?thesis
  proof (cases res)
    case (Ok msg)
    have "r1 = r'"
      using assms rf Ok by (cases msg) (auto simp: sync_round_def split: outcome.splits prod.splits)
    with ReadFrame_consumes(1) [of msg r' the_registry r 0] rf Ok show ?thesis by simp
  next
    case (Err e)
    with assms rf have "Is_ErrMalformedMessage e" "r1 = r'" by (auto simp: sync_round_def split: if_splits)
    with ReadFrame_consumes(2) [of e r' the_registry r 0] rf Err show ?thesis by simp
  qed (use assms rf in \<open>simp add: sync_round_def\<close>)
qed

termination sync_loop
  by (relation "measure (\<lambda>(envs, outs, i, r, db, sent). length (rd_data r))") (auto dest: sync_round_consumes)

declare sync_loop.simps [simp del]

text \<open>\<open>dial\<close> is the error of \<open>net.Dial\<close>, if any, \<open>joined\<close> the outcome of sending the join message.\<close>

definition syncWithLeader :: "IOError option \<Rightarrow> write_outcome \<Rightarrow> (nat \<Rightarrow> Env) \<Rightarrow> (nat \<Rightarrow> write_outcome) \<Rightarrow> Reader \<Rightarrow>
    KVStore \<Rightarrow> bytes \<Rightarrow> (ProtoError, KVStore \<times> bytes, unit) outcome" where
  "syncWithLeader dial joined envs outs r db nodeAddr =
     (case dial of
        Some e \<Rightarrow> Returns (Inl (IO e)) (db, [])
      | None \<Rightarrow>
          (case WriteFrame joined [] (MReplicationJoin \<lparr>rj_NodeAddr = nodeAddr\<rparr>) of
             (Err e, sent) \<Rightarrow> Returns (Inl e) (db, sent)
           | (Panic, sent) \<Rightarrow> Panics
           | (Ok _, sent) \<Rightarrow> sync_loop envs outs 0 r db sent))"

text \<open>The head of the loop of \<open>RunFollower\<close>: the address of the leader to sync with, or \<open>None\<close> where it
  waits.\<close>

definition RunFollower_target :: "RaftState \<Rightarrow> bytes \<Rightarrow> bytes option" where
  "RunFollower_target raft nodeAddr =
     (if GetRole raft = RoleLeader then None
      else let leaderAddr = GetLeaderAddr raft
           in if leaderAddr = [] \<or> leaderAddr = nodeAddr then None else Some leaderAddr)"

text \<open>\<open>RunFollower\<close>, which never returns: the store after a number of rounds of its loop. A round sees the state of raft
  and, where it syncs, what the connection to the leader gives; errors are printed and the next round begins.\<close>

record FollowRound =
  fr_raft :: RaftState
  fr_dial :: "IOError option"
  fr_joined :: write_outcome
  fr_envs :: "nat \<Rightarrow> Env"
  fr_outs :: "nat \<Rightarrow> write_outcome"
  fr_reader :: Reader

fun RunFollower :: "bytes \<Rightarrow> FollowRound list \<Rightarrow> KVStore \<Rightarrow> (ProtoError, KVStore, unit) outcome" where
  "RunFollower nodeAddr [] db = Returns (Inr ()) db"
| "RunFollower nodeAddr (r # rs) db =
     (case RunFollower_target (fr_raft r) nodeAddr of
        None \<Rightarrow> RunFollower nodeAddr rs db
      | Some leaderAddr \<Rightarrow>
          (case syncWithLeader (fr_dial r) (fr_joined r) (fr_envs r) (fr_outs r) (fr_reader r) db nodeAddr of
             Returns err (db', sent) \<Rightarrow> RunFollower nodeAddr rs db'
           | Blocks \<Rightarrow> Blocks
           | Diverges \<Rightarrow> Diverges
           | Panics \<Rightarrow> Panics))"

section \<open>Lemmas on the leader\<close>

lemma conn_write_fields:
  "conn_write out c b net = (err, net') \<Longrightarrow> net_closed net' = net_closed net \<and>
   (\<forall>d. d \<noteq> c \<longrightarrow> net_sent net' d = net_sent net d)"
  by (auto simp: conn_write_def split: if_splits)

lemma broadcast_writes_dead:
  "broadcast_writes outs frame fs net dead = (dead', net') \<Longrightarrow>
   \<exists>ds. dead' = dead @ ds \<and> set ds \<subseteq> fst ` set fs \<and> (distinct (map fst fs) \<longrightarrow> distinct ds) \<and>
     net_closed net' = net_closed net"
proof (induction outs frame fs net dead rule: broadcast_writes.induct)
  case (2 outs frame addr c rest net dead)
  obtain err net1 where w: "conn_write (outs c) c frame net = (err, net1)"
    by (cases "conn_write (outs c) c frame net")
  note c = conn_write_fields [OF w]
  show ?case
  proof (cases err)
    case None
    with 2(1) [OF w [symmetric]] 2(3) w obtain ds where "dead' = dead @ ds" "set ds \<subseteq> fst ` set rest"
      "distinct (map fst rest) \<longrightarrow> distinct ds" "net_closed net' = net_closed net1" by auto
    with c show ?thesis by auto
  next
    case (Some e)
    with 2(2) [OF w [symmetric]] 2(3) w obtain ds where "dead' = (dead @ [addr]) @ ds" "set ds \<subseteq> fst ` set rest"
      "distinct (map fst rest) \<longrightarrow> distinct ds" "net_closed net' = net_closed net1" by auto
    with c show ?thesis by (intro exI [of _ "addr # ds"]) auto
  qed
qed simp

lemma broadcast_drops_returns:
  assumes "distinct dead" and "set dead \<subseteq> fst ` set (ld_followers l)"
  shows "\<exists>l' net'. broadcast_drops dead l net = Some (l', net') \<and> ld_logIndex l' = ld_logIndex l \<and>
    net_sent net' = net_sent net \<and>
    (gomap_wf (ld_followers l) \<longrightarrow> gomap_wf (ld_followers l')) \<and>
    gomap_get (ld_followers l') = (\<lambda>a. if a \<in> set dead then None else gomap_get (ld_followers l) a) \<and>
    net_closed net' = net_closed net \<union> {c. \<exists>a \<in> set dead. gomap_get (ld_followers l) a = Some c}"
  using assms
proof (induction dead arbitrary: l net)
  case (Cons a dead)
  then have "a \<in> fst ` set (ld_followers l)" by simp
  then obtain c where c: "gomap_get (ld_followers l) a = Some c"
    using gomap_get_None_iff [of "ld_followers l" a] by blast
  define l1 where "l1 = l\<lparr>ld_followers := gomap_delete a (ld_followers l)\<rparr>"
  have l1: "gomap_get (ld_followers l1) = (gomap_get (ld_followers l))(a := None)"
      "gomap_wf (ld_followers l) \<longrightarrow> gomap_wf (ld_followers l1)" "ld_logIndex l1 = ld_logIndex l"
    by (simp_all add: l1_def go_map_simps)
  have "set dead \<subseteq> fst ` set (ld_followers l1)" using Cons.prems by (auto simp: l1_def)
  with Cons.prems(1) Cons.IH [of l1 "conn_close c net"] obtain l' net' where
    r: "broadcast_drops dead l1 (conn_close c net) = Some (l', net')" "ld_logIndex l' = ld_logIndex l1"
    "net_sent net' = net_sent (conn_close c net)" "gomap_wf (ld_followers l1) \<longrightarrow> gomap_wf (ld_followers l')"
    "gomap_get (ld_followers l') = (\<lambda>b. if b \<in> set dead then None else gomap_get (ld_followers l1) b)"
    "net_closed net' = net_closed (conn_close c net) \<union> {d. \<exists>b \<in> set dead. gomap_get (ld_followers l1) b = Some d}"
    by (auto simp del: fun_upd_apply)
  have "broadcast_drops (a # dead) l net = Some (l', net')" using c r(1) by (simp add: l1_def)
  moreover have "net_closed net' = net_closed net \<union> {d. \<exists>b \<in> set (a # dead). gomap_get (ld_followers l) b = Some d}"
    using Cons.prems(1) c unfolding r(6) l1(1) by (auto simp: conn_close_def)
  moreover have "gomap_get (ld_followers l') = (\<lambda>b. if b \<in> set (a # dead) then None else gomap_get (ld_followers l) b)"
    unfolding r(5) l1(1) by auto
  ultimately show ?case using r(2,3,4) l1(2,3) by (auto simp: conn_close_def)
qed auto

lemma broadcast_writes_spares:
  "broadcast_writes outs frame fs net dead = (dead', net') \<Longrightarrow> c \<notin> snd ` set fs \<Longrightarrow> net_sent net' c = net_sent net c"
proof (induction outs frame fs net dead rule: broadcast_writes.induct)
  case (2 outs frame addr d rest net dead)
  obtain err net1 where w: "conn_write (outs d) d frame net = (err, net1)" by (cases "conn_write (outs d) d frame net")
  with 2(3) 2(1) [OF w [symmetric]] 2(2) [OF w [symmetric]] 2(4) conn_write_fields [OF w] show ?case by (cases err) auto
qed simp

lemma broadcast_drops_spares:
  "broadcast_drops dead l net = Some (l', net') \<Longrightarrow> c \<notin> snd ` set (ld_followers l) \<Longrightarrow>
   net_sent net' = net_sent net \<and> (c \<in> net_closed net' \<longleftrightarrow> c \<in> net_closed net) \<and> set (ld_followers l') \<subseteq> set (ld_followers l)"
proof (induction dead l net rule: broadcast_drops.induct)
  case (2 addr rest l net)
  then obtain d where d: "gomap_get (ld_followers l) addr = Some d" by (auto split: option.splits)
  have sub: "set (gomap_delete addr (ld_followers l)) \<subseteq> set (ld_followers l)" by (auto simp: AList.delete_eq)
  have "d \<noteq> c" using 2(3) d by (force dest: map_of_SomeD)
  with 2(1) [OF d] 2(2,3) d sub show ?case by (fastforce simp: conn_close_def)
qed simp

text \<open>A broadcast leaves the connections alone that are no follower's.\<close>

lemma broadcast_spares:
  assumes "broadcast ord outs msg l net = Some (l', net')" and "c \<notin> snd ` set (ld_followers l)"
  shows "net_sent net' c = net_sent net c \<and> (c \<in> net_closed net' \<longleftrightarrow> c \<in> net_closed net) \<and> set (ld_followers l') \<subseteq> set (ld_followers l)"
proof (cases "EncodeFrame msg")
  case (Ok frame)
  obtain dead net1 where w: "broadcast_writes outs frame (in_order ord (ld_followers l)) net [] = (dead, net1)"
    by (cases "broadcast_writes outs frame (in_order ord (ld_followers l)) net []")
  have "c \<notin> snd ` set (in_order ord (ld_followers l))" using assms(2) by (simp add: in_order_def)
  with broadcast_writes_spares [OF w] broadcast_writes_dead [OF w] broadcast_drops_spares [of dead l net1 l' net' c] assms Ok w
  show ?thesis by (auto simp: broadcast_def)
qed (use assms in \<open>simp_all add: broadcast_def\<close>)

text \<open>A broadcast never panics, and it numbers its message with the next index.\<close>

lemma broadcast_returns:
  assumes "gomap_wf (ld_followers l)"
  shows "\<exists>l' net'. broadcast ord outs msg l net = Some (l', net') \<and> gomap_wf (ld_followers l') \<and>
    ld_logIndex l' = ld_logIndex l"
proof -
  obtain p where "EncodeMessage msg = Ok (OpCode msg # p)" by (rule EncodeMessage_Ok)
  then obtain frame where f: "EncodeFrame msg = Ok frame" by (simp add: EncodeFrame_layout)
  obtain dead net1 where w: "broadcast_writes outs frame (in_order ord (ld_followers l)) net [] = (dead, net1)"
    by (cases "broadcast_writes outs frame (in_order ord (ld_followers l)) net []")
  have "distinct (map fst (in_order ord (ld_followers l)))"
    using assms gomap_wf_in_order unfolding gomap_wf_def by blast
  with broadcast_writes_dead [OF w] have "distinct dead" "set dead \<subseteq> fst ` set (ld_followers l)" by auto
  from broadcast_drops_returns [OF this, of net1] assms f w show ?thesis
    by (auto simp: broadcast_def)
qed

text \<open>A peer that is registered on its own, open connection.\<close>

definition subscribed :: "bytes \<Rightarrow> conn \<Rightarrow> Leader \<Rightarrow> Net \<Rightarrow> bool" where
  "subscribed addr c l net \<longleftrightarrow> gomap_wf (ld_followers l) \<and> gomap_get (ld_followers l) addr = Some c \<and>
     (\<forall>a. gomap_get (ld_followers l) a = Some c \<longrightarrow> a = addr) \<and> c \<notin> net_closed net"

lemma broadcast_writes_append:
  "broadcast_writes outs frame (xs @ ys) net dead =
     (let (d, n) = broadcast_writes outs frame xs net dead in broadcast_writes outs frame ys n d)"
proof (induction outs frame xs net dead rule: broadcast_writes.induct)
  case (2 outs frame addr c rest net dead)
  obtain err net1 where "conn_write (outs c) c frame net = (err, net1)"
    by (cases "conn_write (outs c) c frame net")
  with 2 show ?case by (cases err) auto
qed simp

lemma broadcast_writes_other:
  "broadcast_writes outs frame fs net dead = (dead', net') \<Longrightarrow> c \<notin> snd ` set fs \<Longrightarrow> net_sent net' c = net_sent net c"
proof (induction outs frame fs net dead rule: broadcast_writes.induct)
  case (2 outs frame addr d rest net dead)
  obtain err net1 where w: "conn_write (outs d) d frame net = (err, net1)"
    by (cases "conn_write (outs d) d frame net")
  with 2 conn_write_fields [OF w] show ?case
    by (cases err) auto
qed simp

lemma broadcast_writes_conn:
  assumes "distinct (map fst fs)" and "(addr, c) \<in> set fs" and "\<And>a. (a, c) \<in> set fs \<Longrightarrow> a = addr"
    and "c \<notin> net_closed net" and "outs c = WriteOk" and "broadcast_writes outs frame fs net [] = (dead, net')"
  shows "net_sent net' c = net_sent net c @ frame \<and> addr \<notin> set dead"
proof -
  obtain xs ys where fs: "fs = xs @ (addr, c) # ys" using assms(2) by (meson split_list)
  have addr: "addr \<notin> fst ` set xs" "addr \<notin> fst ` set ys" using assms(1) fs by auto
  then have c: "c \<notin> snd ` set xs" "c \<notin> snd ` set ys" using assms(3) fs by force+
  obtain d1 n1 where 1: "broadcast_writes outs frame xs net [] = (d1, n1)"
    by (cases "broadcast_writes outs frame xs net []")
  define n2 where "n2 = n1\<lparr>net_sent := (net_sent n1)(c := net_sent n1 c @ frame)\<rparr>"
  note w1 = broadcast_writes_dead [OF 1] and o1 = broadcast_writes_other [OF 1 c(1)]
  have "broadcast_writes outs frame ys n2 d1 = (dead, net')"
    using assms(4,5,6) w1 1 by (simp add: fs broadcast_writes_append conn_write_def n2_def)
  from broadcast_writes_dead [OF this] broadcast_writes_other [OF this c(2)] w1 o1 addr show ?thesis
    by (auto simp: n2_def)
qed

text \<open>A broadcast reaches such a peer whatever happens on the other connections, and it stays registered.\<close>

lemma broadcast_subscribed:
  assumes "subscribed addr c l net" and "outs c = WriteOk" and "EncodeFrame msg = Ok frame"
  obtains l' net' where "broadcast ord outs msg l net = Some (l', net')" "subscribed addr c l' net'"
    "ld_logIndex l' = ld_logIndex l" "net_sent net' c = net_sent net c @ frame"
proof -
  let ?fs = "in_order ord (ld_followers l)"
  obtain dead net1 where w: "broadcast_writes outs frame ?fs net [] = (dead, net1)"
    by (cases "broadcast_writes outs frame ?fs net []")
  have wf: "gomap_wf (ld_followers l)" "distinct (map fst ?fs)"
    using assms(1) gomap_wf_in_order [of ord "ld_followers l"] by (simp_all add: subscribed_def gomap_wf_def)
  have in_fs: "(a, d) \<in> set ?fs \<longleftrightarrow> gomap_get (ld_followers l) a = Some d" for a d
    using wf(1) by (simp add: gomap_get_Some_iff)
  have "(addr, c) \<in> set ?fs" "\<And>a. (a, c) \<in> set ?fs \<Longrightarrow> a = addr" "c \<notin> net_closed net"
    using assms(1) unfolding in_fs subscribed_def by blast+
  then have c: "net_sent net1 c = net_sent net c @ frame" "addr \<notin> set dead"
    using broadcast_writes_conn [OF wf(2) _ _ _ assms(2) w] by blast+
  have d: "distinct dead" "set dead \<subseteq> fst ` set (ld_followers l)" "net_closed net1 = net_closed net"
    using broadcast_writes_dead [OF w] wf(2) by auto
  from broadcast_drops_returns [OF d(1,2), of net1] obtain l' net' where r: "broadcast_drops dead l net1 = Some (l', net')"
    "ld_logIndex l' = ld_logIndex l" "net_sent net' = net_sent net1" "gomap_wf (ld_followers l')"
    "gomap_get (ld_followers l') = (\<lambda>a. if a \<in> set dead then None else gomap_get (ld_followers l) a)"
    "net_closed net' = net_closed net1 \<union> {c. \<exists>a \<in> set dead. gomap_get (ld_followers l) a = Some c}"
    using wf(1) by blast
  have "gomap_get (ld_followers l') addr = Some c"
    using assms(1) c(2) by (simp add: r(5) subscribed_def)
  moreover have "\<forall>a. gomap_get (ld_followers l') a = Some c \<longrightarrow> a = addr"
    using assms(1) unfolding r(5) subscribed_def by (metis option.distinct(1))
  moreover have "c \<notin> net_closed net'"
    using assms(1) c(2) unfolding r(6) d(3) subscribed_def by blast
  ultimately have "subscribed addr c l' net'" using r(4) unfolding subscribed_def by blast
  with r(1,2,3) c(1) w assms(3) show ?thesis
    by (intro that [of l' net']) (simp_all add: broadcast_def)
qed

section \<open>Lemmas on the follower\<close>

text \<open>A log with room for \<open>n\<close> more records, and surroundings in which the file takes them.\<close>

definition log_room :: "nat \<Rightarrow> WAL \<Rightarrow> bool" where
  "log_room n w \<longleftrightarrow>
     (if w_Mode w = SyncInterval then int (length (w_writeCh w) + n) \<le> w_MaxBatchSize w * 2 else \<not> w_closed w)"

definition file_works :: "Env \<Rightarrow> bool" where
  "file_works env \<longleftrightarrow> env_write env = WriteOk \<and> env_sync env = None"

lemma append_room:
  assumes "log_room (Suc n) w" and "file_works env"
  obtains w' where "append (env_write env) (env_sync env) r w = Some (None, w')" "log_room n w'"
proof (cases "w_Mode w = SyncInterval")
  case True
  with assms show ?thesis
    by (intro that [of "w\<lparr>w_writeCh := w_writeCh w @ [encode r]\<rparr>"]) (simp_all add: append_def log_room_def Let_def)
next
  case False
  with assms obtain w1 where 1: "file_write WriteOk (encode r) w = (None, w1)" "\<not> w_closed w1" "w_Mode w1 = w_Mode w"
    by (simp add: log_room_def file_write_def)
  then obtain w2 where "file_sync None w1 = (None, w2)" "\<not> w_closed w2" "w_Mode w2 = w_Mode w"
    by (simp add: file_sync_def)
  with False 1 assms(2) show ?thesis
    by (intro that [of "if w_Mode w = SyncAlways then w2 else w1"]) (auto simp: append_def log_room_def file_works_def Let_def)
qed

lemma store_view_upd:
  "contents kv' = (contents kv)(k := r) \<Longrightarrow>
   store_view kv' = (store_view kv)(k := map_option (\<lambda>rec. (rc_value rec, rc_expiredAt rec)) r)"
  by (auto simp: store_view_def fun_eq_iff)

text \<open>A store that can take \<open>n\<close> more changes.\<close>

definition replica_ready :: "nat \<Rightarrow> KVStore \<Rightarrow> bool" where
  "replica_ready n kv \<longleftrightarrow> kv_inv kv \<and> unlimited kv \<and> log_room n (kv_wal kv)"

lemma ready_Set:
  assumes "replica_ready (Suc n) db" and "file_works env"
  obtains db' where "SetWithExpiry env key val e db = Returns (Inr ()) db'" "replica_ready n db'"
    "store_view db' = (store_view db)(key \<mapsto> (val, e))"
proof -
  have db: "kv_inv db" "unlimited db" "log_room (Suc n) (kv_wal db)" using assms(1) by (simp_all add: replica_ready_def)
  obtain w where w: "append (env_write env) (env_sync env) (set_record key val e) (kv_wal db) = Some (None, w)" "log_room n w"
    using append_room [OF db(3) assms(2)] by blast
  obtain db' where "SetWithExpiry env key val e db = Returns (Inr ()) db'" "kv_wal db' = w" "unlimited db'"
    "contents db' = (contents db)(key \<mapsto> \<lparr>rc_value = val, rc_createdAt = env_now env, rc_expiredAt = e\<rparr>)"
    using SetWithExpiry_unlimited [OF db(1,2)] w(1) unfolding AppendSet_def by blast
  then show ?thesis
    using w(2) SetWithExpiry_inv [OF db(1)] by (intro that [of db']) (auto simp: replica_ready_def dest: store_view_upd)
qed

lemma ready_Delete:
  assumes "replica_ready (Suc n) db" and "file_works env"
  obtains db' where "Delete env key db = Returns (if contents db key = None then Inl ErrKeyNotFound else Inr ()) db'" "replica_ready n db'"
    "store_view db' = (store_view db)(key := None)"
proof -
  have db: "kv_inv db" "unlimited db" "log_room (Suc n) (kv_wal db)" using assms(1) by (simp_all add: replica_ready_def)
  obtain w where w: "append (env_write env) (env_sync env) (delete_record key) (kv_wal db) = Some (None, w)" "log_room n w"
    using append_room [OF db(3) assms(2)] by blast
  obtain db' where "Delete env key db = Returns (if contents db key = None then Inl ErrKeyNotFound else Inr ()) db'"
    "kv_wal db' = w" "unlimited db'" "contents db' = (contents db)(key := None)"
    using Delete_logged [OF db(1)] db(2) w(1) unfolding AppendDelete_def by blast
  then show ?thesis
    using w(2) Delete_inv [OF db(1)] by (intro that [of db']) (auto simp: replica_ready_def dest: store_view_upd)
qed

text \<open>The change a message describes, as a log record.\<close>

definition sync_record :: "ReplicationSync \<Rightarrow> Record" where
  "sync_record sync = \<lparr>wr_Op = rs_Op sync, wr_Key = rs_Key sync, wr_Value = rs_Value sync,
     wr_ExpiresAt = from_nano (rs_ExpiresAt sync)\<rparr>"

lemma applySync_view:
  assumes "replica_ready (Suc n) db" and "file_works env"
  obtains db' where "applySync env sync db = Returns (Inr ()) db'" "replica_ready n db'"
    "store_view db' = log_apply (sync_record sync) (store_view db)"
proof -
  have db: "kv_inv db" "unlimited db" "log_room (Suc n) (kv_wal db)" using assms(1) by (simp_all add: replica_ready_def)
  have room: "log_room n w" if "log_room (Suc n) w" for w using that by (simp add: log_room_def split: if_splits)
  consider (set) "rs_Op sync = WAL_OpSet" | (del) "rs_Op sync = WAL_OpDelete" | (other) "rs_Op sync \<noteq> WAL_OpSet" "rs_Op sync \<noteq> WAL_OpDelete"
    by blast
  then show ?thesis
  proof cases
    case set
    obtain db' where "SetWithExpiry env (rs_Key sync) (rs_Value sync) (from_nano (rs_ExpiresAt sync)) db = Returns (Inr ()) db'"
      "replica_ready n db'" "store_view db' = (store_view db)(rs_Key sync \<mapsto> (rs_Value sync, from_nano (rs_ExpiresAt sync)))"
      using assms by (rule ready_Set)
    with set show ?thesis
      by (intro that [of db']) (simp_all add: applySync_def log_apply_def sync_record_def)
  next
    case del
    obtain db' where "Delete env (rs_Key sync) db = Returns (if contents db (rs_Key sync) = None then Inl ErrKeyNotFound else Inr ()) db'"
      "replica_ready n db'" "store_view db' = (store_view db)(rs_Key sync := None)"
      using assms by (rule ready_Delete)
    with del show ?thesis
      by (intro that [of db']) (simp_all add: applySync_def log_apply_def sync_record_def WAL_OpSet_def WAL_OpDelete_def)
  next
    case other
    then show ?thesis
      using db room by (intro that [of db]) (simp_all add: applySync_def replica_ready_def log_apply_def sync_record_def)
  qed
qed

lemma sync_round_frame:
  assumes "Frame_valid (MReplicationSync sync)" and "EncodeFrame (MReplicationSync sync) = Ok frame"
    and "applySync env sync db = Returns u db'"
  shows "\<exists>sent'. sync_round env out \<lparr>rd_data = frame @ rest, rd_end = e\<rparr> db sent = Next \<lparr>rd_data = rest, rd_end = e\<rparr> db' sent'"
proof -
  have "ReadFrame the_registry \<lparr>rd_data = frame @ rest, rd_end = e\<rparr> 0 =
      (Ok (MReplicationSync sync), \<lparr>rd_data = rest, rd_end = e\<rparr>)"
    using assms(1,2) by (intro ReadFrame_EncodeFrame) (simp_all add: within_limit_def)
  with assms(3) show ?thesis
    by (auto simp: sync_round_def split: prod.splits)
qed

lemma sync_round_end:
  "sync_round env out \<lparr>rd_data = [], rd_end = e\<rparr> db sent = Stop (if e = StillWaiting then Blocks else Returns (Inl (IO e)) (db, sent))"
  by (simp add: sync_round_def ReadFrame_def ReadFull_def frameHeaderSize_def)

lemma sync_loop_frame:
  assumes "Frame_valid (MReplicationSync sync)" and "EncodeFrame (MReplicationSync sync) = Ok frame"
    and "applySync (envs i) sync db = Returns u db'"
  shows "\<exists>sent'. sync_loop envs outs i \<lparr>rd_data = frame @ rest, rd_end = e\<rparr> db sent =
    sync_loop envs outs (Suc i) \<lparr>rd_data = rest, rd_end = e\<rparr> db' sent'"
  using sync_round_frame [where out = "outs i" and rest = rest and e = e and sent = sent, OF assms]
  by (subst sync_loop.simps) auto

lemma sync_loop_end:
  "sync_loop envs outs i \<lparr>rd_data = [], rd_end = EOF\<rparr> db sent = Returns (Inl (IO EOF)) (db, sent)"
  by (subst sync_loop.simps) (simp add: sync_round_end)

text \<open>The frames of a list of changes, applied in order.\<close>

lemma sync_loop_frames:
  assumes "list_all (\<lambda>m. Frame_valid (MReplicationSync m)) ms"
    and "map (\<lambda>m. EncodeFrame (MReplicationSync m)) ms = map Ok fs"
    and "replica_ready (length ms) db" and "\<And>j. file_works (envs j)"
  shows "\<exists>db' sent'. sync_loop envs outs i \<lparr>rd_data = concat fs, rd_end = EOF\<rparr> db sent = Returns (Inl (IO EOF)) (db', sent') \<and>
    kv_inv db' \<and> store_view db' = fold log_apply (map sync_record ms) (store_view db)"
  using assms(1-3)
proof (induction ms arbitrary: fs i db sent)
  case Nil
  then show ?case by (simp add: sync_loop_end replica_ready_def)
next
  case (Cons m ms)
  then obtain f fs' where fs: "fs = f # fs'" "EncodeFrame (MReplicationSync m) = Ok f"
    "map (\<lambda>m. EncodeFrame (MReplicationSync m)) ms = map Ok fs'"
    by (cases fs) auto
  obtain db1 where 1: "applySync (envs i) m db = Returns (Inr ()) db1" "replica_ready (length ms) db1"
    "store_view db1 = log_apply (sync_record m) (store_view db)"
    using Cons.prems(3) assms(4) by (auto intro: applySync_view [of "length ms" db "envs i" m])
  obtain sent1 where "sync_loop envs outs i \<lparr>rd_data = f @ concat fs', rd_end = EOF\<rparr> db sent =
      sync_loop envs outs (Suc i) \<lparr>rd_data = concat fs', rd_end = EOF\<rparr> db1 sent1"
    using sync_loop_frame [where envs = envs and outs = outs and rest = "concat fs'" and e = EOF and sent = sent, OF _ fs(2) 1(1)]
      Cons.prems(1) by auto
  with Cons.IH [OF _ fs(3) 1(2), of "Suc i" sent1] Cons.prems(1) show ?case
    by (simp add: fs(1) 1(3))
qed

section \<open>Properties\<close>

text \<open>A follower that reconnects is dropped when its old connection ends. The goroutine that
  reads the acks of the old connection removes whatever is registered under the address, so it closes
  the new connection and the follower gets no further changes.\<close>

lemma reconnect_dropped:
  assumes "drain_loop r = Err e" and "e \<noteq> IO StillWaiting"
  shows "\<exists>l' net'. drainAcks addr r (AddFollower addr new l) net = Some (l', net') \<and>
    gomap_get (ld_followers l') addr = None \<and> new \<in> net_closed net' \<and>
    (\<forall>a. a \<noteq> addr \<longrightarrow> gomap_get (ld_followers l') a = gomap_get (ld_followers l) a)"
  using assms by (simp add: drainAcks_def AddFollower_def removeFollower_def conn_close_def go_map_simps)

end
