(* ===== verification/Node.thy ===== *)
theory Node
  imports Replication
begin

text \<open>
  The node: \<open>cluster/node.go\<close>. It joins the store, the raft state and, while it leads, the replication to
  followers, and it is the store that the engine works on: the contract \<open>engine_store\<close> is discharged
  here. The theorems at the end are about what a leader's writes become on a follower.
\<close>

section \<open>State\<close>

text \<open>\<open>nd_net\<close> has the connections of the process.\<close>

record Node =
  nd_db :: KVStore
  nd_defaultTTL :: duration
  nd_raft :: RaftState
  nd_leader :: "Leader option"
  nd_net :: Net

text \<open>What a call meets: the clock, the surroundings of the store, the outcomes of writes on connections,
  and the order in which the followers are found.\<close>

record NodeEnv =
  ne_now :: gotime
  ne_env :: Env
  ne_conns :: "conn \<Rightarrow> write_outcome"
  ne_addrs :: "bytes map_order"

definition NewNode :: "KVStore \<Rightarrow> duration \<Rightarrow> bytes \<Rightarrow> bytes list \<Rightarrow> Node" where
  "NewNode db defaultTTL nodeAddr peers =
     \<lparr>nd_db = db, nd_defaultTTL = defaultTTL, nd_raft = NewRaftState nodeAddr peers, nd_leader = None,
      nd_net = \<lparr>net_sent = (\<lambda>_. []), net_closed = {}\<rparr>\<rparr>"

definition ForceLeader :: "Node \<Rightarrow> Node" where
  "ForceLeader n = n\<lparr>nd_leader := Some newLeader\<rparr>"

section \<open>The store interface\<close>

text \<open>\<open>Set\<close> and \<open>Delete\<close> in their two parts: the change of the store, then the broadcast. Other calls may
  run in between.\<close>

definition Node_Set_expiry :: "NodeEnv \<Rightarrow> duration \<Rightarrow> Node \<Rightarrow> gotime" where
  "Node_Set_expiry ne ttl n = (let ttl = (if ttl \<le> 0 then nd_defaultTTL n else ttl) in ne_now ne + ttl)"

fun on_db :: "(StoreError, KVStore, 'a) outcome \<Rightarrow> Node \<Rightarrow> (StoreError, Node, 'a) outcome" where
  "on_db (Returns r db) n = Returns r (n\<lparr>nd_db := db\<rparr>)"
| "on_db Blocks n = Blocks"
| "on_db Diverges n = Diverges"
| "on_db Panics n = Panics"

definition Node_Set_broadcast :: "NodeEnv \<Rightarrow> bytes \<Rightarrow> bytes \<Rightarrow> gotime \<Rightarrow> Node \<Rightarrow> (StoreError, Node, unit) outcome" where
  "Node_Set_broadcast ne key val expiredAt n =
     (case nd_leader n of
        None \<Rightarrow> Returns (Inr ()) n
      | Some l \<Rightarrow>
          (case BroadcastSet (ne_addrs ne) (ne_conns ne) key val (unix_nano expiredAt) l (nd_net n) of
             None \<Rightarrow> Panics
           | Some (l', net') \<Rightarrow> Returns (Inr ()) (n\<lparr>nd_leader := Some l', nd_net := net'\<rparr>)))"

definition Node_Set :: "NodeEnv \<Rightarrow> bytes \<Rightarrow> bytes \<Rightarrow> duration \<Rightarrow> Node \<Rightarrow> (StoreError, Node, unit) outcome" where
  "Node_Set ne key val ttl n =
     (let expiredAt = Node_Set_expiry ne ttl n
      in after (on_db (SetWithExpiry (ne_env ne) key val expiredAt (nd_db n)) n)
           (\<lambda>err n. case err of
              Inl e \<Rightarrow> Returns (Inl e) n
            | Inr _ \<Rightarrow> Node_Set_broadcast ne key val expiredAt n))"

definition Node_Get :: "gotime \<Rightarrow> bytes \<Rightarrow> Node \<Rightarrow> (StoreError, Node, bytes) outcome" where
  "Node_Get now key n = on_db (Get now key (nd_db n)) n"

definition Node_Delete_broadcast :: "NodeEnv \<Rightarrow> bytes \<Rightarrow> Node \<Rightarrow> (StoreError, Node, unit) outcome" where
  "Node_Delete_broadcast ne key n =
     (case nd_leader n of
        None \<Rightarrow> Returns (Inr ()) n
      | Some l \<Rightarrow>
          (case BroadcastDelete (ne_addrs ne) (ne_conns ne) key l (nd_net n) of
             None \<Rightarrow> Panics
           | Some (l', net') \<Rightarrow> Returns (Inr ()) (n\<lparr>nd_leader := Some l', nd_net := net'\<rparr>)))"

definition Node_Delete :: "NodeEnv \<Rightarrow> bytes \<Rightarrow> Node \<Rightarrow> (StoreError, Node, unit) outcome" where
  "Node_Delete ne key n =
     after (on_db (Delete (ne_env ne) key (nd_db n)) n)
       (\<lambda>err n. case err of
          Inl e \<Rightarrow> Returns (Inl e) n
        | Inr _ \<Rightarrow> Node_Delete_broadcast ne key n)"

text \<open>The node as the engine's store, all of whose calls happen at the same time.\<close>

definition node_store :: "NodeEnv \<Rightarrow> Node EngineStore" where
  "node_store ne = \<lparr>st_Set = Node_Set ne, st_Get = Node_Get (ne_now ne), st_Delete = Node_Delete ne\<rparr>"

section \<open>Raft integration\<close>

definition IsLeader :: "Node \<Rightarrow> bool" where
  "IsLeader n \<longleftrightarrow> GetRole (nd_raft n) = RoleLeader"

definition Node_Leader :: "Node \<Rightarrow> Leader option" where
  "Node_Leader n = nd_leader n"

definition becomeLeader :: "Node \<Rightarrow> Node" where
  "becomeLeader n = n\<lparr>nd_leader := Some newLeader\<rparr>"

definition becomeFollower :: "Node \<Rightarrow> Node" where
  "becomeFollower n = n\<lparr>nd_leader := None\<rparr>"

text \<open>The callback that raft calls after it has changed its state and released its lock.\<close>

fun run_callback :: "callback \<Rightarrow> Node \<Rightarrow> Node" where
  "run_callback NoCallback n = n"
| "run_callback OnLeader n = becomeLeader n"
| "run_callback OnFollower n = becomeFollower n"

definition Node_HandleHeartbeat :: "u64 \<Rightarrow> bytes \<Rightarrow> Node \<Rightarrow> Node" where
  "Node_HandleHeartbeat term leaderID n =
     (let (cb, r) = HandleHeartbeat term leaderID (nd_raft n) in run_callback cb (n\<lparr>nd_raft := r\<rparr>))"

definition Node_HandleVoteRequest :: "VoteRequest \<Rightarrow> Node \<Rightarrow> (bool \<times> u64) \<times> Node" where
  "Node_HandleVoteRequest req n =
     (let (a, cb, r) = HandleVoteRequest req (nd_raft n) in (a, run_callback cb (n\<lparr>nd_raft := r\<rparr>)))"

definition Node_GetTerm :: "Node \<Rightarrow> u64" where
  "Node_GetTerm n = GetTerm (nd_raft n)"

definition GetTopology :: "Node \<Rightarrow> TopologyResponse" where
  "GetTopology n =
     (let leaderAddr = GetLeaderAddr (nd_raft n);
          peers = GetPeers (nd_raft n)
      in \<lparr>tr_LeaderAddr = leaderAddr,
          tr_Nodes = map (\<lambda>addr. \<lparr>ni_Address = addr,
                                   ni_Role = (if addr = leaderAddr then TopologyRoleLeader else TopologyRoleFollower),
                                   ni_NodeID = addr\<rparr>) peers\<rparr>)"

section \<open>The contract of the engine\<close>

definition node_inv :: "Node \<Rightarrow> bool" where
  "node_inv n \<longleftrightarrow> kv_inv (nd_db n) \<and> 0 \<le> nd_defaultTTL n \<and>
     (case nd_leader n of None \<Rightarrow> True | Some l \<Rightarrow> gomap_wf (ld_followers l))"

lemma on_db_Returns: "on_db x n = Returns r n' \<longleftrightarrow> (\<exists>db. x = Returns r db \<and> n' = n\<lparr>nd_db := db\<rparr>)"
  by (cases x) auto

lemma on_db_safe: "on_db x n \<in> {Diverges, Panics} \<longleftrightarrow> x \<in> {Diverges, Panics}"
  by (cases x) auto

lemma node_inv_db: "node_inv n \<Longrightarrow> kv_inv db \<Longrightarrow> node_inv (n\<lparr>nd_db := db\<rparr>)"
  by (simp add: node_inv_def)

text \<open>A broadcast changes neither the store nor the rest of the node.\<close>

lemma Node_broadcast_returns:
  assumes "node_inv n"
  shows "\<exists>n'. Node_Set_broadcast ne key val e n = Returns (Inr ()) n' \<and> nd_db n' = nd_db n \<and> nd_raft n' = nd_raft n \<and> node_inv n'"
      (is ?set)
    and "\<exists>n'. Node_Delete_broadcast ne key n = Returns (Inr ()) n' \<and> nd_db n' = nd_db n \<and> nd_raft n' = nd_raft n \<and> node_inv n'"
      (is ?delete)
proof -
  have "?set \<and> ?delete"
  proof (cases "nd_leader n")
    case None
    with assms show ?thesis by (simp add: Node_Set_broadcast_def Node_Delete_broadcast_def)
  next
    case (Some l)
    let ?l = "l\<lparr>ld_logIndex := ld_logIndex l + 1\<rparr>"
    have wf: "gomap_wf (ld_followers ?l)" using assms Some by (simp add: node_inv_def)
    obtain l1 net1 where "BroadcastSet (ne_addrs ne) (ne_conns ne) key val (unix_nano e) l (nd_net n) = Some (l1, net1)"
      "gomap_wf (ld_followers l1)"
      using broadcast_returns [OF wf] unfolding BroadcastSet_def Let_def by blast
    moreover obtain l2 net2 where "BroadcastDelete (ne_addrs ne) (ne_conns ne) key l (nd_net n) = Some (l2, net2)"
      "gomap_wf (ld_followers l2)"
      using broadcast_returns [OF wf] unfolding BroadcastDelete_def Let_def by blast
    ultimately show ?thesis
      using assms Some by (simp add: Node_Set_broadcast_def Node_Delete_broadcast_def node_inv_def)
  qed
  then show ?set and ?delete by blast+
qed

text \<open>How the calls return.\<close>

lemma Node_Set_returns:
  assumes "node_inv n" and "SetWithExpiry (ne_env ne) key val (Node_Set_expiry ne ttl n) (nd_db n) = Returns r db"
  shows "\<exists>n'. Node_Set ne key val ttl n = Returns r n' \<and> nd_db n' = db \<and> node_inv n' \<and> nd_raft n' = nd_raft n"
proof -
  have i: "node_inv (n\<lparr>nd_db := db\<rparr>)"
    using assms(1) SetWithExpiry_inv [OF _ assms(2)] by (simp add: node_inv_def)
  show ?thesis
  proof (cases r)
    case (Inl e)
    with assms(2) i show ?thesis by (simp add: Node_Set_def)
  next
    case (Inr u)
    with assms(2) Node_broadcast_returns(1) [OF i, of ne key val "Node_Set_expiry ne ttl n"] show ?thesis
      by (auto simp: Node_Set_def)
  qed
qed

lemma Node_Delete_returns:
  assumes "node_inv n" and "Delete (ne_env ne) key (nd_db n) = Returns r db"
  shows "\<exists>n'. Node_Delete ne key n = Returns r n' \<and> nd_db n' = db \<and> node_inv n' \<and> nd_raft n' = nd_raft n"
proof -
  have i: "node_inv (n\<lparr>nd_db := db\<rparr>)"
    using assms(1) Delete_inv [OF _ assms(2)] by (simp add: node_inv_def)
  show ?thesis
  proof (cases r)
    case (Inl e)
    with assms(2) i show ?thesis by (simp add: Node_Delete_def)
  next
    case (Inr u)
    with assms(2) Node_broadcast_returns(2) [OF i, of ne key] show ?thesis
      by (auto simp: Node_Delete_def)
  qed
qed

lemma Node_Set_cases:
  assumes "node_inv n"
  shows "(\<exists>r db. SetWithExpiry (ne_env ne) key val (Node_Set_expiry ne ttl n) (nd_db n) = Returns r db) \<or>
    Node_Set ne key val ttl n = Blocks"
  using assms SetWithExpiry_total [of "nd_db n" "ne_env ne" key val "Node_Set_expiry ne ttl n"]
  by (cases "SetWithExpiry (ne_env ne) key val (Node_Set_expiry ne ttl n) (nd_db n)") (auto simp: Node_Set_def node_inv_def)

lemma Node_Delete_cases:
  assumes "node_inv n"
  shows "(\<exists>r db. Delete (ne_env ne) key (nd_db n) = Returns r db) \<or> Node_Delete ne key n = Blocks"
  using assms Delete_total [of "nd_db n" "ne_env ne" key]
  by (cases "Delete (ne_env ne) key (nd_db n)") (auto simp: Node_Delete_def node_inv_def)

lemma Node_Get_returns:
  assumes "node_inv n"
  shows "\<exists>db. Node_Get now key n = Returns (read_result now (contents (nd_db n) key)) (n\<lparr>nd_db := db\<rparr>) \<and>
    node_inv (n\<lparr>nd_db := db\<rparr>)"
proof -
  have i: "kv_inv (nd_db n)" using assms by (simp add: node_inv_def)
  obtain db where "Get now key (nd_db n) = Returns (read_result now (contents (nd_db n) key)) db"
    using Get_result [OF i] by blast
  with Get_store [OF i this] assms show ?thesis by (auto simp: Node_Get_def node_inv_db)
qed

lemma SetWithExpiry_contents:
  assumes "kv_inv kv" and "SetWithExpiry env key val e kv = Returns (Inr ()) kv'"
  shows "contents kv' key = Some \<lparr>rc_value = val, rc_createdAt = env_now env, rc_expiredAt = e\<rparr>"
  using assms
proof (cases rule: SetWithExpiry_cases)
  case (accepted w i sh)
  then show ?thesis using getShard_less [OF accepted(2)] by (simp add: contents_set_shard)
qed simp_all

lemma Delete_contents:
  assumes "kv_inv kv" and "Delete env key kv = Returns (Inr ()) kv'"
  shows "contents kv' key = None"
  using assms
proof (cases rule: Delete_cases)
  case (deleted w i rec)
  then show ?thesis using getShard_less [OF deleted(2)] by (simp add: contents_set_shard)
qed simp_all

lemma Node_Set_stored:
  assumes "node_inv n" and "Node_Set ne key val ttl n = Returns r n'"
  shows "SetWithExpiry (ne_env ne) key val (Node_Set_expiry ne ttl n) (nd_db n) = Returns r (nd_db n') \<and> node_inv n'"
  using Node_Set_cases [OF assms(1), of ne key val ttl] Node_Set_returns [OF assms(1), of ne key val ttl] assms(2) by auto

lemma Node_Delete_stored:
  assumes "node_inv n" and "Node_Delete ne key n = Returns r n'"
  shows "Delete (ne_env ne) key (nd_db n) = Returns r (nd_db n') \<and> node_inv n'"
  using Node_Delete_cases [OF assms(1), of ne key] Node_Delete_returns [OF assms(1), of ne key] assms(2) by auto

interpretation node_engine: engine_store "node_store ne" node_inv for ne
proof
  fix n key val ttl assume i: "node_inv n"
  show "st_Set (node_store ne) key val ttl n \<notin> {Diverges, Panics}"
    using Node_Set_cases [OF i, of ne key val ttl] Node_Set_returns [OF i, of ne key val ttl] by (auto simp: node_store_def)
  show "st_Delete (node_store ne) key n \<notin> {Diverges, Panics}"
    using Node_Delete_cases [OF i, of ne key] Node_Delete_returns [OF i, of ne key] by (auto simp: node_store_def)
  show "\<exists>r n'. st_Get (node_store ne) key n = Returns r n'"
    using Node_Get_returns [OF i] by (fastforce simp: node_store_def)
  show "node_inv n'" if "st_Set (node_store ne) key val ttl n = Returns r n'" for r n'
    using that Node_Set_stored [OF i] by (auto simp: node_store_def)
  show "node_inv n'" if "st_Delete (node_store ne) key n = Returns r n'" for r n'
    using that Node_Delete_stored [OF i] by (auto simp: node_store_def)
  show "node_inv n'" if "st_Get (node_store ne) key n = Returns r n'" for r n'
    using that Node_Get_returns [OF i, of "ne_now ne" key] by (auto simp: node_store_def)
  show "e = ErrKeyNotFound" if "st_Get (node_store ne) key n = Returns (Inl e) n'" for e n'
    using that Node_Get_returns [OF i, of "ne_now ne" key] by (auto simp: node_store_def read_result_def split: option.splits if_splits)
  show "\<exists>n''. st_Get (node_store ne) key n' = Returns (Inr val) n''"
    if s: "st_Set (node_store ne) key val ttl n = Returns (Inr ()) n'" for n'
  proof -
    have db: "SetWithExpiry (ne_env ne) key val (Node_Set_expiry ne ttl n) (nd_db n) = Returns (Inr ()) (nd_db n')" "node_inv n'"
      using s Node_Set_stored [OF i] by (simp_all add: node_store_def)
    have "ne_now ne \<le> Node_Set_expiry ne ttl n" using i by (simp add: Node_Set_expiry_def node_inv_def)
    with Node_Get_returns [OF db(2), of "ne_now ne" key] SetWithExpiry_contents [OF _ db(1)] i show ?thesis
      by (auto simp: node_store_def node_inv_def read_result_def)
  qed
  show "\<exists>n''. st_Get (node_store ne) key n' = Returns (Inl ErrKeyNotFound) n''"
    if s: "st_Delete (node_store ne) key n = Returns (Inr ()) n'" for n'
  proof -
    have db: "Delete (ne_env ne) key (nd_db n) = Returns (Inr ()) (nd_db n')" "node_inv n'"
      using s Node_Delete_stored [OF i] by (simp_all add: node_store_def)
    with Node_Get_returns [OF db(2), of "ne_now ne" key] Delete_contents [OF _ db(1)] i show ?thesis
      by (auto simp: node_store_def node_inv_def read_result_def)
  qed
qed

section \<open>Lemmas on replication\<close>

lemma SetWithExpiry_view:
  assumes "kv_inv kv" and "unlimited kv" and "SetWithExpiry env key val e kv = Returns r kv'"
  shows "unlimited kv' \<and> store_view kv' = (case r of Inl _ \<Rightarrow> store_view kv | Inr _ \<Rightarrow> (store_view kv)(key \<mapsto> (val, e)))"
proof (cases "\<exists>w. AppendSet (env_write env) (env_sync env) key val e (kv_wal kv) = Some (None, w)")
  case True
  with SetWithExpiry_unlimited [OF assms(1,2)] assms(3) show ?thesis
    by (fastforce dest: store_view_upd)
next
  case False
  with assms(2,3) show ?thesis
    by (auto simp: SetWithExpiry_def store_view_def fun_eq_iff split: option.splits)
qed

lemma Delete_view:
  assumes "kv_inv kv" and "unlimited kv" and "Delete env key kv = Returns r kv'"
  shows "unlimited kv' \<and> store_view kv' = (case r of Inl _ \<Rightarrow> store_view kv | Inr _ \<Rightarrow> (store_view kv)(key := None))"
proof (cases "\<exists>w. AppendDelete (env_write env) (env_sync env) key (kv_wal kv) = Some (None, w)")
  case True
  then obtain kv'' where d: "Delete env key kv = Returns (if contents kv key = None then Inl ErrKeyNotFound else Inr ()) kv''"
    "unlimited kv''" "contents kv'' = (contents kv)(key := None)"
    using Delete_logged [OF assms(1)] assms(2) by blast
  then have "store_view kv'' = (store_view kv)(key := None)" by (auto dest: store_view_upd)
  moreover have "contents kv key = None \<Longrightarrow> (store_view kv)(key := None) = store_view kv"
    by (auto simp: store_view_def fun_eq_iff)
  ultimately show ?thesis using d assms(3) by (auto split: if_splits)
next
  case False
  with assms(2,3) show ?thesis
    by (auto simp: Delete_def store_view_def fun_eq_iff split: option.splits)
qed

lemma log_room_mono: "log_room n w \<Longrightarrow> m \<le> n \<Longrightarrow> log_room m w"
  by (auto simp: log_room_def split: if_splits)

text \<open>The messages of a broadcast, and that they fit a frame.\<close>

lemma sync_frame:
  assumes "length (rs_Key m) < 65536" and "length (rs_Key m) + length (rs_Value m) + 24 < 4294967296"
  obtains f where "EncodeFrame (MReplicationSync m) = Ok f" "Frame_valid (MReplicationSync m)"
proof -
  have e: "EncodeMessage (MReplicationSync m) = Ok (OpReplicationSync # ReplicationSync_Encode m)"
    by (simp add: EncodeMessage_layout)
  have "length (ReplicationSync_Encode m) = 23 + length (rs_Key m) + length (rs_Value m)"
    by (simp add: ReplicationSync_Encode_layout)
  with assms e that show ?thesis
    by (simp add: EncodeFrame_layout Frame_valid_def ReplicationSync_valid_def)
qed

text \<open>The writes of a leader.\<close>

datatype node_write = WSet bytes bytes duration | WDelete bytes

fun Node_write :: "NodeEnv \<Rightarrow> node_write \<Rightarrow> Node \<Rightarrow> (StoreError, Node, unit) outcome" where
  "Node_write ne (WSet key val ttl) n = Node_Set ne key val ttl n"
| "Node_write ne (WDelete key) n = Node_Delete ne key n"

fun write_key :: "node_write \<Rightarrow> bytes" where
  "write_key (WSet key val ttl) = key"
| "write_key (WDelete key) = key"

fun run_writes :: "(NodeEnv \<times> node_write) list \<Rightarrow> Node \<Rightarrow> Node option" where
  "run_writes [] n = Some n"
| "run_writes ((ne, w) # ws) n =
     (case Node_write ne w n of Returns _ n' \<Rightarrow> run_writes ws n' | _ \<Rightarrow> None)"

text \<open>A write that a message can carry: its key and value fit and its expiry is in the range of 64-bit
  nanoseconds.\<close>

fun write_fits :: "duration \<Rightarrow> NodeEnv \<times> node_write \<Rightarrow> bool" where
  "write_fits dflt (ne, WSet key val ttl) \<longleftrightarrow> length key < 65536 \<and> length key + length val + 24 < 4294967296 \<and>
     nano_range (ne_now ne + (if ttl \<le> 0 then dflt else ttl))"
| "write_fits dflt (ne, WDelete key) \<longleftrightarrow> length key < 65536"

definition leading :: "bytes \<Rightarrow> conn \<Rightarrow> Node \<Rightarrow> bool" where
  "leading addr c n \<longleftrightarrow> node_inv n \<and> unlimited (nd_db n) \<and>
     (case nd_leader n of None \<Rightarrow> False | Some l \<Rightarrow> subscribed addr c l (nd_net n))"

text \<open>What a write adds to the stream of a follower: nothing where it failed, else one frame with the change.\<close>

definition streamed :: "bytes \<Rightarrow> conn \<Rightarrow> Node \<Rightarrow> ReplicationSync list \<Rightarrow> Node \<Rightarrow> bool" where
  "streamed addr c n ms n' \<longleftrightarrow> leading addr c n' \<and> nd_defaultTTL n' = nd_defaultTTL n \<and>
     list_all (\<lambda>m. Frame_valid (MReplicationSync m)) ms \<and>
     store_view (nd_db n') = fold log_apply (map sync_record ms) (store_view (nd_db n)) \<and>
     (\<exists>fs. map (\<lambda>m. EncodeFrame (MReplicationSync m)) ms = map Ok fs \<and>
           net_sent (nd_net n') c = net_sent (nd_net n) c @ concat fs)"

lemma streamed_trans: "streamed addr c n ms n' \<Longrightarrow> streamed addr c n' ms' n'' \<Longrightarrow> streamed addr c n (ms @ ms') n''"
proof -
  assume 1: "streamed addr c n ms n'" and 2: "streamed addr c n' ms' n''"
  obtain fs where fs: "map (\<lambda>m. EncodeFrame (MReplicationSync m)) ms = map Ok fs"
    "net_sent (nd_net n') c = net_sent (nd_net n) c @ concat fs" using 1 unfolding streamed_def by blast
  obtain fs' where fs': "map (\<lambda>m. EncodeFrame (MReplicationSync m)) ms' = map Ok fs'"
    "net_sent (nd_net n'') c = net_sent (nd_net n') c @ concat fs'" using 2 unfolding streamed_def by blast
  have "\<exists>gs. map (\<lambda>m. EncodeFrame (MReplicationSync m)) (ms @ ms') = map Ok gs \<and>
      net_sent (nd_net n'') c = net_sent (nd_net n) c @ concat gs"
    using fs fs' by (intro exI [of _ "fs @ fs'"]) simp
  with 1 2 show ?thesis unfolding streamed_def by simp
qed

lemma subscribed_logIndex: "subscribed addr c l net \<Longrightarrow> subscribed addr c (l\<lparr>ld_logIndex := i\<rparr>) net"
  unfolding subscribed_def by simp

lemma subscribed_wf: "subscribed addr c l net \<Longrightarrow> gomap_wf (ld_followers l)"
  unfolding subscribed_def by blast

lemma broadcast_frame:
  assumes "leading addr c n" and "nd_leader n = Some l" and "ne_conns ne c = WriteOk"
    and "length (rs_Key m) < 65536" and "length (rs_Key m) + length (rs_Value m) + 24 < 4294967296"
  obtains l' net' f where "broadcast (ne_addrs ne) (ne_conns ne) (MReplicationSync m) (l\<lparr>ld_logIndex := i\<rparr>) (nd_net n) = Some (l', net')"
    "leading addr c (n\<lparr>nd_leader := Some l', nd_net := net'\<rparr>)" "net_sent net' c = net_sent (nd_net n) c @ f"
    "EncodeFrame (MReplicationSync m) = Ok f" "Frame_valid (MReplicationSync m)"
proof -
  obtain f where f: "EncodeFrame (MReplicationSync m) = Ok f" "Frame_valid (MReplicationSync m)"
    using assms(4,5) by (rule sync_frame)
  have "subscribed addr c (l\<lparr>ld_logIndex := i\<rparr>) (nd_net n)"
    using assms(1,2) by (simp add: leading_def subscribed_logIndex)
  from this assms(3) f(1) obtain l' net' where
    b: "broadcast (ne_addrs ne) (ne_conns ne) (MReplicationSync m) (l\<lparr>ld_logIndex := i\<rparr>) (nd_net n) = Some (l', net')"
    "subscribed addr c l' net'" "net_sent net' c = net_sent (nd_net n) c @ f"
    by (rule broadcast_subscribed)
  have "leading addr c (n\<lparr>nd_leader := Some l', nd_net := net'\<rparr>)"
    using assms(1) b(2) subscribed_wf [OF b(2)] by (simp add: leading_def node_inv_def)
  with b f show ?thesis by (intro that)
qed

lemma broadcast_streamed:
  assumes "leading addr c n" and "nd_leader n = Some l" and "ne_conns ne c = WriteOk"
    and "net_sent (nd_net n) c = net_sent (nd_net n0) c" and "nd_defaultTTL n = nd_defaultTTL n0"
    and "length (rs_Key m) < 65536" and "length (rs_Key m) + length (rs_Value m) + 24 < 4294967296"
    and "store_view (nd_db n) = log_apply (sync_record m) (store_view (nd_db n0))"
  shows "\<exists>l' net'. broadcast (ne_addrs ne) (ne_conns ne) (MReplicationSync m) (l\<lparr>ld_logIndex := i\<rparr>) (nd_net n) = Some (l', net') \<and>
    streamed addr c n0 [m] (n\<lparr>nd_leader := Some l', nd_net := net'\<rparr>)"
proof -
  obtain l' net' f where "broadcast (ne_addrs ne) (ne_conns ne) (MReplicationSync m) (l\<lparr>ld_logIndex := i\<rparr>) (nd_net n) = Some (l', net')"
    "leading addr c (n\<lparr>nd_leader := Some l', nd_net := net'\<rparr>)" "net_sent net' c = net_sent (nd_net n) c @ f"
    "EncodeFrame (MReplicationSync m) = Ok f" "Frame_valid (MReplicationSync m)"
    using assms(1-3,6,7) by (rule broadcast_frame)
  then show ?thesis
    using assms(4,5,8) by (auto simp: streamed_def intro!: exI [of _ "[f]"])
qed

lemma leading_db: "leading addr c n \<Longrightarrow> kv_inv db \<Longrightarrow> unlimited db \<Longrightarrow> leading addr c (n\<lparr>nd_db := db\<rparr>)"
  by (simp add: leading_def node_inv_def split: option.splits)

lemma streamed_nothing:
  "leading addr c n \<Longrightarrow> kv_inv db \<Longrightarrow> unlimited db \<Longrightarrow> store_view db = store_view (nd_db n) \<Longrightarrow>
   streamed addr c n [] (n\<lparr>nd_db := db\<rparr>)"
  by (simp add: streamed_def leading_db)

text \<open>The parts of a leading node that its writes use.\<close>

lemma leadingE:
  assumes "leading addr c n"
  obtains l where "nd_leader n = Some l" "kv_inv (nd_db n)" "unlimited (nd_db n)"
  using assms by (cases "nd_leader n") (simp_all add: leading_def node_inv_def)

lemma Node_Set_streamed:
  assumes "leading addr c n" and "ne_conns ne c = WriteOk" and "write_fits (nd_defaultTTL n) (ne, WSet key val ttl)"
    and "Node_Set ne key val ttl n = Returns r n'"
  shows "\<exists>ms. length ms \<le> 1 \<and> set (map rs_Key ms) \<subseteq> {key} \<and> streamed addr c n ms n'"
proof -
  let ?e = "Node_Set_expiry ne ttl n"
  obtain l where l: "nd_leader n = Some l" and db: "kv_inv (nd_db n)" "unlimited (nd_db n)"
    using assms(1) by (rule leadingE)
  have fits: "length key < 65536" "length key + length val + 24 < 4294967296" "from_nano (unix_nano ?e) = ?e"
    using assms(3) by (simp_all add: Node_Set_expiry_def from_nano_unix_nano)
  obtain r' kv where s: "SetWithExpiry (ne_env ne) key val ?e (nd_db n) = Returns r' kv"
    using assms(4) by (cases "SetWithExpiry (ne_env ne) key val ?e (nd_db n)") (auto simp: Node_Set_def)
  note v = SetWithExpiry_view [OF db s] and i = SetWithExpiry_inv [OF db(1) s]
  show ?thesis
  proof (cases r')
    case (Inl e)
    with assms(4) s have "n' = n\<lparr>nd_db := kv\<rparr>" by (simp add: Node_Set_def)
    with assms(1) v i Inl show ?thesis by (intro exI [of _ "[]"]) (simp add: streamed_nothing)
  next
    case (Inr u)
    let ?m = "\<lparr>rs_LogIndex = ld_logIndex l + 1, rs_Op = WAL_OpSet, rs_Key = key, rs_Value = val, rs_ExpiresAt = unix_nano ?e\<rparr>"
    have "\<exists>l' net'. broadcast (ne_addrs ne) (ne_conns ne) (MReplicationSync ?m) (l\<lparr>ld_logIndex := ld_logIndex l + 1\<rparr>)
          (nd_net (n\<lparr>nd_db := kv\<rparr>)) = Some (l', net') \<and>
        streamed addr c n [?m] (n\<lparr>nd_db := kv, nd_leader := Some l', nd_net := net'\<rparr>)"
      using assms(1,2) v i Inr l fits
      by (intro broadcast_streamed) (simp_all add: leading_db log_apply_def sync_record_def)
    with assms(4) s Inr l show ?thesis
      by (intro exI [of _ "[?m]"]) (auto simp: Node_Set_def Node_Set_broadcast_def BroadcastSet_def Let_def)
  qed
qed

lemma Node_Delete_streamed:
  assumes "leading addr c n" and "ne_conns ne c = WriteOk" and "write_fits (nd_defaultTTL n) (ne, WDelete key)"
    and "Node_Delete ne key n = Returns r n'"
  shows "\<exists>ms. length ms \<le> 1 \<and> set (map rs_Key ms) \<subseteq> {key} \<and> streamed addr c n ms n'"
proof -
  obtain l where l: "nd_leader n = Some l" and db: "kv_inv (nd_db n)" "unlimited (nd_db n)"
    using assms(1) by (rule leadingE)
  have fits: "length key < 65536" using assms(3) by simp
  obtain r' kv where s: "Delete (ne_env ne) key (nd_db n) = Returns r' kv"
    using assms(4) by (cases "Delete (ne_env ne) key (nd_db n)") (auto simp: Node_Delete_def)
  note v = Delete_view [OF db s] and i = Delete_inv [OF db(1) s]
  show ?thesis
  proof (cases r')
    case (Inl e)
    with assms(4) s have "n' = n\<lparr>nd_db := kv\<rparr>" by (simp add: Node_Delete_def)
    with assms(1) v i Inl show ?thesis by (intro exI [of _ "[]"]) (simp add: streamed_nothing)
  next
    case (Inr u)
    let ?m = "\<lparr>rs_LogIndex = ld_logIndex l + 1, rs_Op = WAL_OpDelete, rs_Key = key, rs_Value = [], rs_ExpiresAt = 0\<rparr>"
    have "\<exists>l' net'. broadcast (ne_addrs ne) (ne_conns ne) (MReplicationSync ?m) (l\<lparr>ld_logIndex := ld_logIndex l + 1\<rparr>)
          (nd_net (n\<lparr>nd_db := kv\<rparr>)) = Some (l', net') \<and>
        streamed addr c n [?m] (n\<lparr>nd_db := kv, nd_leader := Some l', nd_net := net'\<rparr>)"
      using assms(1,2) v i Inr l fits
      by (intro broadcast_streamed) (simp_all add: leading_db log_apply_def sync_record_def WAL_OpSet_def WAL_OpDelete_def)
    with assms(4) s Inr l show ?thesis
      by (intro exI [of _ "[?m]"]) (auto simp: Node_Delete_def Node_Delete_broadcast_def BroadcastDelete_def Let_def)
  qed
qed

lemma Node_write_streamed:
  assumes "leading addr c n" and "ne_conns ne c = WriteOk" and "write_fits (nd_defaultTTL n) (ne, w)"
    and "Node_write ne w n = Returns r n'"
  shows "\<exists>ms. length ms \<le> 1 \<and> set (map rs_Key ms) \<subseteq> {write_key w} \<and> streamed addr c n ms n'"
proof (cases w)
  case (WSet key val ttl)
  with Node_Set_streamed [OF assms(1,2), of key val ttl r n'] assms(3,4) show ?thesis by simp
next
  case (WDelete key)
  with Node_Delete_streamed [OF assms(1,2), of key r n'] assms(3,4) show ?thesis by simp
qed

lemma run_writes_streamed:
  assumes "leading addr c n" and "list_all (\<lambda>(ne, w). ne_conns ne c = WriteOk) ws"
    and "list_all (write_fits (nd_defaultTTL n)) ws" and "run_writes ws n = Some n'"
  shows "\<exists>ms. length ms \<le> length ws \<and> set (map rs_Key ms) \<subseteq> (\<lambda>(ne, w). write_key w) ` set ws \<and> streamed addr c n ms n'"
  using assms
proof (induction ws arbitrary: n)
  case Nil
  then show ?case by (simp add: streamed_def)
next
  case (Cons x ws)
  obtain ne w where x: "x = (ne, w)" by (cases x)
  with Cons.prems(4) obtain r n1 where 1: "Node_write ne w n = Returns r n1" "run_writes ws n1 = Some n'"
    by (auto split: outcome.splits)
  then obtain m where m: "length m \<le> 1" "set (map rs_Key m) \<subseteq> {write_key w}" "streamed addr c n m n1"
    using Node_write_streamed [OF Cons.prems(1) _ _ 1(1)] Cons.prems(2,3) x by auto
  then have n1: "leading addr c n1" "nd_defaultTTL n1 = nd_defaultTTL n" by (simp_all add: streamed_def)
  with Cons.IH [OF n1(1) _ _ 1(2)] Cons.prems(2,3) obtain ms where
    "length ms \<le> length ws" "set (map rs_Key ms) \<subseteq> (\<lambda>(ne, w). write_key w) ` set ws" "streamed addr c n1 ms n'" by auto
  with m x streamed_trans [OF m(3)] show ?case by (intro exI [of _ "m @ ms"]) auto
qed

text \<open>One broadcast of a write that is already in the store.\<close>

lemma Node_Set_broadcast_frame:
  assumes "leading addr c n" and "ne_conns ne c = WriteOk" and "length key < 65536"
    and "length key + length val + 24 < 4294967296" and "nano_range e"
  obtains n' m f where "Node_Set_broadcast ne key val e n = Returns (Inr ()) n'" "leading addr c n'" "nd_db n' = nd_db n"
    "net_sent (nd_net n') c = net_sent (nd_net n) c @ f" "EncodeFrame (MReplicationSync m) = Ok f"
    "Frame_valid (MReplicationSync m)" "sync_record m = set_record key val e"
proof -
  obtain l where l: "nd_leader n = Some l" using assms(1) by (rule leadingE)
  let ?m = "\<lparr>rs_LogIndex = ld_logIndex l + 1, rs_Op = WAL_OpSet, rs_Key = key, rs_Value = val, rs_ExpiresAt = unix_nano e\<rparr>"
  obtain l' net' f where "broadcast (ne_addrs ne) (ne_conns ne) (MReplicationSync ?m) (l\<lparr>ld_logIndex := ld_logIndex l + 1\<rparr>)
      (nd_net n) = Some (l', net')" "leading addr c (n\<lparr>nd_leader := Some l', nd_net := net'\<rparr>)"
    "net_sent net' c = net_sent (nd_net n) c @ f" "EncodeFrame (MReplicationSync ?m) = Ok f" "Frame_valid (MReplicationSync ?m)"
    by (rule broadcast_frame [OF assms(1) l assms(2), of ?m "ld_logIndex l + 1"]) (use assms(3,4) in simp_all)
  with that [of "n\<lparr>nd_leader := Some l', nd_net := net'\<rparr>" f ?m] l assms(5) show ?thesis
    by (simp add: Node_Set_broadcast_def BroadcastSet_def Let_def sync_record_def set_record_def from_nano_unix_nano)
qed

text \<open>What holds after any change of the store and after the broadcasts that follow one holds after a command.\<close>

lemma after_Returns: "after x k = Returns r s \<Longrightarrow> \<exists>r' s'. x = Returns r' s' \<and> k r' s' = Returns r s"
  by (cases x) simp_all

lemma on_db_ReturnsE: "on_db x n = Returns r n' \<Longrightarrow> \<exists>db. n' = n\<lparr>nd_db := db\<rparr>"
  by (cases x) auto

lemma Dispatch_keeps:
  assumes "Dispatch the_handlers msg (node_store ne) n = Returns r n'" and db: "\<And>db. R (n\<lparr>nd_db := db\<rparr>)"
    and set: "\<And>db k v e r n'. Node_Set_broadcast ne k v e (n\<lparr>nd_db := db\<rparr>) = Returns r n' \<Longrightarrow> R n'"
    and del: "\<And>db k r n'. Node_Delete_broadcast ne k (n\<lparr>nd_db := db\<rparr>) = Returns r n' \<Longrightarrow> R n'"
  shows "R n'"
proof (cases "is_command msg")
  case True
  have 1: "R n'" if "Node_Set ne k v t n = Returns r n'" for k v t r n'
    using that db set
    by (cases "SetWithExpiry (ne_env ne) k v (Node_Set_expiry ne t n) (nd_db n)") (auto simp: Node_Set_def Let_def split: sum.splits)
  have 2: "R n'" if "Node_Delete ne k n = Returns r n'" for k r n'
    using that db del by (cases "Delete (ne_env ne) k (nd_db n)") (auto simp: Node_Delete_def split: sum.splits)
  have 3: "R n'" if "Node_Get now k n = Returns r n'" for now k r n'
    using on_db_ReturnsE [OF that [unfolded Node_Get_def]] db by auto
  from True show ?thesis
    using assms(1)
    by (cases msg) (auto simp: node_store_def Let_def dest!: after_Returns dest: 1 2 3 split: sum.splits if_splits)
next
  case False
  with assms(1) db [of "nd_db n"] show ?thesis by (simp add: Dispatch_other)
qed


section \<open>Properties\<close>

text \<open>A leader with one follower, for the witnesses.\<close>

definition example_leader :: "KVStore \<Rightarrow> Node" where
  "example_leader db = (NewNode db 100 [] [])\<lparr>nd_leader := Some (AddFollower [9] 5 newLeader)\<rparr>"

definition example_node_env :: NodeEnv where
  "example_node_env = \<lparr>ne_now = 7, ne_env = example_env, ne_conns = (\<lambda>_. WriteOk), ne_addrs = (\<lambda>_ _. 0)\<rparr>"

lemma example_leading: "kv_inv db \<Longrightarrow> unlimited db \<Longrightarrow> leading [9] 5 (example_leader db)"
  by (simp add: leading_def node_inv_def example_leader_def NewNode_def AddFollower_def newLeader_def subscribed_def
      gomap_wf_def)

text \<open>A follower that applies the stream of the leader's writes: a key that is not written keeps the entry it had on each
  side.\<close>

lemma stream_brings_writes_only:
  assumes "leading addr c n" and "net_sent (nd_net n) c = []" and "list_all (\<lambda>(ne, w). ne_conns ne c = WriteOk) ws"
    and "list_all (write_fits (nd_defaultTTL n)) ws" and "run_writes ws n = Some n'"
    and "replica_ready (length ws) db" and "\<And>j. file_works (envs j)" and "RunFollower_target raft addr = Some leaderAddr"
  shows "\<exists>db'. RunFollower addr [\<lparr>fr_raft = raft, fr_dial = None, fr_joined = WriteOk, fr_envs = envs, fr_outs = outs,
      fr_reader = \<lparr>rd_data = net_sent (nd_net n') c, rd_end = EOF\<rparr>\<rparr>] db = Returns (Inr ()) db' \<and>
    (\<forall>k. k \<notin> (\<lambda>(ne, w). write_key w) ` set ws \<longrightarrow> store_view db' k = store_view db k \<and> store_view (nd_db n') k = store_view (nd_db n) k)"
proof -
  obtain ms where ms: "length ms \<le> length ws" "set (map rs_Key ms) \<subseteq> (\<lambda>(ne, w). write_key w) ` set ws" "streamed addr c n ms n'"
    using run_writes_streamed [OF assms(1,3-5)] by blast
  then obtain fs where fs: "map (\<lambda>m. EncodeFrame (MReplicationSync m)) ms = map Ok fs"
    "net_sent (nd_net n') c = concat fs"
    "store_view (nd_db n') = fold log_apply (map sync_record ms) (store_view (nd_db n))"
    "list_all (\<lambda>m. Frame_valid (MReplicationSync m)) ms"
    using assms(2) unfolding streamed_def by auto
  obtain join where j: "EncodeFrame (MReplicationJoin \<lparr>rj_NodeAddr = addr\<rparr>) = Ok join"
    by (metis EncodeMessage_Ok EncodeFrame_layout)
  have "replica_ready (length ms) db" using assms(6) ms(1) log_room_mono by (auto simp: replica_ready_def)
  from sync_loop_frames [where envs = envs and outs = outs and i = 0 and sent = join, OF fs(4,1) this assms(7)] obtain db' sent' where
    d: "sync_loop envs outs 0 \<lparr>rd_data = concat fs, rd_end = EOF\<rparr> db join = Returns (Inl (IO EOF)) (db', sent')"
    "store_view db' = fold log_apply (map sync_record ms) (store_view db)" by blast
  have other: "fold log_apply (map sync_record ms) v k = v k" if "k \<notin> rs_Key ` set ms" for v k
    using that by (induction ms arbitrary: v) (auto simp: log_apply_def sync_record_def)
  have "RunFollower addr [\<lparr>fr_raft = raft, fr_dial = None, fr_joined = WriteOk, fr_envs = envs, fr_outs = outs,
      fr_reader = \<lparr>rd_data = net_sent (nd_net n') c, rd_end = EOF\<rparr>\<rparr>] db = Returns (Inr ()) db'"
    using assms(8) j d(1) fs(2) by (simp add: syncWithLeader_def WriteFrame_def)
  moreover have "store_view db' k = store_view db k \<and> store_view (nd_db n') k = store_view (nd_db n) k"
    if "k \<notin> (\<lambda>(ne, w). write_key w) ` set ws" for k
  proof -
    have "k \<notin> rs_Key ` set ms" using that ms(2) by auto
    then show ?thesis by (simp add: other d(2) fs(3))
  qed
  ultimately show ?thesis by blast
qed

text \<open>C29 (safety): the order of broadcasts is not the order of the store. Two writes of one key that run
  at the same time may be stored in one order and broadcast in the other, because the node releases the
  store before it takes the leader's lock; the leader then has the second value and a follower that
  applied the whole stream the first.\<close>

theorem concurrent_sets_diverge:
  assumes "leading addr c n" and "ne_conns ne1 c = WriteOk" and "ne_conns ne2 c = WriteOk"
    and "SetWithExpiry (ne_env ne1) key v1 e1 (nd_db n) = Returns (Inr ()) kv1"
    and "SetWithExpiry (ne_env ne2) key v2 e2 kv1 = Returns (Inr ()) kv2"
    and "length key < 65536" and "length key + length v1 + 24 < 4294967296" and "length key + length v2 + 24 < 4294967296"
    and "nano_range e1" and "nano_range e2"
    and "replica_ready 2 db" and "\<And>j. file_works (envs j)"
  shows "\<exists>n3 n4 stream db' sent'.
    Node_Set_broadcast ne2 key v2 e2 (n\<lparr>nd_db := kv2\<rparr>) = Returns (Inr ()) n3 \<and>
    Node_Set_broadcast ne1 key v1 e1 n3 = Returns (Inr ()) n4 \<and>
    net_sent (nd_net n4) c = net_sent (nd_net n) c @ stream \<and>
    sync_loop envs outs 0 \<lparr>rd_data = stream, rd_end = EOF\<rparr> db sent = Returns (Inl (IO EOF)) (db', sent') \<and>
    store_view (nd_db n4) key = Some (v2, e2) \<and> store_view db' key = Some (v1, e1)"
proof -
  have db: "kv_inv (nd_db n)" "unlimited (nd_db n)" using assms(1) by (simp_all add: leading_def node_inv_def)
  note kv1 = SetWithExpiry_inv [OF db(1) assms(4)] SetWithExpiry_view [OF db assms(4)]
  have 2: "kv_inv kv2" "unlimited kv2" "store_view kv2 key = Some (v2, e2)"
    using SetWithExpiry_inv [OF kv1(1) assms(5)] SetWithExpiry_view [OF kv1(1) _ assms(5)] kv1(2) by simp_all
  obtain n3 m2 f2 where n3: "Node_Set_broadcast ne2 key v2 e2 (n\<lparr>nd_db := kv2\<rparr>) = Returns (Inr ()) n3" "leading addr c n3"
    "nd_db n3 = nd_db (n\<lparr>nd_db := kv2\<rparr>)" "net_sent (nd_net n3) c = net_sent (nd_net (n\<lparr>nd_db := kv2\<rparr>)) c @ f2"
    "EncodeFrame (MReplicationSync m2) = Ok f2" "Frame_valid (MReplicationSync m2)" "sync_record m2 = set_record key v2 e2"
    using leading_db [OF assms(1) 2(1,2)] assms(3,6,8,10) by (rule Node_Set_broadcast_frame)
  obtain n4 m1 f1 where n4: "Node_Set_broadcast ne1 key v1 e1 n3 = Returns (Inr ()) n4" "nd_db n4 = nd_db n3"
    "net_sent (nd_net n4) c = net_sent (nd_net n3) c @ f1"
    "EncodeFrame (MReplicationSync m1) = Ok f1" "Frame_valid (MReplicationSync m1)" "sync_record m1 = set_record key v1 e1"
    using n3(2) assms(2,6,7,9) by (rule Node_Set_broadcast_frame)
  obtain db' sent' where s: "sync_loop envs outs 0 \<lparr>rd_data = concat [f2, f1], rd_end = EOF\<rparr> db sent =
      Returns (Inl (IO EOF)) (db', sent')" "store_view db' = fold log_apply (map sync_record [m2, m1]) (store_view db)"
    using sync_loop_frames [where envs = envs and ms = "[m2, m1]" and fs = "[f2, f1]" and db = db and outs = outs
        and i = 0 and sent = sent] n3(5,6) n4(4,5) assms(11,12)
    by (auto simp: numeral_2_eq_2)
  have "store_view db' key = Some (v1, e1)"
    by (simp add: s(2) n3(7) n4(6) log_apply_def set_record_def)
  with n3(1,3,4) n4(1,2,3) s(1) 2(3) show ?thesis
    by (intro exI [of _ n3] exI [of _ n4] exI [of _ "f2 @ f1"] exI [of _ db'] exI [of _ sent']) simp
qed

lemma example_ready:
  "replica_ready 2 (example_store 0 NoEvict SyncNone)" "file_works example_env" "file_works (ne_env example_node_env)"
  using example_store_inv [of NoEvict 0 SyncNone]
  by (simp_all add: replica_ready_def log_room_def unlimited_def example_store_def open_state_def SyncNone_def
      SyncInterval_def file_works_def example_env_def example_node_env_def)

theorem concurrent_sets_diverge_witness:
  "let db = example_store 0 NoEvict SyncNone; n = example_leader db; ne = example_node_env in
   \<exists>kv1 kv2 n3 n4 stream db' sent'.
     SetWithExpiry (ne_env ne) [1] [2] 50 db = Returns (Inr ()) kv1 \<and>
     SetWithExpiry (ne_env ne) [1] [3] 60 kv1 = Returns (Inr ()) kv2 \<and>
     Node_Set_broadcast ne [1] [3] 60 (n\<lparr>nd_db := kv2\<rparr>) = Returns (Inr ()) n3 \<and>
     Node_Set_broadcast ne [1] [2] 50 n3 = Returns (Inr ()) n4 \<and>
     sync_loop (\<lambda>_. example_env) (\<lambda>_. WriteOk) 0 \<lparr>rd_data = stream, rd_end = EOF\<rparr> db [] = Returns (Inl (IO EOF)) (db', sent') \<and>
     store_view (nd_db n4) [1] = Some ([3], 60) \<and> store_view db' [1] = Some ([2], 50)"
proof -
  let ?db = "example_store 0 NoEvict SyncNone" and ?ne = example_node_env
  have db: "nd_db (example_leader ?db) = ?db" by (simp add: example_leader_def NewNode_def)
  have l: "leading [9] 5 (example_leader ?db)"
    using example_ready(1) by (intro example_leading) (simp_all add: replica_ready_def)
  obtain kv1 where 1: "SetWithExpiry (ne_env ?ne) [1] [2] 50 ?db = Returns (Inr ()) kv1" "replica_ready (Suc 0) kv1"
    using example_ready(1) ready_Set [OF _ example_ready(3), of "Suc 0" ?db] by (metis numeral_2_eq_2)
  obtain kv2 where 2: "SetWithExpiry (ne_env ?ne) [1] [3] 60 kv1 = Returns (Inr ()) kv2"
    using 1(2) example_ready(3) by (rule ready_Set)
  have "\<exists>n3 n4 stream db' sent'.
     Node_Set_broadcast ?ne [1] [3] 60 ((example_leader ?db)\<lparr>nd_db := kv2\<rparr>) = Returns (Inr ()) n3 \<and>
     Node_Set_broadcast ?ne [1] [2] 50 n3 = Returns (Inr ()) n4 \<and>
     net_sent (nd_net n4) 5 = net_sent (nd_net (example_leader ?db)) 5 @ stream \<and>
     sync_loop (\<lambda>_. example_env) (\<lambda>_. WriteOk) 0 \<lparr>rd_data = stream, rd_end = EOF\<rparr> ?db [] = Returns (Inl (IO EOF)) (db', sent') \<and>
     store_view (nd_db n4) [1] = Some ([3], 60) \<and> store_view db' [1] = Some ([2], 50)"
    by (rule concurrent_sets_diverge [OF l _ _ _ 2 _ _ _ _ _ example_ready(1,2)])
      (use 1(1) in \<open>simp_all add: db nano_range_def example_node_env_def\<close>)
  with 1(1) 2 show ?thesis unfolding Let_def by blast
qed

text \<open>The well-formedness of a node. Every command leaves it well formed and returns or blocks
  on the log, and so do heartbeats, vote requests and the promotion of a standalone node.\<close>

lemma node_well_formed:
  assumes "node_inv n"
  shows "Dispatch the_handlers msg (node_store ne) n \<notin> {Diverges, Panics} \<and>
    (\<forall>r n'. Dispatch the_handlers msg (node_store ne) n = Returns r n' \<longrightarrow> node_inv n') \<and>
    node_inv (Node_HandleHeartbeat term leaderID n) \<and> node_inv (snd (Node_HandleVoteRequest req n)) \<and> node_inv (ForceLeader n)"
proof -
  have cb: "node_inv (run_callback cb (n\<lparr>nd_raft := r\<rparr>))" for cb r
    using assms by (cases cb) (simp_all add: node_inv_def becomeLeader_def becomeFollower_def newLeader_def)
  have "node_inv (ForceLeader n)" using assms by (simp add: node_inv_def ForceLeader_def newLeader_def)
  then show ?thesis
    using node_engine.dispatch_safe [OF assms] node_engine.dispatch_inv [OF assms] cb
    by (auto simp: Node_HandleHeartbeat_def Node_HandleVoteRequest_def split: prod.splits)
qed

text \<open>Commands end to end. After a SET that was answered with success a GET of the key is
  answered with the value, and after a DELETE that was answered with success with \<open>Found = false\<close>; a
  lifetime that is zero or, read as a signed number, negative means the default.\<close>

lemma commands_read_back:
  assumes "node_inv n"
  shows "(Dispatch the_handlers (MSetRequest q) (node_store ne) n =
        Returns (Inr (MSetResponse \<lparr>ss_Success = True, ss_Message = str ''OK''\<rparr>)) n' \<longrightarrow>
      (\<exists>n''. Dispatch the_handlers (MGetRequest \<lparr>gr_Key = sr_Key q\<rparr>) (node_store ne) n' =
         Returns (Inr (MGetResponse \<lparr>gs_Found = True, gs_Value = sr_Value q\<rparr>)) n'') \<and>
      (\<exists>rec. contents (nd_db n') (sr_Key q) = Some rec \<and>
         rc_expiredAt rec = ne_now ne + (if sint (sr_TTL q) \<le> 0 then nd_defaultTTL n else sint (sr_TTL q)))) \<and>
    (Dispatch the_handlers (MDeleteRequest d) (node_store ne) n =
        Returns (Inr (MDeleteResponse \<lparr>ds_Success = True, ds_Message = str ''OK''\<rparr>)) n' \<longrightarrow>
      (\<exists>n''. Dispatch the_handlers (MGetRequest \<lparr>gr_Key = dr_Key d\<rparr>) (node_store ne) n' =
         Returns (Inr (MGetResponse \<lparr>gs_Found = False, gs_Value = []\<rparr>)) n''))"
proof (intro conjI impI)
  assume d: "Dispatch the_handlers (MSetRequest q) (node_store ne) n =
    Returns (Inr (MSetResponse \<lparr>ss_Success = True, ss_Message = str ''OK''\<rparr>)) n'"
  then have "Node_Set ne (sr_Key q) (sr_Value q) (sint (sr_TTL q)) n = Returns (Inr ()) n'"
    by (cases "Node_Set ne (sr_Key q) (sr_Value q) (sint (sr_TTL q)) n") (auto simp: node_store_def split: sum.splits)
  from Node_Set_stored [OF assms this] SetWithExpiry_contents assms
  show "\<exists>rec. contents (nd_db n') (sr_Key q) = Some rec \<and>
      rc_expiredAt rec = ne_now ne + (if sint (sr_TTL q) \<le> 0 then nd_defaultTTL n else sint (sr_TTL q))"
    by (fastforce simp: Node_Set_expiry_def node_inv_def)
  show "\<exists>n''. Dispatch the_handlers (MGetRequest \<lparr>gr_Key = sr_Key q\<rparr>) (node_store ne) n' =
      Returns (Inr (MGetResponse \<lparr>gs_Found = True, gs_Value = sr_Value q\<rparr>)) n''"
    using assms d by (rule node_engine.dispatch_set_get)
qed (use assms in \<open>rule node_engine.dispatch_delete_get\<close>)

end
