(* ===== verification/Server.thy ===== *)
theory Server
  imports Node
begin

text \<open>
  The TCP server: \<open>server/tcp.go\<close>. A connection is handled from its first frame to its end; the input is
  the \<open>Reader\<close> of the connection, the output goes to \<open>nd_net\<close>. \<open>envs i\<close> is what the \<open>i\<close>-th message of the
  connection meets, the outcome of the write of its answer included. No connection has a deadline: where the peer stays
  connected and silent, the handler waits (\<open>Blocks\<close>). Goroutines of other connections may
  change the node between two messages; the theorems are about one connection at a time.
\<close>

section \<open>Messages on a connection\<close>

record TCPServer =
  ts_maxPayloadBytes :: u32

definition NewTCPServer :: "u32 \<Rightarrow> TCPServer" where
  "NewTCPServer maxPayloadBytes = \<lparr>ts_maxPayloadBytes = maxPayloadBytes\<rparr>"

text \<open>\<open>WriteFrame\<close> on a connection of the node.\<close>

definition writeMessage :: "NodeEnv \<Rightarrow> conn \<Rightarrow> Message \<Rightarrow> Node \<Rightarrow> (ProtoError, unit) go \<times> Node" where
  "writeMessage ne c msg n =
     (let net = nd_net n
      in if c \<in> net_closed net
         then (case EncodeFrame msg of Ok _ \<Rightarrow> Err (IO (IOFailure ''use of closed network connection'')) | Err e \<Rightarrow> Err e | Panic \<Rightarrow> Panic, n)
         else let (res, sent) = WriteFrame (ne_conns ne c) (net_sent net c) msg
              in (res, n\<lparr>nd_net := net\<lparr>net_sent := (net_sent net)(c := sent)\<rparr>\<rparr>))"

definition writeError :: "NodeEnv \<Rightarrow> conn \<Rightarrow> u16 \<Rightarrow> string \<Rightarrow> Node \<Rightarrow> Node" where
  "writeError ne c code message n = snd (writeMessage ne c (MErrorMessage \<lparr>em_Code = code, em_Message = str message\<rparr>) n)"

definition close_conn :: "conn \<Rightarrow> Node \<Rightarrow> Node" where
  "close_conn c n = n\<lparr>nd_net := conn_close c (nd_net n)\<rparr>"

definition readMessage :: "TCPServer \<Rightarrow> NodeEnv \<Rightarrow> conn \<Rightarrow> Reader \<Rightarrow> Node \<Rightarrow> (ProtoError, Message) go \<times> Reader \<times> Node" where
  "readMessage s ne c r n =
     (case ReadFrame the_registry r (ts_maxPayloadBytes s) of
        (Err e, r') \<Rightarrow>
          (Err e, r',
           if Is_ErrFrameTooLarge e then writeError ne c ErrCodeBadRequest ''payload too large'' n
           else if Is_ErrMalformedMessage e then writeError ne c ErrCodeBadRequest (ProtoError_text e) n
           else n)
      | (Panic, r') \<Rightarrow> (Panic, r', n)
      | (Ok msg, r') \<Rightarrow> (Ok msg, r', n))"

section \<open>Dispatch\<close>

type_synonym served = "(ProtoError, Node, unit) outcome"

definition dispatchToEngine :: "NodeEnv \<Rightarrow> conn \<Rightarrow> Message \<Rightarrow> Node \<Rightarrow> served" where
  "dispatchToEngine ne c msg n =
     after (Dispatch the_handlers msg (node_store ne) n) (\<lambda>res n'.
       case res of
         Inl err \<Rightarrow> Returns (Inr ()) (writeError ne c ErrCodeInternal (EngineError_text err) n')
       | Inr resp \<Rightarrow> Returns (Inr ()) (snd (writeMessage ne c resp n')))"

definition dispatchClient :: "NodeEnv \<Rightarrow> conn \<Rightarrow> Message \<Rightarrow> Node \<Rightarrow> served" where
  "dispatchClient ne c msg n =
     (if OpCode msg = OpTopologyRequest
      then Returns (Inr ()) (snd (writeMessage ne c (MTopologyResponse (GetTopology n)) n))
      else dispatchToEngine ne c msg n)"

text \<open>A panic of the type assertion, or of a method call on the nil \<open>Leader\<close>.\<close>

definition handleReplicationPeer :: "NodeEnv \<Rightarrow> conn \<Rightarrow> Message \<Rightarrow> Node \<Rightarrow> served" where
  "handleReplicationPeer ne c firstMsg n =
     (if \<not> IsLeader n
      then Returns (Inr ()) (close_conn c (writeError ne c ErrCodeNotLeader ''not the leader'' n))
      else case firstMsg of
             MReplicationJoin join \<Rightarrow>
               (case Node_Leader n of
                  None \<Rightarrow> Panics
                | Some l \<Rightarrow> Returns (Inr ()) (n\<lparr>nd_leader := Some (AddFollower (rj_NodeAddr join) c l)\<rparr>))
           | _ \<Rightarrow> Panics)"

section \<open>Connections\<close>

text \<open>The loop of client traffic, with the deferred \<open>Close\<close>.\<close>

function client_loop :: "TCPServer \<Rightarrow> (nat \<Rightarrow> NodeEnv) \<Rightarrow> nat \<Rightarrow> conn \<Rightarrow> Reader \<Rightarrow> Node \<Rightarrow> served" where
  "client_loop s envs i c r n =
     (case readMessage s (envs i) c r n of
        (Err e, r', n') \<Rightarrow> (if e = IO StillWaiting then Blocks else Returns (Inr ()) (close_conn c n'))
      | (Panic, r', n') \<Rightarrow> Panics
      | (Ok msg, r', n') \<Rightarrow>
          (case dispatchClient (envs i) c msg n' of
             Returns _ n'' \<Rightarrow> client_loop s envs (i + 1) c r' n''
           | Blocks \<Rightarrow> Blocks
           | Diverges \<Rightarrow> Diverges
           | Panics \<Rightarrow> Panics))"
  by pat_completeness auto

lemma readMessage_consumes:
  "(Ok m, r', n') = readMessage s ne c r n \<Longrightarrow> length (rd_data r') < length (rd_data r)"
  using ReadFrame_consumes(1) [of m r' the_registry r "ts_maxPayloadBytes s"]
  by (auto simp: readMessage_def split: prod.splits go.splits)

termination client_loop
  by (relation "measure (\<lambda>(s, envs, i, c, r, n). length (rd_data r))") (auto dest: readMessage_consumes)

declare client_loop.simps [simp del]

definition handleConnection :: "TCPServer \<Rightarrow> (nat \<Rightarrow> NodeEnv) \<Rightarrow> conn \<Rightarrow> Reader \<Rightarrow> Node \<Rightarrow> served" where
  "handleConnection s envs c r n =
     (let ne = envs 0
      in case readMessage s ne c r n of
           (Err e, r, n) \<Rightarrow> (if e = IO StillWaiting then Blocks else Returns (Inr ()) (close_conn c n))
         | (Panic, r, n) \<Rightarrow> Panics
         | (Ok firstMsg, r, n) \<Rightarrow>
             (if OpCode firstMsg = OpReplicationJoin then handleReplicationPeer ne c firstMsg n
              else if OpCode firstMsg = OpHeartbeat
              then (case firstMsg of
                      MHeartbeat hb \<Rightarrow>
                        (let n = Node_HandleHeartbeat (hb_Term hb) (hb_LeaderID hb) n;
                             n = snd (writeMessage ne c (MHeartbeatAck \<lparr>ha_Term = Node_GetTerm n, ha_LastAppliedIndex = 0\<rparr>) n)
                         in Returns (Inr ()) (close_conn c n))
                    | _ \<Rightarrow> Panics)
              else if OpCode firstMsg = OpVoteRequest
              then (case firstMsg of
                      MVoteRequest req \<Rightarrow>
                        (let ((granted, term), n) = Node_HandleVoteRequest req n;
                             n = snd (writeMessage ne c (MVoteResponse \<lparr>vs_Term = term, vs_Granted = granted\<rparr>) n)
                         in Returns (Inr ()) (close_conn c n))
                    | _ \<Rightarrow> Panics)
              else case dispatchClient ne c firstMsg n of
                     Returns _ n \<Rightarrow> client_loop s envs 1 c r n
                   | Blocks \<Rightarrow> Blocks
                   | Diverges \<Rightarrow> Diverges
                   | Panics \<Rightarrow> Panics))"

section \<open>Lemmas\<close>

lemma writeMessage_node [simp]:
  "nd_db (snd (writeMessage ne c m n)) = nd_db n" "nd_leader (snd (writeMessage ne c m n)) = nd_leader n"
  "nd_raft (snd (writeMessage ne c m n)) = nd_raft n" "nd_defaultTTL (snd (writeMessage ne c m n)) = nd_defaultTTL n"
  by (simp_all add: writeMessage_def Let_def split: prod.splits)

lemma writeError_node [simp]:
  "nd_db (writeError ne c code m n) = nd_db n" "nd_leader (writeError ne c code m n) = nd_leader n"
  "nd_raft (writeError ne c code m n) = nd_raft n" "nd_defaultTTL (writeError ne c code m n) = nd_defaultTTL n"
  by (simp_all add: writeError_def)

lemma close_conn_node [simp]:
  "nd_db (close_conn c n) = nd_db n" "nd_leader (close_conn c n) = nd_leader n"
  "nd_raft (close_conn c n) = nd_raft n" "nd_defaultTTL (close_conn c n) = nd_defaultTTL n"
  "c \<in> net_closed (nd_net (close_conn c n))"
  by (simp_all add: close_conn_def conn_close_def)

text \<open>A connection on which nothing has been written yet and writes succeed.\<close>

definition fresh_conn :: "NodeEnv \<Rightarrow> conn \<Rightarrow> Node \<Rightarrow> bool" where
  "fresh_conn ne c n \<longleftrightarrow> c \<notin> net_closed (nd_net n) \<and> net_sent (nd_net n) c = [] \<and> ne_conns ne c = WriteOk"

lemma writeMessage_fresh:
  assumes "fresh_conn ne c n" and "EncodeFrame m = Ok f"
  shows "net_sent (nd_net (close_conn c (snd (writeMessage ne c m n)))) c = f"
  using assms by (simp add: fresh_conn_def writeMessage_def WriteFrame_def Let_def close_conn_def conn_close_def)

lemma readMessage_frame:
  assumes "Frame_valid m" and "within_limit (ts_maxPayloadBytes s) m" and "EncodeFrame m = Ok f"
  shows "readMessage s ne c \<lparr>rd_data = f @ rest, rd_end = e\<rparr> n = (Ok m, \<lparr>rd_data = rest, rd_end = e\<rparr>, n)"
  using ReadFrame_EncodeFrame [OF assms] by (simp add: readMessage_def)

lemma readMessage_EOF:
  "readMessage s ne c \<lparr>rd_data = [], rd_end = EOF\<rparr> n = (Err (IO EOF), \<lparr>rd_data = [], rd_end = EOF\<rparr>, n)"
  by (simp add: readMessage_def ReadFrame_def frameHeaderSize_def)

text \<open>The reference for client traffic: the messages one after the other, then the end of the connection.\<close>

fun serve_all :: "(nat \<Rightarrow> NodeEnv) \<Rightarrow> nat \<Rightarrow> conn \<Rightarrow> Message list \<Rightarrow> Node \<Rightarrow> served" where
  "serve_all envs i c [] n = Returns (Inr ()) (close_conn c n)"
| "serve_all envs i c (m # ms) n = after (dispatchClient (envs i) c m n) (\<lambda>_ n'. serve_all envs (i + 1) c ms n')"

lemma client_loop_frames:
  assumes "list_all (\<lambda>m. Frame_valid m \<and> within_limit (ts_maxPayloadBytes s) m) ms" and "map EncodeFrame ms = map Ok fs"
  shows "client_loop s envs i c \<lparr>rd_data = concat fs, rd_end = EOF\<rparr> n = serve_all envs i c ms n"
  using assms
proof (induction ms arbitrary: fs i n)
  case Nil
  then show ?case by (subst client_loop.simps) (simp add: readMessage_EOF)
next
  case (Cons m ms)
  then obtain f fs' where fs: "fs = f # fs'" "EncodeFrame m = Ok f" "map EncodeFrame ms = map Ok fs'"
    by (cases fs) auto
  have "readMessage s (envs i) c \<lparr>rd_data = f @ concat fs', rd_end = EOF\<rparr> n = (Ok m, \<lparr>rd_data = concat fs', rd_end = EOF\<rparr>, n)"
    using Cons.prems(1) fs(2) by (intro readMessage_frame) simp_all
  with Cons fs show ?case
    by (subst client_loop.simps) (simp split: outcome.splits)
qed

lemma node_inv_cong: "nd_db n = nd_db n' \<Longrightarrow> nd_leader n = nd_leader n' \<Longrightarrow> nd_defaultTTL n = nd_defaultTTL n' \<Longrightarrow>
   node_inv n \<longleftrightarrow> node_inv n'"
  by (simp add: node_inv_def)

lemma node_inv_output [simp]:
  "node_inv (snd (writeMessage ne c m n)) \<longleftrightarrow> node_inv n" "node_inv (writeError ne c code t n) \<longleftrightarrow> node_inv n"
  "node_inv (close_conn c n) \<longleftrightarrow> node_inv n"
  by (simp_all add: node_inv_def)

text \<open>A log that writes through never blocks a call, and the calls keep its mode.\<close>

definition writes_through :: "KVStore \<Rightarrow> bool" where
  "writes_through kv \<longleftrightarrow> w_Mode (kv_wal kv) \<noteq> SyncInterval"

lemma append_through:
  "w_Mode w \<noteq> SyncInterval \<Longrightarrow> \<exists>err w'. append out sy r w = Some (err, w') \<and> w_Mode w' \<noteq> SyncInterval"
  by (auto simp: append_def file_write_def file_sync_def Let_def split: option.splits)

lemma SetWithExpiry_through:
  assumes "kv_inv kv" and "writes_through kv"
  shows "\<exists>r kv'. SetWithExpiry env key val e kv = Returns r kv' \<and> writes_through kv'"
proof -
  obtain err w where a: "AppendSet (env_write env) (env_sync env) key val e (kv_wal kv) = Some (err, w)" "w_Mode w \<noteq> SyncInterval"
    using append_through assms(2) unfolding writes_through_def AppendSet_def by blast
  show ?thesis
  proof (cases err)
    case None
    with a(1) have log: "AppendSet (env_write env) (env_sync env) key val e (kv_wal kv) = Some (None, w)" by simp
    show ?thesis
      by (rule SetWithExpiry_returns [OF assms(1) log]) (use a(2) in \<open>simp add: writes_through_def\<close>)
  next
    case (Some x)
    with a show ?thesis by (simp add: SetWithExpiry_def writes_through_def)
  qed
qed

lemma Delete_through:
  assumes "kv_inv kv" and "writes_through kv"
  shows "\<exists>r kv'. Delete env key kv = Returns r kv' \<and> writes_through kv'"
proof -
  obtain err w where a: "AppendDelete (env_write env) (env_sync env) key (kv_wal kv) = Some (err, w)" "w_Mode w \<noteq> SyncInterval"
    using append_through assms(2) unfolding writes_through_def AppendDelete_def by blast
  show ?thesis
  proof (cases err)
    case None
    with a Delete_logged [OF assms(1), of env key w] show ?thesis by (auto simp: writes_through_def)
  next
    case (Some x)
    with a show ?thesis by (simp add: Delete_def writes_through_def)
  qed
qed

text \<open>A node that can serve: well formed, with such a log.\<close>

definition serving :: "Node \<Rightarrow> bool" where
  "serving n \<longleftrightarrow> node_inv n \<and> writes_through (nd_db n)"

lemma serving_output [simp]:
  "serving (snd (writeMessage ne c m n)) \<longleftrightarrow> serving n" "serving (writeError ne c code t n) \<longleftrightarrow> serving n"
  "serving (close_conn c n) \<longleftrightarrow> serving n"
  by (simp_all add: serving_def)

lemma Dispatch_serving:
  assumes "serving n"
  shows "\<exists>r n'. Dispatch the_handlers msg (node_store ne) n = Returns r n' \<and> serving n'"
proof (cases "is_command msg")
  case True
  have n: "node_inv n" "kv_inv (nd_db n)" "writes_through (nd_db n)" using assms by (simp_all add: serving_def node_inv_def)
  from True show ?thesis
  proof (cases msg)
    case (MGetRequest q)
    obtain db where db: "Get (ne_now ne) (gr_Key q) (nd_db n) = Returns (read_result (ne_now ne) (contents (nd_db n) (gr_Key q))) db"
      using Get_result [OF n(2)] by blast
    from Get_store [OF n(2) db] n have "serving (n\<lparr>nd_db := db\<rparr>)"
      by (simp add: serving_def writes_through_def node_inv_db)
    with db MGetRequest show ?thesis
      by (auto simp: node_store_def Node_Get_def split: sum.splits)
  next
    case (MSetRequest q)
    obtain r kv where "SetWithExpiry (ne_env ne) (sr_Key q) (sr_Value q) (Node_Set_expiry ne (sint (sr_TTL q)) n) (nd_db n) = Returns r kv"
      "writes_through kv" using SetWithExpiry_through [OF n(2,3)] by blast
    with Node_Set_returns [OF n(1) this(1)] MSetRequest show ?thesis
      by (auto simp: node_store_def serving_def split: sum.splits)
  next
    case (MDeleteRequest q)
    obtain r kv where "Delete (ne_env ne) (dr_Key q) (nd_db n) = Returns r kv"
      "writes_through kv" using Delete_through [OF n(2,3)] by blast
    with Node_Delete_returns [OF n(1) this(1)] MDeleteRequest show ?thesis
      by (auto simp: node_store_def serving_def split: sum.splits)
  qed simp_all
qed (simp add: Dispatch_other assms)

lemma dispatchClient_serving:
  assumes "serving n"
  shows "\<exists>n'. dispatchClient ne c msg n = Returns (Inr ()) n' \<and> serving n'"
  using Dispatch_serving [OF assms, of msg ne] assms
  by (auto simp: dispatchClient_def dispatchToEngine_def split: sum.splits)

lemma readMessage_serving: "readMessage s ne c r n = (res, r', n') \<Longrightarrow> serving n' \<longleftrightarrow> serving n"
  by (auto simp: readMessage_def split: go.splits prod.splits if_splits)

lemma readMessage_fields: "readMessage s ne c r n = (res, r', n') \<Longrightarrow> nd_raft n' = nd_raft n \<and> nd_leader n' = nd_leader n"
  by (auto simp: readMessage_def split: go.splits prod.splits if_splits)

lemma readMessage_small:
  assumes "0 < ts_maxPayloadBytes s" and "unat (ts_maxPayloadBytes s) \<le> 65536"
  shows "fst (readMessage s ne c r n) \<noteq> Panic"
  using ReadFrame_small [OF assms, of r] by (auto simp: readMessage_def split: go.splits prod.splits)

lemma readMessage_reader:
  "readMessage s ne c r n = (res, r', n') \<Longrightarrow> rd_end r' = rd_end r \<and> (res = Err (IO StillWaiting) \<longrightarrow> rd_end r = StillWaiting)"
  by (auto simp: readMessage_def ReadFrame_def ReadFull_def Let_def split: go.splits prod.splits if_splits)

text \<open>A handler returns, or it waits for a peer that is connected and silent.\<close>

definition ends_or_waits :: "Reader \<Rightarrow> served \<Rightarrow> (Node \<Rightarrow> bool) \<Rightarrow> bool" where
  "ends_or_waits r res P \<longleftrightarrow> (\<exists>n'. res = Returns (Inr ()) n' \<and> P n') \<or> (res = Blocks \<and> rd_end r = StillWaiting)"

lemma client_loop_serving:
  assumes "0 < ts_maxPayloadBytes s" and "unat (ts_maxPayloadBytes s) \<le> 65536" and "serving n"
  shows "ends_or_waits r (client_loop s envs i c r n) (\<lambda>n'. serving n' \<and> c \<in> net_closed (nd_net n'))"
  using assms
proof (induction s envs i c r n rule: client_loop.induct)
  case (1 s envs i c r n)
  obtain res r' n' where rm: "readMessage s (envs i) c r n = (res, r', n')" by (cases "readMessage s (envs i) c r n")
  have n': "serving n'" using readMessage_serving [OF rm] 1(4) by simp
  note e = readMessage_reader [OF rm]
  show ?case
  proof (cases res)
    case (Ok msg)
    obtain n2 where d: "dispatchClient (envs i) c msg n' = Returns (Inr ()) n2" "serving n2"
      using dispatchClient_serving [OF n'] by blast
    with 1(1) [OF rm [symmetric] Ok refl d(1) 1(2,3) d(2)] rm Ok e show ?thesis
      by (subst client_loop.simps) (simp add: ends_or_waits_def)
  next
    case (Err x)
    with rm n' e show ?thesis by (subst client_loop.simps) (simp add: ends_or_waits_def)
  next
    case Panic
    with rm readMessage_small [OF 1(2,3), of "envs i" c r n] show ?thesis by simp
  qed
qed

lemma handleConnection_frames:
  assumes "list_all (\<lambda>m. Frame_valid m \<and> within_limit (ts_maxPayloadBytes s) m) (m # ms)"
    and "map EncodeFrame (m # ms) = map Ok fs"
    and "OpCode m \<noteq> OpReplicationJoin" and "OpCode m \<noteq> OpHeartbeat" and "OpCode m \<noteq> OpVoteRequest"
  shows "handleConnection s envs c \<lparr>rd_data = concat fs, rd_end = EOF\<rparr> n = serve_all envs 0 c (m # ms) n"
proof -
  obtain f fs' where fs: "fs = f # fs'" "EncodeFrame m = Ok f" "map EncodeFrame ms = map Ok fs'"
    using assms(2) by (cases fs) auto
  have "readMessage s (envs 0) c \<lparr>rd_data = f @ concat fs', rd_end = EOF\<rparr> n = (Ok m, \<lparr>rd_data = concat fs', rd_end = EOF\<rparr>, n)"
    using assms(1) fs(2) by (intro readMessage_frame) simp_all
  with assms fs client_loop_frames [of s ms fs' envs 1 c] show ?thesis
    by (simp add: handleConnection_def Let_def split: outcome.splits)
qed

section \<open>Properties\<close>

text \<open>C14 (equivalence): what the server does with the bytes of a client connection is what it does with the
  messages, one after the other: for every sequence of messages whose frames are sent back to back
  and followed by the end of the connection, the messages are answered in order and the connection is closed.
  Only the first message selects the kind of connection; a topology request is one of the messages and does not end it.\<close>

theorem connection_serves_messages:
  assumes "list_all (\<lambda>m. Frame_valid m \<and> within_limit (ts_maxPayloadBytes s) m) (m # ms)"
    and "map EncodeFrame (m # ms) = map Ok fs"
    and "OpCode m \<noteq> OpReplicationJoin" and "OpCode m \<noteq> OpHeartbeat" and "OpCode m \<noteq> OpVoteRequest"
  shows "handleConnection s envs c \<lparr>rd_data = concat fs, rd_end = EOF\<rparr> n = serve_all envs 0 c (m # ms) n"
  using assms by (rule handleConnection_frames)

theorem connection_serves_messages_witness:
  "let n = NewNode (example_store 8 NoEvict SyncNone) 100 [] [] in
   handleConnection (NewTCPServer 100) (\<lambda>_. example_node_env) 5
     \<lparr>rd_data = concat [[0, 0, 0, 1, OpTopologyRequest], [0, 0, 0, 1, OpTopologyRequest]], rd_end = EOF\<rparr> n =
   serve_all (\<lambda>_. example_node_env) 0 5 [MTopologyRequest (), MTopologyRequest ()] n"
proof -
  have t: "EncodeMessage (MTopologyRequest ()) = Ok [OpTopologyRequest]"
    by (simp add: EncodeMessage_layout TopologyRequest_Encode_def)
  show ?thesis
    unfolding Let_def
    by (rule connection_serves_messages)
      (simp_all add: NewTCPServer_def Frame_valid_def within_limit_def t EncodeFrame_layout PutUint32_def be_put_numeral opcode_defs)
qed

text \<open>C15 (termination): a connection is handled to its end. Whatever bytes it delivers and however it ends, with a limit of
  at most 64 KiB and a log that writes through, the handler returns and leaves a well-formed node, and unless
  the peer has been registered for replication the connection is closed; it neither panics nor loops. There is no read
  deadline: the handler waits where the peer stays connected and silent, and only there, so a client that sends nothing
  holds its handler for good. Writes to the connection return, with or without an error, and a leader has its \<open>Leader\<close>.\<close>

theorem connection_ends:
  assumes "0 < ts_maxPayloadBytes s" and "unat (ts_maxPayloadBytes s) \<le> 65536" and "serving n"
    and "IsLeader n \<longrightarrow> nd_leader n \<noteq> None"
  shows "((\<exists>n'. handleConnection s envs c r n = Returns (Inr ()) n' \<and> serving n' \<and>
        (c \<in> net_closed (nd_net n') \<or> (\<exists>l addr. nd_leader n' = Some l \<and> gomap_get (ld_followers l) addr = Some c))) \<or>
      (handleConnection s envs c r n = Blocks \<and> rd_end r = StillWaiting)) \<and>
    handleConnection s envs c \<lparr>rd_data = [], rd_end = StillWaiting\<rparr> n = Blocks"
proof -
  let ?P = "\<lambda>n'. serving n' \<and>
    (c \<in> net_closed (nd_net n') \<or> (\<exists>l addr. nd_leader n' = Some l \<and> gomap_get (ld_followers l) addr = Some c))"
  obtain res r' n1 where rm: "readMessage s (envs 0) c r n = (res, r', n1)" by (cases "readMessage s (envs 0) c r n")
  have n1: "serving n1" "IsLeader n1 \<longrightarrow> nd_leader n1 \<noteq> None"
    using readMessage_serving [OF rm] readMessage_fields [OF rm] assms(3,4) by (simp_all add: IsLeader_def)
  note e = readMessage_reader [OF rm]
  have "ends_or_waits r (handleConnection s envs c r n) ?P"
  proof (cases res)
    case Panic
    with rm readMessage_small [OF assms(1,2), of "envs 0" c r n] show ?thesis by simp
  next
    case (Err x)
    with rm n1 e show ?thesis by (simp add: handleConnection_def ends_or_waits_def)
  next
    case (Ok m)
    have cb: "serving (run_callback cb (n1\<lparr>nd_raft := x\<rparr>))" for cb x
      using n1(1) by (cases cb) (simp_all add: serving_def node_inv_def becomeLeader_def becomeFollower_def newLeader_def)
    obtain n2 where d: "dispatchClient (envs 0) c m n1 = Returns (Inr ()) n2" "serving n2"
      using dispatchClient_serving [OF n1(1)] by blast
    note loop = client_loop_serving [OF assms(1,2) d(2), of r' envs 1 c]
    show ?thesis
    proof (cases m)
      case (MReplicationJoin j)
      show ?thesis
      proof (cases "IsLeader n1")
        case True
        with n1(2) obtain l where "nd_leader n1 = Some l" by auto
        with True Ok rm MReplicationJoin n1(1) show ?thesis
          by (auto simp: ends_or_waits_def handleConnection_def handleReplicationPeer_def Node_Leader_def AddFollower_def serving_def
              node_inv_def go_map_simps)
      qed (use Ok rm MReplicationJoin n1(1) in \<open>simp add: ends_or_waits_def handleConnection_def handleReplicationPeer_def\<close>)
    next
      case (MHeartbeat h)
      with Ok rm cb show ?thesis
        by (simp add: ends_or_waits_def handleConnection_def Node_HandleHeartbeat_def Let_def opcode_defs split: prod.splits)
    next
      case (MVoteRequest q)
      with Ok rm cb show ?thesis
        by (simp add: ends_or_waits_def handleConnection_def Node_HandleVoteRequest_def Let_def opcode_defs split: prod.splits)
    qed (use Ok rm d(1) loop e in \<open>auto simp: ends_or_waits_def handleConnection_def opcode_defs\<close>)
  qed
  moreover have "handleConnection s envs c \<lparr>rd_data = [], rd_end = StillWaiting\<rparr> n = Blocks"
    by (simp add: handleConnection_def readMessage_def ReadFrame_def ReadFull_def frameHeaderSize_def)
  ultimately show ?thesis unfolding ends_or_waits_def by blast
qed

theorem connection_ends_witness:
  "let n = NewNode (example_store 8 NoEvict SyncNone) 100 [] [] in
   (\<exists>n'. handleConnection (NewTCPServer 1000) (\<lambda>_. example_node_env) 5 \<lparr>rd_data = [0, 0, 0, 2, 1, 2, 3], rd_end = EOF\<rparr> n =
     Returns (Inr ()) n' \<and> serving n') \<and>
   handleConnection (NewTCPServer 1000) (\<lambda>_. example_node_env) 5 \<lparr>rd_data = [], rd_end = StillWaiting\<rparr> n = Blocks"
proof -
  let ?n = "NewNode (example_store 8 NoEvict SyncNone) 100 [] []"
  have "serving ?n"
    using example_store_inv [of NoEvict 8 SyncNone]
    by (simp add: serving_def node_inv_def NewNode_def writes_through_def)
      (simp add: example_store_def open_state_def SyncNone_def SyncInterval_def)
  moreover have "\<not> IsLeader ?n" by (simp add: IsLeader_def NewNode_def NewRaftState_def GetRole_def)
  ultimately show ?thesis
    using connection_ends [of "NewTCPServer 1000" ?n "\<lambda>_. example_node_env" 5 "\<lparr>rd_data = [0, 0, 0, 2, 1, 2, 3], rd_end = EOF\<rparr>"]
    unfolding Let_def by (simp add: NewTCPServer_def) blast
qed

text \<open>C24 (error): one frame crashes the server. The bytes that the encoder produces for a GET of a key of
  65534 or 65535 bytes make the goroutine of the connection panic, and with it the process, on every
  node whose limit admits such a frame; the default of 10 MiB does.\<close>

theorem one_frame_crashes:
  assumes "65534 \<le> length k" and "length k < 65536"
    and "ts_maxPayloadBytes s = 0 \<or> length k + 3 \<le> unat (ts_maxPayloadBytes s)"
  shows "\<exists>f. EncodeFrame (MGetRequest \<lparr>gr_Key = k\<rparr>) = Ok f \<and>
    handleConnection s envs c \<lparr>rd_data = f @ rest, rd_end = e\<rparr> n = Panics"
proof -
  obtain w where w: "EncodeMessage (MGetRequest \<lparr>gr_Key = k\<rparr>) = Ok w" "DecodeMessage the_registry w = Panic"
    using GetRequest_long_key [OF assms(1,2)] by blast
  then have "length w = length k + 3" by (auto simp: EncodeMessage_layout GetRequest_Encode_layout)
  with assms w(2) have "ReadFrame the_registry \<lparr>rd_data = frame_of w @ rest, rd_end = e\<rparr> (ts_maxPayloadBytes s) =
      (Panic, \<lparr>rd_data = rest, rd_end = e\<rparr>)"
    by (subst ReadFrame_frame_of) auto
  then have "handleConnection s envs c \<lparr>rd_data = frame_of w @ rest, rd_end = e\<rparr> n = Panics"
    by (simp add: handleConnection_def readMessage_def)
  with EncodeFrame_layout [OF w(1)] show ?thesis by (simp add: frame_of_def)
qed

theorem one_frame_crashes_witness:
  "\<exists>f. EncodeFrame (MGetRequest \<lparr>gr_Key = replicate 65534 97\<rparr>) = Ok f \<and>
    handleConnection (NewTCPServer 10485760) (\<lambda>_. example_node_env) 5 \<lparr>rd_data = f @ [], rd_end = EOF\<rparr>
      (NewNode (example_store 8 NoEvict SyncNone) 100 [] []) = Panics"
  by (rule one_frame_crashes) (simp_all add: NewTCPServer_def)

text \<open>A window in every election. Raft makes the node a leader before it calls the callback
  that creates the \<open>Leader\<close>; a follower that joins in between finds a leader without one, and the
  process panics. After the callback the same frame registers the follower.\<close>

lemma join_before_callback_panics:
  assumes "runCandidate_end t got (nd_raft n) = (OnLeader, r)" and "nd_leader n = None"
    and "Frame_valid (MReplicationJoin j)" and "within_limit (ts_maxPayloadBytes s) (MReplicationJoin j)"
    and "EncodeFrame (MReplicationJoin j) = Ok f"
  shows "handleConnection s envs c \<lparr>rd_data = f @ rest, rd_end = e\<rparr> (n\<lparr>nd_raft := r\<rparr>) = Panics \<and>
    (\<exists>n' l. handleConnection s envs c \<lparr>rd_data = f @ rest, rd_end = e\<rparr> (run_callback OnLeader (n\<lparr>nd_raft := r\<rparr>)) =
        Returns (Inr ()) n' \<and> nd_leader n' = Some l \<and> gomap_get (ld_followers l) (rj_NodeAddr j) = Some c)"
proof -
  have r: "rf_role r = RoleLeader" using assms(1) by (auto simp: runCandidate_end_def split: if_splits)
  have "readMessage s (envs 0) c \<lparr>rd_data = f @ rest, rd_end = e\<rparr> n1 = (Ok (MReplicationJoin j), \<lparr>rd_data = rest, rd_end = e\<rparr>, n1)" for n1
    using assms(3-5) by (rule readMessage_frame)
  with r assms(2) show ?thesis
    by (simp add: handleConnection_def handleReplicationPeer_def IsLeader_def GetRole_def Node_Leader_def becomeLeader_def
        newLeader_def AddFollower_def go_map_simps)
qed

end
