(* ===== verification/Leadership.thy ===== *)
theory Leadership
  imports Election Server
begin

text \<open>
  Raft inside a node. First the calls to peers of \<open>cluster/raft.go\<close>, \<open>requestVoteRPC\<close> and
  \<open>sendHeartbeatRPC\<close>, as bytes on a connection: between a caller and the server of \<open>server/tcp.go\<close> they are
  the steps of the theory Election. Then one process by itself: the goroutine of \<open>run\<close>, the handlers of
  incoming messages, which call back into the node of \<open>cluster/node.go\<close> after they have released the lock,
  and the client traffic. The theorems are about the field \<open>leader\<close> of the node, which those callbacks set.
\<close>

section \<open>Calls to peers\<close>

text \<open>\<open>d\<close> is what the dial meets. Every failure returns false; only a frame that makes the decoder panic does
  not return.\<close>

definition requestVoteRPC :: "dialed \<Rightarrow> u64 \<Rightarrow> RaftState \<Rightarrow> (ProtoError, bool) go \<times> RaftState" where
  "requestVoteRPC d term r =
     (case d of
        Inl e \<Rightarrow> (Ok False, r)
      | Inr (out, rd) \<Rightarrow>
          (case fst (WriteFrame out [] (MVoteRequest (vote_request r term))) of
             Err e \<Rightarrow> (Ok False, r)
           | Panic \<Rightarrow> (Panic, r)
           | Ok _ \<Rightarrow>
               (case fst (ReadFrame the_registry rd 0) of
                  Err e \<Rightarrow> (Ok False, r)
                | Panic \<Rightarrow> (Panic, r)
                | Ok msg \<Rightarrow>
                    (case msg of
                       MVoteResponse resp \<Rightarrow> (let (granted, r') = requestVoteRPC_reply resp r in (Ok granted, r'))
                     | _ \<Rightarrow> (Ok False, r)))))"

definition sendHeartbeatRPC :: "dialed \<Rightarrow> u64 \<Rightarrow> RaftState \<Rightarrow> (ProtoError, unit) go" where
  "sendHeartbeatRPC d term r =
     (case d of
        Inl e \<Rightarrow> Ok ()
      | Inr (out, rd) \<Rightarrow>
          (case fst (WriteFrame out [] (MHeartbeat (heartbeat_message r term))) of
             Panic \<Rightarrow> Panic
           | _ \<Rightarrow> (case fst (ReadFrame the_registry rd 0) of Panic \<Rightarrow> Panic | _ \<Rightarrow> Ok ())))"

text \<open>A vote call ends in one of the two ways of the theory Election: an answer is taken in, or the call has
  failed and left the state alone.\<close>

lemma requestVoteRPC_cases:
  assumes "requestVoteRPC d t r = (Ok g, r')"
  shows "(\<exists>resp. requestVoteRPC_reply resp r = (g, r')) \<or> \<not> g \<and> r' = r"
  using assms by (auto simp: requestVoteRPC_def split: sum.splits go.splits Message.splits prod.splits)

lemma requestVoteRPC_answer:
  assumes "Frame_valid (MVoteRequest (vote_request r t))" and "Frame_valid (MVoteResponse resp)"
    and "EncodeFrame (MVoteResponse resp) = Ok f" and "requestVoteRPC_reply resp r = (g, r')"
  shows "requestVoteRPC (Inr (WriteOk, \<lparr>rd_data = f, rd_end = EOF\<rparr>)) t r = (Ok g, r')"
proof -
  obtain q where "EncodeFrame (MVoteRequest (vote_request r t)) = Ok q" using assms(1) by (rule Frame_validE) blast
  with ReadFrame_EncodeFrame [OF assms(2) _ assms(3), of 0 "[]" EOF] assms(4) show ?thesis
    by (simp add: requestVoteRPC_def WriteFrame_def within_limit_def)
qed

lemma vote_messages_valid:
  "length (rf_nodeAddr r) < 65536 \<Longrightarrow> Frame_valid (MVoteRequest (vote_request r t))"
  "Frame_valid (MVoteResponse resp)"
  "length (rf_nodeAddr r) < 65536 \<Longrightarrow> Frame_valid (MHeartbeat (heartbeat_message r t))"
  "Frame_valid (MHeartbeatAck a)"
  by (simp_all add: Frame_valid_def EncodeMessage_layout VoteRequest_valid_def vote_request_def VoteRequest_Encode_layout
      VoteResponse_Encode_layout Heartbeat_valid_def heartbeat_message_def Heartbeat_Encode_layout HeartbeatAck_Encode_layout)

lemma serve_vote_request:
  assumes "Frame_valid (MVoteRequest q)" and "within_limit (ts_maxPayloadBytes s) (MVoteRequest q)" and "EncodeFrame (MVoteRequest q) = Ok f"
    and "HandleVoteRequest q (nd_raft n) = ((g, u), cb, r)" and "fresh_conn ne c n"
    and "EncodeFrame (MVoteResponse \<lparr>vs_Term = u, vs_Granted = g\<rparr>) = Ok f'"
  obtains n' where "handleConnection s (\<lambda>_. ne) c \<lparr>rd_data = f, rd_end = EOF\<rparr> n = Returns (Inr ()) n'" "nd_raft n' = r"
    "nd_leader n' = nd_leader (run_callback cb n)" "nd_db n' = nd_db n" "net_sent (nd_net n') c = f'"
proof -
  let ?n = "run_callback cb (n\<lparr>nd_raft := r\<rparr>)"
  let ?m = "MVoteResponse \<lparr>vs_Term = u, vs_Granted = g\<rparr>"
  have n: "nd_raft ?n = r" "nd_leader ?n = nd_leader (run_callback cb n)" "nd_db ?n = nd_db n" "nd_net ?n = nd_net n"
    by (cases cb; simp add: becomeLeader_def becomeFollower_def)+
  have h: "handleConnection s (\<lambda>_. ne) c \<lparr>rd_data = f, rd_end = EOF\<rparr> n = Returns (Inr ()) (close_conn c (snd (writeMessage ne c ?m ?n)))"
    using readMessage_frame [OF assms(1-3), of ne c "[]" EOF n] assms(4)
    by (simp add: handleConnection_def Node_HandleVoteRequest_def opcode_defs)
  have "fresh_conn ne c ?n" using assms(5) by (simp add: fresh_conn_def n(4))
  from writeMessage_fresh [OF this assms(6)] n show ?thesis by (intro that [OF h]) simp_all
qed

lemma serve_heartbeat:
  assumes "Frame_valid (MHeartbeat h)" and "within_limit (ts_maxPayloadBytes s) (MHeartbeat h)" and "EncodeFrame (MHeartbeat h) = Ok f"
    and "HandleHeartbeat (hb_Term h) (hb_LeaderID h) (nd_raft n) = (cb, r)" and "fresh_conn ne c n"
  obtains n' f' where "handleConnection s (\<lambda>_. ne) c \<lparr>rd_data = f, rd_end = EOF\<rparr> n = Returns (Inr ()) n'" "nd_raft n' = r"
    "nd_leader n' = nd_leader (run_callback cb n)" "nd_db n' = nd_db n"
    "EncodeFrame (MHeartbeatAck \<lparr>ha_Term = rf_currentTerm r, ha_LastAppliedIndex = 0\<rparr>) = Ok f'" "net_sent (nd_net n') c = f'"
proof -
  let ?n = "run_callback cb (n\<lparr>nd_raft := r\<rparr>)"
  let ?m = "MHeartbeatAck \<lparr>ha_Term = rf_currentTerm r, ha_LastAppliedIndex = 0\<rparr>"
  have n: "nd_raft ?n = r" "nd_leader ?n = nd_leader (run_callback cb n)" "nd_db ?n = nd_db n" "nd_net ?n = nd_net n"
    by (cases cb; simp add: becomeLeader_def becomeFollower_def)+
  obtain f' where f': "EncodeFrame ?m = Ok f'" by (rule Frame_validE [OF vote_messages_valid(4)])
  have h: "handleConnection s (\<lambda>_. ne) c \<lparr>rd_data = f, rd_end = EOF\<rparr> n = Returns (Inr ()) (close_conn c (snd (writeMessage ne c ?m ?n)))"
    using readMessage_frame [OF assms(1-3), of ne c "[]" EOF n] assms(4) n(1)
    by (simp add: handleConnection_def Node_HandleHeartbeat_def Node_GetTerm_def GetTerm_def opcode_defs)
  have "fresh_conn ne c ?n" using assms(5) by (simp add: fresh_conn_def n(4))
  from writeMessage_fresh [OF this f'] n f' show ?thesis by (intro that [OF h]) simp_all
qed

section \<open>One process\<close>

text \<open>What \<open>HandleHeartbeat\<close> and \<open>HandleVoteRequest\<close> do under the lock, and what is left to do after it has been
  released: a callback, if the node was a leader, and then the token. \<open>None\<close> where nothing is left.\<close>

definition HandleHeartbeat_section :: "u64 \<Rightarrow> bytes \<Rightarrow> RaftState \<Rightarrow> callback option \<times> RaftState" where
  "HandleHeartbeat_section term leaderID r =
     (if term < rf_currentTerm r then (None, r)
      else let wasLeader = (rf_role r = RoleLeader);
               r = (if term > rf_currentTerm r then r\<lparr>rf_currentTerm := term, rf_votedFor := []\<rparr> else r);
               r = r\<lparr>rf_leaderAddr := leaderID, rf_role := RoleFollower\<rparr>
           in (Some (if wasLeader then OnFollower else NoCallback), r))"

definition HandleVoteRequest_section :: "VoteRequest \<Rightarrow> RaftState \<Rightarrow> (bool \<times> u64) \<times> callback option \<times> RaftState" where
  "HandleVoteRequest_section req r =
     (if vr_Term req < rf_currentTerm r then ((False, rf_currentTerm r), None, r)
      else if rf_role r = RoleLeader \<and> vr_Term req = rf_currentTerm r then ((False, rf_currentTerm r), None, r)
      else let wasLeader = (rf_role r = RoleLeader);
               r = (if vr_Term req > rf_currentTerm r
                    then r\<lparr>rf_currentTerm := vr_Term req, rf_votedFor := [], rf_role := RoleFollower\<rparr> else r)
           in if rf_votedFor r = [] \<or> rf_votedFor r = vr_CandidateID req
              then let r = r\<lparr>rf_votedFor := vr_CandidateID req\<rparr>
                   in ((True, rf_currentTerm r), Some (if wasLeader then OnFollower else NoCallback), r)
              else ((False, rf_currentTerm r), None, r))"

definition handler_end :: "callback \<Rightarrow> Node \<Rightarrow> Node" where
  "handler_end cb n = (let n = run_callback cb n in n\<lparr>nd_raft := signal_heartbeat (nd_raft n)\<rparr>)"

lemma Node_HandleHeartbeat_sections:
  "Node_HandleHeartbeat t l n =
     (case HandleHeartbeat_section t l (nd_raft n) of
        (None, r) \<Rightarrow> n\<lparr>nd_raft := r\<rparr>
      | (Some cb, r) \<Rightarrow> handler_end cb (n\<lparr>nd_raft := r\<rparr>))"
  by (simp add: Node_HandleHeartbeat_def HandleHeartbeat_def HandleHeartbeat_section_def handler_end_def becomeFollower_def Let_def)

lemma Node_HandleVoteRequest_sections:
  "Node_HandleVoteRequest q n =
     (case HandleVoteRequest_section q (nd_raft n) of
        (a, None, r) \<Rightarrow> (a, n\<lparr>nd_raft := r\<rparr>)
      | (a, Some cb, r) \<Rightarrow> (a, handler_end cb (n\<lparr>nd_raft := r\<rparr>)))"
  by (simp add: Node_HandleVoteRequest_def HandleVoteRequest_def HandleVoteRequest_section_def handler_end_def becomeFollower_def
      Let_def)

text \<open>The process: its node, where the goroutine of \<open>run\<close> is, whether that is about to call \<open>onLeader\<close>, and the
  handlers that have released the lock and not come to their end.\<close>

record Proc =
  pr_node :: Node
  pr_pc :: pc
  pr_elected :: bool
  pr_handlers :: "callback list"

definition boot :: "Node \<Rightarrow> Proc" where
  "boot n = \<lparr>pr_node = n, pr_pc = PRun, pr_elected = False, pr_handlers = []\<rparr>"

datatype pevent =
    Run
  | Elected
  | Promoted
  | GotHeartbeat u64 bytes
  | GotVoteRequest VoteRequest
  | HandlerEnd
  | GotAnswer VoteResponse
  | Served Message
  | Joined bytes
  | Drained bytes

abbreviation pr_raft :: "Proc \<Rightarrow> RaftState" where
  "pr_raft p \<equiv> nd_raft (pr_node p)"

abbreviation upd_raft :: "RaftState \<Rightarrow> Proc \<Rightarrow> Proc" where
  "upd_raft r p \<equiv> p\<lparr>pr_node := (pr_node p)\<lparr>nd_raft := r\<rparr>\<rparr>"

abbreviation add_handler :: "callback option \<Rightarrow> Proc \<Rightarrow> Proc" where
  "add_handler cb p \<equiv> p\<lparr>pr_handlers := (case cb of None \<Rightarrow> pr_handlers p | Some x \<Rightarrow> pr_handlers p @ [x])\<rparr>"

text \<open>The goroutine \<open>drainAcks\<close> of a follower works on the \<open>Leader\<close> the follower joined; when the node has another one
  by now, all the process sees is that the connection is closed. \<open>got\<close> is the number of votes counted.\<close>

inductive pstep :: "Proc \<Rightarrow> pevent \<Rightarrow> Proc \<Rightarrow> bool" where
  run_loop: "pr_pc p = PRun \<Longrightarrow> \<not> pr_elected p \<Longrightarrow> pstep p Run (p\<lparr>pr_pc := run_target (rf_role (pr_raft p))\<rparr>)"
| follower_token: "pr_pc p = PFollower \<Longrightarrow> runFollower_heartbeat (pr_raft p) = Some r \<Longrightarrow>
    pstep p Run ((upd_raft r p)\<lparr>pr_pc := PRun\<rparr>)"
| follower_timeout: "pr_pc p = PFollower \<Longrightarrow> pstep p Run ((upd_raft (runFollower_timeout (pr_raft p)) p)\<lparr>pr_pc := PRun\<rparr>)"
| candidate_begin: "pr_pc p = PCandidate \<Longrightarrow> runCandidate_begin (pr_raft p) = (t, others, r) \<Longrightarrow>
    pstep p Run ((upd_raft r p)\<lparr>pr_pc := PElection t\<rparr>)"
| candidate_token: "pr_pc p = PElection t \<Longrightarrow> runCandidate_heartbeat (pr_raft p) = Some r \<Longrightarrow>
    pstep p Run ((upd_raft r p)\<lparr>pr_pc := PRun\<rparr>)"
| candidate_wait: "pr_pc p = PElection t \<Longrightarrow> pstep p Run (p\<lparr>pr_pc := PCount t\<rparr>)"
| candidate_end: "pr_pc p = PCount t \<Longrightarrow> got \<le> length (rf_peers (pr_raft p)) \<Longrightarrow> runCandidate_end t got (pr_raft p) = (cb, r) \<Longrightarrow>
    pstep p (if cb = OnLeader then Elected else Run) ((upd_raft r p)\<lparr>pr_pc := PRun, pr_elected := (cb = OnLeader)\<rparr>)"
| promoted: "pr_elected p \<Longrightarrow> pstep p Promoted (p\<lparr>pr_node := becomeLeader (pr_node p), pr_elected := False\<rparr>)"
| leader_top: "pr_pc p = PLeader \<Longrightarrow>
    pstep p Run (p\<lparr>pr_pc := (case runLeader_top (pr_raft p) of None \<Rightarrow> PRun | Some (t, others) \<Rightarrow> PHeartbeats t others)\<rparr>)"
| leader_tick: "pr_pc p = PHeartbeats t others \<Longrightarrow> pstep p Run (p\<lparr>pr_pc := PLeader\<rparr>)"
| leader_token: "pr_pc p = PHeartbeats t others \<Longrightarrow> runLeader_heartbeat (pr_raft p) = Some (go, r) \<Longrightarrow>
    pstep p Run ((upd_raft r p)\<lparr>pr_pc := (if go then PLeader else PRun)\<rparr>)"
| got_heartbeat: "HandleHeartbeat_section t l (pr_raft p) = (cb, r) \<Longrightarrow>
    pstep p (GotHeartbeat t l) (add_handler cb (upd_raft r p))"
| got_vote_request: "HandleVoteRequest_section q (pr_raft p) = (a, cb, r) \<Longrightarrow>
    pstep p (GotVoteRequest q) (add_handler cb (upd_raft r p))"
| handler_ends: "pr_handlers p = xs @ cb # ys \<Longrightarrow>
    pstep p HandlerEnd (p\<lparr>pr_node := handler_end cb (pr_node p), pr_handlers := xs @ ys\<rparr>)"
| got_answer: "requestVoteRPC_reply resp (pr_raft p) = (g, r) \<Longrightarrow> pstep p (GotAnswer resp) (upd_raft r p)"
| served: "dispatchClient ne c msg (pr_node p) = Returns res n \<Longrightarrow> pstep p (Served msg) (p\<lparr>pr_node := n\<rparr>)"
| joined: "handleReplicationPeer ne c (MReplicationJoin j) (pr_node p) = Returns res n \<Longrightarrow>
    pstep p (Joined (rj_NodeAddr j)) (p\<lparr>pr_node := n\<rparr>)"
| drained_old: "pstep p (Drained addr) (p\<lparr>pr_node := (pr_node p)\<lparr>nd_net := conn_close c (nd_net (pr_node p))\<rparr>\<rparr>)"
| drained: "nd_leader (pr_node p) = Some l \<Longrightarrow> drainAcks addr rd l (nd_net (pr_node p)) = Some (l', net) \<Longrightarrow>
    pstep p (Drained addr) (p\<lparr>pr_node := (pr_node p)\<lparr>nd_leader := Some l', nd_net := net\<rparr>\<rparr>)"

inductive_cases PromotedE: "pstep p Promoted p'"
inductive_cases HandlerEndE: "pstep p HandlerEnd p'"

section \<open>Lemmas on the process\<close>

text \<open>Client traffic, joins and the end of a follower's acks neither create nor drop the \<open>Leader\<close>.\<close>

definition leader_kept :: "Node \<Rightarrow> Node \<Rightarrow> bool" where
  "leader_kept n n' \<longleftrightarrow> nd_raft n' = nd_raft n \<and> (nd_leader n' = None \<longleftrightarrow> nd_leader n = None)"

lemma leader_kept_output [simp]:
  "leader_kept n (snd (writeMessage ne c m n')) = leader_kept n n'" "leader_kept n (writeError ne c code t n') = leader_kept n n'"
  "leader_kept n (close_conn c n') = leader_kept n n'"
  by (simp_all add: leader_kept_def)

lemma broadcast_leader_kept:
  "Node_Set_broadcast ne key val e n = Returns r n' \<Longrightarrow> leader_kept n n'"
  "Node_Delete_broadcast ne key n = Returns r n' \<Longrightarrow> leader_kept n n'"
  by (auto simp: Node_Set_broadcast_def Node_Delete_broadcast_def leader_kept_def split: option.splits)

lemma leader_kept_db [simp]: "leader_kept (n\<lparr>nd_db := db\<rparr>) n' = leader_kept n n'" "leader_kept n (n'\<lparr>nd_db := db\<rparr>) = leader_kept n n'"
  by (simp_all add: leader_kept_def)

lemma leader_kept_refl [simp]: "leader_kept n n"
  by (simp add: leader_kept_def)

lemma Dispatch_leader_kept:
  assumes "Dispatch the_handlers msg (node_store ne) n = Returns r n'"
  shows "leader_kept n n'"
  using assms
proof (rule Dispatch_keeps)
  show "leader_kept n (n\<lparr>nd_db := db\<rparr>)" for db by simp
qed (use broadcast_leader_kept in fastforce)+

lemma dispatchClient_leader_kept:
  assumes "dispatchClient ne c msg n = Returns r n'"
  shows "leader_kept n n'"
proof (cases "OpCode msg = OpTopologyRequest")
  case True
  with assms show ?thesis by (auto simp: dispatchClient_def)
next
  case False
  with assms obtain x n1 where d: "Dispatch the_handlers msg (node_store ne) n = Returns x n1"
    and n': "n' = (case x of Inl err \<Rightarrow> writeError ne c ErrCodeInternal (EngineError_text err) n1 | Inr resp \<Rightarrow> snd (writeMessage ne c resp n1))"
    by (auto simp: dispatchClient_def dispatchToEngine_def dest!: after_Returns split: sum.splits)
  from Dispatch_leader_kept [OF d] show ?thesis by (simp add: n' split: sum.splits)
qed

lemma join_leader_kept:
  assumes "handleReplicationPeer ne c m n = Returns r n'"
  shows "leader_kept n n'"
  using assms
  by (auto simp: handleReplicationPeer_def Node_Leader_def leader_kept_def split: if_splits option.splits Message.splits)

text \<open>Runs in which nothing else happens while a callback is outstanding, and no vote answer with a higher term
  reaches a leader.\<close>

definition prompt_step :: "Proc \<Rightarrow> pevent \<Rightarrow> Proc \<Rightarrow> bool" where
  "prompt_step p ev p' \<longleftrightarrow> pstep p ev p' \<and>
     (pr_elected p \<longrightarrow> ev = Promoted) \<and> (pr_handlers p \<noteq> [] \<longrightarrow> ev = HandlerEnd) \<and>
     (case ev of GotAnswer resp \<Rightarrow> rf_role (pr_raft p) = RoleLeader \<longrightarrow> vs_Term resp \<le> rf_currentTerm (pr_raft p) | _ \<Rightarrow> True)"

text \<open>The \<open>Leader\<close> is there exactly while the node leads, but for the one callback that is outstanding.\<close>

definition role_inv :: "Proc \<Rightarrow> bool" where
  "role_inv p \<longleftrightarrow> (not_leading (pr_pc p) \<longrightarrow> rf_role (pr_raft p) \<noteq> RoleLeader) \<and>
     (if pr_elected p then pr_handlers p = [] \<and> rf_role (pr_raft p) = RoleLeader
      else case pr_handlers p of
             [] \<Rightarrow> nd_leader (pr_node p) \<noteq> None \<longleftrightarrow> rf_role (pr_raft p) = RoleLeader
           | [OnFollower] \<Rightarrow> rf_role (pr_raft p) \<noteq> RoleLeader
           | [NoCallback] \<Rightarrow> nd_leader (pr_node p) \<noteq> None \<longleftrightarrow> rf_role (pr_raft p) = RoleLeader
           | _ \<Rightarrow> False)"

lemma role_inv_boot: "nd_leader n = None \<Longrightarrow> rf_role (nd_raft n) = RoleFollower \<Longrightarrow> role_inv (boot n)"
  by (simp add: role_inv_def boot_def)

lemma role_inv_idle:
  "\<not> pr_elected p \<Longrightarrow> pr_handlers p = [] \<Longrightarrow> role_inv p \<longleftrightarrow>
   (not_leading (pr_pc p) \<longrightarrow> rf_role (pr_raft p) \<noteq> RoleLeader) \<and> (nd_leader (pr_node p) \<noteq> None \<longleftrightarrow> rf_role (pr_raft p) = RoleLeader)"
  by (simp add: role_inv_def)

lemma role_inv_step:
  assumes "role_inv p" and "prompt_step p ev p'"
  shows "role_inv p'"
proof -
  have st: "pstep p ev p'" and e: "pr_elected p \<Longrightarrow> ev = Promoted" and h: "pr_handlers p \<noteq> [] \<Longrightarrow> ev = HandlerEnd"
    using assms(2) by (auto simp: prompt_step_def)
  consider "pr_elected p" | "pr_handlers p \<noteq> []" "\<not> pr_elected p" | "\<not> pr_elected p" "pr_handlers p = []" by blast
  then show ?thesis
  proof cases
    case 1
    with assms(1) have r: "rf_role (pr_raft p) = RoleLeader" "pr_handlers p = []" "\<not> not_leading (pr_pc p)" by (auto simp: role_inv_def)
    from st e [OF 1] have "p' = p\<lparr>pr_node := becomeLeader (pr_node p), pr_elected := False\<rparr>"
      by (auto elim: PromotedE split: if_splits)
    with r show ?thesis by (simp add: role_inv_def becomeLeader_def)
  next
    case 2
    with assms(1) obtain cb where cb: "pr_handlers p = [cb]" by (auto simp: role_inv_def split: list.splits callback.splits)
    from st h [OF 2(1)] cb have "p' = p\<lparr>pr_node := handler_end cb (pr_node p), pr_handlers := []\<rparr>"
      by (auto elim!: HandlerEndE simp: append_eq_Cons_conv split: if_splits)
    with assms(1) cb 2 show ?thesis
      by (cases cb) (simp_all add: role_inv_def handler_end_def becomeFollower_def signal_heartbeat_def Let_def)
  next
    case i: 3
    note inv = assms(1) [unfolded role_inv_idle [OF i]]
    from st show ?thesis
    proof cases
      case (served ne c msg res n)
      with dispatchClient_leader_kept [OF served(3)] i inv show ?thesis by (auto simp: role_inv_def leader_kept_def)
    next
      case (joined ne c j res n)
      with join_leader_kept [OF joined(3)] i inv show ?thesis by (auto simp: role_inv_def leader_kept_def)
    next
      case (got_answer resp g r)
      with assms(2) i inv show ?thesis
        by (auto simp: prompt_step_def role_inv_def requestVoteRPC_reply_def Let_def split: if_splits)
    qed (use i inv in \<open>auto simp: role_inv_def raft_ops HandleHeartbeat_section_def HandleVoteRequest_section_def Let_def
        split: if_splits option.splits\<close>)
  qed
qed

lemma role_inv_trace: "trace prompt_step p es p' \<Longrightarrow> role_inv p \<Longrightarrow> role_inv p'"
  by (induction rule: trace.induct) (auto intro: role_inv_step)

text \<open>A node that has stepped down without its \<open>Leader\<close> being taken away.\<close>

definition stale :: "Proc \<Rightarrow> bool" where
  "stale p \<longleftrightarrow> nd_leader (pr_node p) \<noteq> None \<and> rf_role (pr_raft p) \<noteq> RoleLeader \<and> \<not> pr_elected p \<and>
     (\<forall>cb \<in> set (pr_handlers p). cb = NoCallback)"

lemma stale_step:
  assumes "stale p" and "pstep p ev p'" and "ev \<noteq> Elected"
  shows "stale p'"
proof -
  have s: "nd_leader (pr_node p) \<noteq> None" "rf_role (pr_raft p) \<noteq> RoleLeader" "\<not> pr_elected p"
    and h: "\<And>cb. cb \<in> set (pr_handlers p) \<Longrightarrow> cb = NoCallback"
    using assms(1) by (simp_all add: stale_def)
  from assms(2) show ?thesis
  proof cases
    case (served ne c msg res n)
    with dispatchClient_leader_kept [OF served(3)] s h show ?thesis by (auto simp: stale_def leader_kept_def)
  next
    case (joined ne c j res n)
    with join_leader_kept [OF joined(3)] s h show ?thesis by (auto simp: stale_def leader_kept_def)
  next
    case (handler_ends xs cb ys)
    then have "cb = NoCallback" using h by auto
    with handler_ends s h show ?thesis by (auto simp: stale_def handler_end_def signal_heartbeat_def Let_def)
  next
    case (candidate_end t got cb r)
    with s h assms(3) show ?thesis by (auto simp: stale_def runCandidate_end_def split: if_splits)
  qed (use s h in \<open>auto simp: stale_def raft_ops HandleHeartbeat_section_def HandleVoteRequest_section_def Let_def
      split: if_splits option.splits\<close>)
qed

lemma stale_trace: "trace pstep p es p' \<Longrightarrow> stale p \<Longrightarrow> Elected \<notin> set es \<Longrightarrow> stale p'"
proof (induction rule: trace.induct)
  case (next_step p ev p' es p'')
  then show ?case using stale_step [of p ev p'] by auto
qed simp

lemma broadcast_reaches:
  assumes "nd_leader n = Some l" and "subscribed addr k l (nd_net n)" and "ne_conns ne k = WriteOk"
  obtains n' f where "EncodeFrame (MReplicationSync \<lparr>rs_LogIndex = ld_logIndex l + 1, rs_Op = WAL_OpSet, rs_Key = key, rs_Value = val,
      rs_ExpiresAt = unix_nano e\<rparr>) = Ok f"
    "Node_Set_broadcast ne key val e n = Returns (Inr ()) n'" "net_sent (nd_net n') k = net_sent (nd_net n) k @ f"
proof -
  let ?m = "MReplicationSync \<lparr>rs_LogIndex = ld_logIndex l + 1, rs_Op = WAL_OpSet, rs_Key = key, rs_Value = val, rs_ExpiresAt = unix_nano e\<rparr>"
  obtain w where "EncodeMessage ?m = Ok (OpCode ?m # w)" by (rule EncodeMessage_Ok)
  then obtain f where f: "EncodeFrame ?m = Ok f" by (simp add: EncodeFrame_layout)
  from subscribed_logIndex [OF assms(2)] assms(3) f obtain l' net' where
    "broadcast (ne_addrs ne) (ne_conns ne) ?m (l\<lparr>ld_logIndex := ld_logIndex l + 1\<rparr>) (nd_net n) = Some (l', net')"
    "subscribed addr k l' net'" "ld_logIndex l' = ld_logIndex (l\<lparr>ld_logIndex := ld_logIndex l + 1\<rparr>)" "net_sent net' k = net_sent (nd_net n) k @ f"
    by (rule broadcast_subscribed)
  with assms(1) f show ?thesis
    by (intro that [of f "n\<lparr>nd_leader := Some l', nd_net := net'\<rparr>"]) (simp_all add: Node_Set_broadcast_def BroadcastSet_def Let_def)
qed

lemma vote_call_steps:
  assumes "cl_rpc s (c, t, p) = Some Sent" and "p \<noteq> c" and "nd_raft n = cl_nodes s p" and "fresh_conn ne k n"
    and "length (rf_nodeAddr (cl_nodes s c)) < 65536"
    and "within_limit (ts_maxPayloadBytes srv) (MVoteRequest (vote_request (cl_nodes s c) t))"
    and "EncodeFrame (MVoteRequest (vote_request (cl_nodes s c) t)) = Ok f"
  shows "\<exists>n' s' s'' g. cstep peers s s' \<and> cstep peers s' s'' \<and>
      handleConnection srv (\<lambda>_. ne) k \<lparr>rd_data = f, rd_end = EOF\<rparr> n = Returns (Inr ()) n' \<and> nd_raft n' = cl_nodes s' p \<and>
      requestVoteRPC (Inr (WriteOk, \<lparr>rd_data = net_sent (nd_net n') k, rd_end = EOF\<rparr>)) t (cl_nodes s' c) = (Ok g, cl_nodes s'' c) \<and>
      cl_votes s'' (c, t) = cl_votes s (c, t) + (if g then 1 else 0)"
proof -
  let ?q = "vote_request (cl_nodes s c) t"
  note v = vote_messages_valid(1) [OF assms(5), of t]
  obtain g u cb r where hv: "HandleVoteRequest ?q (cl_nodes s p) = ((g, u), cb, r)" by (metis prod.exhaust)
  let ?resp = "\<lparr>vs_Term = u, vs_Granted = g\<rparr>"
  obtain f' where f': "EncodeFrame (MVoteResponse ?resp) = Ok f'" by (rule Frame_validE [OF vote_messages_valid(2)])
  obtain n' where n': "handleConnection srv (\<lambda>_. ne) k \<lparr>rd_data = f, rd_end = EOF\<rparr> n = Returns (Inr ()) n'" "nd_raft n' = r"
      "net_sent (nd_net n') k = f'"
    by (rule serve_vote_request [OF v assms(6,7) _ assms(4) f', of cb r]) (use assms(3) hv in simp_all)
  let ?s1 = "s\<lparr>cl_nodes := (cl_nodes s)(p := r), cl_rpc := (cl_rpc s)((c, t, p) := Some (Answered ?resp)),
         cl_granted := (if g then insert (p, t, c) (cl_granted s) else cl_granted s)\<rparr>"
  have 1: "cstep peers s ?s1" by (rule cstep.deliver_request [OF assms(1) hv])
  obtain g' r' where rep: "requestVoteRPC_reply ?resp (cl_nodes s c) = (g', r')" by force
  let ?s2 = "?s1\<lparr>cl_nodes := (cl_nodes ?s1)(c := r'), cl_rpc := (cl_rpc ?s1)((c, t, p) := Some Finished),
         cl_votes := (cl_votes ?s1)((c, t) := cl_votes ?s1 (c, t) + (if g' then 1 else 0))\<rparr>"
  have 2: "cstep peers ?s1 ?s2" by (rule cstep.receive_answer [where resp = ?resp]) (use rep assms(2) in simp_all)
  have "requestVoteRPC (Inr (WriteOk, \<lparr>rd_data = f', rd_end = EOF\<rparr>)) t (cl_nodes s c) = (Ok g', r')"
    by (rule requestVoteRPC_answer [OF v vote_messages_valid(2) f' rep])
  with 1 2 n' assms(2) show ?thesis
    by (intro exI [of _ n'] exI [of _ ?s1] exI [of _ ?s2] exI [of _ g']) simp
qed

lemma heartbeat_call_step:
  assumes "(heartbeat_message (cl_nodes s c) t, p) \<in> cl_heartbeats s" and "nd_raft n = cl_nodes s p" and "fresh_conn ne k n"
    and "length (rf_nodeAddr (cl_nodes s c)) < 65536"
    and "within_limit (ts_maxPayloadBytes srv) (MHeartbeat (heartbeat_message (cl_nodes s c) t))"
    and "EncodeFrame (MHeartbeat (heartbeat_message (cl_nodes s c) t)) = Ok h"
  shows "\<exists>n' s'. cstep peers s s' \<and> handleConnection srv (\<lambda>_. ne) k \<lparr>rd_data = h, rd_end = EOF\<rparr> n = Returns (Inr ()) n' \<and>
      nd_raft n' = cl_nodes s' p \<and>
      sendHeartbeatRPC (Inr (WriteOk, \<lparr>rd_data = net_sent (nd_net n') k, rd_end = EOF\<rparr>)) t (cl_nodes s c) = Ok ()"
proof -
  let ?b = "heartbeat_message (cl_nodes s c) t"
  note v = vote_messages_valid(3) [OF assms(4), of t]
  obtain cb r where hh: "HandleHeartbeat (hb_Term ?b) (hb_LeaderID ?b) (cl_nodes s p) = (cb, r)" by force
  obtain n' f' where n': "handleConnection srv (\<lambda>_. ne) k \<lparr>rd_data = h, rd_end = EOF\<rparr> n = Returns (Inr ()) n'" "nd_raft n' = r"
      "EncodeFrame (MHeartbeatAck \<lparr>ha_Term = rf_currentTerm r, ha_LastAppliedIndex = 0\<rparr>) = Ok f'" "net_sent (nd_net n') k = f'"
    by (rule serve_heartbeat [OF v assms(5,6) _ assms(3), of cb r]) (use assms(2) hh in simp_all)
  have "cstep peers s (s\<lparr>cl_nodes := (cl_nodes s)(p := r)\<rparr>)" by (rule cstep.deliver_heartbeat [OF assms(1) hh])
  moreover have "sendHeartbeatRPC (Inr (WriteOk, \<lparr>rd_data = f', rd_end = EOF\<rparr>)) t (cl_nodes s c) = Ok ()"
    using ReadFrame_EncodeFrame [OF vote_messages_valid(4) _ n'(3), of 0 "[]" EOF] assms(6)
    by (simp add: sendHeartbeatRPC_def WriteFrame_def within_limit_def)
  ultimately show ?thesis
    using n' by (intro exI [of _ n'] exI [of _ "s\<lparr>cl_nodes := (cl_nodes s)(p := r)\<rparr>"]) simp
qed

text \<open>A won election, from the top of the loop of \<open>run\<close> on: the timeout of a follower, the election, the callback.\<close>

definition wins :: "pevent list" where
  "wins = [Run, Run, Run, Run, Run, Elected, Promoted]"

definition won :: "RaftState \<Rightarrow> RaftState" where
  "won r = r\<lparr>rf_currentTerm := rf_currentTerm r + 1, rf_votedFor := rf_nodeAddr r, rf_role := RoleLeader, rf_leaderAddr := rf_nodeAddr r\<rparr>"

definition winner :: "Proc \<Rightarrow> Proc" where
  "winner p = p\<lparr>pr_node := (pr_node p)\<lparr>nd_raft := won (pr_raft p), nd_leader := Some newLeader\<rparr>\<rparr>"

lemma winner_simps [simp]:
  "pr_pc (winner p) = pr_pc p" "pr_elected (winner p) = pr_elected p" "pr_handlers (winner p) = pr_handlers p"
  "pr_raft (winner p) = won (pr_raft p)" "nd_leader (pr_node (winner p)) = Some newLeader"
  "rf_role (won r) = RoleLeader" "rf_currentTerm (won r) = rf_currentTerm r + 1" "rf_peers (won r) = rf_peers r"
  by (simp_all add: winner_def won_def)

lemma winning:
  assumes "pr_pc p = PRun" and "\<not> pr_elected p" and "rf_role (pr_raft p) = RoleFollower" and "rf_peers (pr_raft p) \<noteq> []"
    and st: "\<And>q ev q'. pstep q ev q' \<Longrightarrow> pr_handlers q = pr_handlers p \<Longrightarrow> \<not> pr_elected q \<or> ev = Promoted \<Longrightarrow>
      ev \<in> set wins \<Longrightarrow> st q ev q'"
  shows "trace st p wins (winner p)"
proof -
  have q: "quorum (rf_peers (pr_raft p)) \<le> length (rf_peers (pr_raft p))"
    using assms(4) by (cases "rf_peers (pr_raft p)") (simp_all add: quorum_def)
  note w = wins_def [THEN arg_cong, of set]
  show ?thesis
    unfolding wins_def
    by (rule trace.next_step, rule st, rule pstep.run_loop [OF assms(1,2)], simp, simp add: assms, simp add: w,
        rule trace.next_step, rule st, rule pstep.follower_timeout, simp add: assms, simp, simp add: assms, simp add: w,
        rule trace.next_step, rule st, rule pstep.run_loop, simp, simp add: assms, simp, simp add: assms, simp add: w,
        rule trace.next_step, rule st, rule pstep.candidate_begin, simp add: runFollower_timeout_def,
        simp add: runCandidate_begin_def Let_def, simp, simp add: assms, simp add: w,
        rule trace.next_step, rule st, rule pstep.candidate_wait, simp, simp, simp add: assms, simp add: w,
        rule trace.next_step, rule st, rule pstep.candidate_end [where cb = OnLeader, simplified], simp,
        simp add: runFollower_timeout_def, rule q, simp add: runCandidate_end_def runFollower_timeout_def q,
        simp, simp add: assms, simp add: w,
        rule trace.next_step, rule st, rule pstep.promoted, simp, simp, simp, simp add: w,
        simp add: winner_def won_def becomeLeader_def runFollower_timeout_def assms)
qed

text \<open>How raft moves in a process: terms do not decrease, and a vote stays while the term does.\<close>

definition raft_forward :: "RaftState \<Rightarrow> RaftState \<Rightarrow> bool" where
  "raft_forward r r' \<longleftrightarrow> rf_currentTerm r \<le> rf_currentTerm r' \<and>
     (rf_currentTerm r' = rf_currentTerm r \<and> rf_votedFor r \<noteq> [] \<longrightarrow> rf_votedFor r' = rf_votedFor r)"

text \<open>Terms are 64-bit numbers; a run in which one of them is about to wrap is left out.\<close>

definition tstep :: "Proc \<Rightarrow> pevent \<Rightarrow> Proc \<Rightarrow> bool" where
  "tstep p ev p' \<longleftrightarrow> pstep p ev p' \<and> rf_currentTerm (pr_raft p) < - 1"

lemma raft_forward_refl [simp]: "raft_forward r r"
  by (simp add: raft_forward_def)

lemma raft_forward_trans: "raft_forward r r' \<Longrightarrow> raft_forward r' r'' \<Longrightarrow> raft_forward r r''"
  unfolding raft_forward_def by (metis order.antisym order.trans)

lemma handler_end_raft: "nd_raft (handler_end cb n) = signal_heartbeat (nd_raft n)"
  by (cases cb) (simp_all add: handler_end_def becomeLeader_def becomeFollower_def Let_def)

lemma tstep_forward:
  assumes "tstep p ev p'"
  shows "raft_forward (pr_raft p) (pr_raft p')"
proof -
  have st: "pstep p ev p'" and t: "rf_currentTerm (pr_raft p) < - 1" using assms by (simp_all add: tstep_def)
  from st show ?thesis
  proof cases
    case (served ne c msg res n)
    with dispatchClient_leader_kept [OF served(3)] show ?thesis by (simp add: leader_kept_def)
  next
    case (joined ne c j res n)
    with join_leader_kept [OF joined(3)] show ?thesis by (simp add: leader_kept_def)
  next
    case (handler_ends xs cb ys)
    then show ?thesis by (simp add: handler_end_raft raft_forward_def signal_heartbeat_def)
  next
    case (promoted)
    then show ?thesis by (simp add: becomeLeader_def)
  next
    case (candidate_begin t others r)
    then have "rf_currentTerm (pr_raft p) < t" "rf_currentTerm r = t" using runCandidate_begin_facts [OF _ t] by blast+
    with candidate_begin show ?thesis by (auto simp: raft_forward_def)
  qed (auto simp: raft_forward_def raft_ops HandleHeartbeat_section_def HandleVoteRequest_section_def Let_def split: if_splits)
qed

lemma tstep_trace_forward: "trace tstep p es p' \<Longrightarrow> raft_forward (pr_raft p) (pr_raft p')"
  by (induction rule: trace.induct) (auto intro: raft_forward_trans dest: tstep_forward)

section \<open>Properties\<close>





text \<open>C20 (invariant): the field \<open>leader\<close> of a node is set exactly while the node leads, as its comment says, in every
  run in which callbacks run before anything else happens and no vote answer with a higher term reaches a
  leader; a follower that joins then never makes the process panic.\<close>

theorem leader_field_tracks_role:
  assumes "trace prompt_step (boot (NewNode db ttl addr peers)) es p" and "\<not> pr_elected p" and "pr_handlers p = []"
  shows "(nd_leader (pr_node p) \<noteq> None \<longleftrightarrow> IsLeader (pr_node p)) \<and>
    handleReplicationPeer ne c (MReplicationJoin j) (pr_node p) \<noteq> Panics"
proof -
  have "role_inv p"
    by (rule role_inv_trace [OF assms(1) role_inv_boot]) (simp_all add: NewNode_def NewRaftState_def)
  then have "nd_leader (pr_node p) \<noteq> None \<longleftrightarrow> IsLeader (pr_node p)"
    using role_inv_idle [OF assms(2,3)] by (simp add: IsLeader_def GetRole_def)
  then show ?thesis by (auto simp: handleReplicationPeer_def Node_Leader_def)
qed

theorem leader_field_tracks_role_witness:
  "let n = NewNode (example_store 0 NoEvict SyncNone) 100 [1] [[1], [2]]; p = winner (boot n)
   in trace prompt_step (boot n) wins p \<and> nd_leader (pr_node p) \<noteq> None \<and> IsLeader (pr_node p)"
proof -
  let ?n = "NewNode (example_store 0 NoEvict SyncNone) 100 [1] [[1], [2]]"
  have "trace prompt_step (boot ?n) wins (winner (boot ?n))"
    by (rule winning) (auto simp: prompt_step_def wins_def boot_def NewNode_def NewRaftState_def)
  with leader_field_tracks_role [OF this] show ?thesis by (simp add: boot_def)
qed

text \<open>C25 (safety): a leader that steps down because a vote answer has a higher term keeps its \<open>Leader\<close>. From then on,
  until it wins another election, whatever messages and calls the process sees, the node is no leader and
  still sends each of its writes to every follower that is connected to it.\<close>

theorem stale_leader_persists:
  assumes "nd_leader (pr_node p) = Some l" and "\<not> pr_elected p" and "pr_handlers p = []"
    and "vs_Term resp > rf_currentTerm (pr_raft p)" and "pstep p (GotAnswer resp) p1"
    and "trace pstep p1 es p'" and "Elected \<notin> set es"
  shows "\<not> IsLeader (pr_node p') \<and> (\<exists>l'. nd_leader (pr_node p') = Some l' \<and>
    (subscribed addr k l' (nd_net (pr_node p')) \<and> ne_conns ne k = WriteOk \<longrightarrow>
      (\<exists>f n'. EncodeFrame (MReplicationSync \<lparr>rs_LogIndex = ld_logIndex l' + 1, rs_Op = WAL_OpSet, rs_Key = key, rs_Value = val,
          rs_ExpiresAt = unix_nano e\<rparr>) = Ok f \<and>
        Node_Set_broadcast ne key val e (pr_node p') = Returns (Inr ()) n' \<and>
        net_sent (nd_net n') k = net_sent (nd_net (pr_node p')) k @ f)))"
proof -
  have "stale p1"
    using assms(5) by cases (use assms(1-4) in \<open>auto simp: stale_def requestVoteRPC_reply_def Let_def split: if_splits\<close>)
  from stale_trace [OF assms(6) this assms(7)] obtain l' where
    l': "nd_leader (pr_node p') = Some l'" and r: "rf_role (pr_raft p') \<noteq> RoleLeader"
    by (auto simp: stale_def)
  moreover have "\<exists>f n'. EncodeFrame (MReplicationSync \<lparr>rs_LogIndex = ld_logIndex l' + 1, rs_Op = WAL_OpSet, rs_Key = key,
        rs_Value = val, rs_ExpiresAt = unix_nano e\<rparr>) = Ok f \<and>
      Node_Set_broadcast ne key val e (pr_node p') = Returns (Inr ()) n' \<and>
      net_sent (nd_net n') k = net_sent (nd_net (pr_node p')) k @ f"
    if "subscribed addr k l' (nd_net (pr_node p'))" "ne_conns ne k = WriteOk"
    by (rule broadcast_reaches [OF l' that, of key val e]) blast
  ultimately show ?thesis by (auto simp: IsLeader_def GetRole_def)
qed

theorem stale_leader_persists_witness:
  "let n = (example_leader (example_store 0 NoEvict SyncNone))\<lparr>nd_raft := won (NewRaftState [1] [[1], [2]])\<rparr>; p = (boot n)\<lparr>pr_pc := PLeader\<rparr>
   in \<exists>p1 p' f n'. IsLeader n \<and> pstep p (GotAnswer \<lparr>vs_Term = 9, vs_Granted = False\<rparr>) p1 \<and> trace pstep p1 [GotHeartbeat 9 [2], HandlerEnd] p' \<and>
     \<not> IsLeader (pr_node p') \<and> nd_leader (pr_node p') \<noteq> None \<and>
     Node_Set_broadcast example_node_env [1] [7] 50 (pr_node p') = Returns (Inr ()) n' \<and>
     net_sent (nd_net n') 5 = net_sent (nd_net (pr_node p')) 5 @ f"
proof -
  let ?m = "example_leader (example_store 0 NoEvict SyncNone)"
  let ?n = "?m\<lparr>nd_raft := won (NewRaftState [1] [[1], [2]])\<rparr>"
  let ?p = "(boot ?n)\<lparr>pr_pc := PLeader\<rparr>" and ?resp = "\<lparr>vs_Term = 9, vs_Granted = False\<rparr>"
  let ?p1 = "upd_raft (snd (requestVoteRPC_reply ?resp (nd_raft ?n))) ?p"
  let ?r2 = "snd (HandleHeartbeat_section 9 [2] (pr_raft ?p1))"
  let ?p3 = "?p1\<lparr>pr_node := handler_end NoCallback ((pr_node ?p1)\<lparr>nd_raft := ?r2\<rparr>)\<rparr>"
  have 1: "pstep ?p (GotAnswer ?resp) ?p1"
    by (rule pstep.got_answer [where g = False]) (simp add: boot_def requestVoteRPC_reply_def)
  have 2: "trace pstep ?p1 [GotHeartbeat 9 [2], HandlerEnd] ?p3"
    by (rule trace.next_step, rule pstep.got_heartbeat [where cb = "Some NoCallback" and r = ?r2],
        simp add: boot_def example_leader_def NewNode_def NewRaftState_def requestVoteRPC_reply_def HandleHeartbeat_section_def Let_def,
        rule trace.next_step, rule pstep.handler_ends [where xs = "[]" and ys = "[]"]) (simp_all add: boot_def)
  obtain l where l: "nd_leader ?m = Some l" "subscribed [9] 5 l (nd_net ?m)"
    using example_leading [of "example_store 0 NoEvict SyncNone"] example_ready(1) by (auto simp: leading_def replica_ready_def split: option.splits)
  have n: "nd_leader (pr_node ?p3) = Some l" "nd_net (pr_node ?p3) = nd_net ?m"
    using l by (simp_all add: boot_def handler_end_def Let_def)
  have "\<not> IsLeader (pr_node ?p3) \<and> (\<exists>l'. nd_leader (pr_node ?p3) = Some l' \<and>
    (subscribed [9] 5 l' (nd_net (pr_node ?p3)) \<and> ne_conns example_node_env 5 = WriteOk \<longrightarrow>
      (\<exists>f n'. EncodeFrame (MReplicationSync \<lparr>rs_LogIndex = ld_logIndex l' + 1, rs_Op = WAL_OpSet, rs_Key = [1], rs_Value = [7],
          rs_ExpiresAt = unix_nano 50\<rparr>) = Ok f \<and>
        Node_Set_broadcast example_node_env [1] [7] 50 (pr_node ?p3) = Returns (Inr ()) n' \<and>
        net_sent (nd_net n') 5 = net_sent (nd_net (pr_node ?p3)) 5 @ f)))"
    by (rule stale_leader_persists [OF _ _ _ _ 1 2]) (use l in \<open>simp_all add: boot_def NewRaftState_def\<close>)
  then obtain f n' where "\<not> IsLeader (pr_node ?p3)"
      "Node_Set_broadcast example_node_env [1] [7] 50 (pr_node ?p3) = Returns (Inr ()) n'"
      "net_sent (nd_net n') 5 = net_sent (nd_net (pr_node ?p3)) 5 @ f"
    using l n by (auto simp: example_node_env_def)
  moreover have "IsLeader ?n" by (simp add: IsLeader_def GetRole_def)
  moreover have "nd_leader (pr_node ?p3) \<noteq> None" using n by simp
  ultimately show ?thesis using 1 2 unfolding Let_def by blast
qed

text \<open>C26 (safety): the callback of a handler can come late. A node that leads hears of a higher term, steps down, and wins
  another election before the handler, which has released the lock, gets to call \<open>onFollower\<close>. It ends
  as the leader without a \<open>Leader\<close>: it replicates nothing, and the first follower that joins makes the process
  panic.\<close>

theorem overtaken_callback:
  "\<exists>es p. trace pstep (boot (NewNode db ttl addr (peer # peers))) es p \<and> pr_handlers p = [] \<and> \<not> pr_elected p \<and>
     IsLeader (pr_node p) \<and> nd_leader (pr_node p) = None \<and>
     handleReplicationPeer ne c (MReplicationJoin j) (pr_node p) = Panics \<and>
     Node_Set_broadcast ne key val e (pr_node p) = Returns (Inr ()) (pr_node p)"
proof -
  let ?p0 = "boot (NewNode db ttl addr (peer # peers))"
  let ?r1 = "(won (pr_raft ?p0))\<lparr>rf_currentTerm := 2, rf_votedFor := [], rf_leaderAddr := [], rf_role := RoleFollower\<rparr>"
  let ?p2 = "(upd_raft ?r1 (winner ?p0))\<lparr>pr_handlers := [OnFollower]\<rparr>"
  let ?p3 = "(winner ?p2)\<lparr>pr_node := handler_end OnFollower (pr_node (winner ?p2)), pr_handlers := []\<rparr>"
  have 1: "trace pstep ?p0 wins (winner ?p0)"
    by (rule winning) (simp_all add: boot_def NewNode_def NewRaftState_def)
  have 2: "trace pstep (winner ?p0) [Run, GotHeartbeat 2 [], Run] ?p2"
    by (rule trace.next_step, rule pstep.run_loop, simp add: boot_def, simp add: boot_def,
        rule trace.next_step, rule pstep.got_heartbeat, simp add: boot_def NewNode_def NewRaftState_def HandleHeartbeat_section_def,
        rule trace.next_step, rule pstep.leader_top, simp add: boot_def NewNode_def NewRaftState_def,
        simp add: boot_def NewNode_def NewRaftState_def runLeader_top_def)
  have 3: "trace pstep ?p2 wins (winner ?p2)"
    by (rule winning) (simp_all add: boot_def NewNode_def NewRaftState_def)
  have 4: "trace pstep (winner ?p2) [HandlerEnd] ?p3"
    by (rule trace.next_step, rule pstep.handler_ends [where xs = "[]" and ys = "[]"]) (simp_all add: boot_def)
  have "trace pstep ?p0 (wins @ [Run, GotHeartbeat 2 [], Run] @ wins @ [HandlerEnd]) ?p3"
    unfolding trace_append using 1 2 3 4 by blast
  then show ?thesis
    by (intro exI conjI, assumption)
      (simp_all add: boot_def NewNode_def IsLeader_def GetRole_def handleReplicationPeer_def Node_Leader_def Node_Set_broadcast_def
        handler_end_def becomeFollower_def signal_heartbeat_def)
qed

end
