(* ===== verification/Node_Interleaving.thy ===== *)
theory Node_Interleaving
  imports Node
begin

text \<open>
  Calls of one node that run at the same time. \<open>Set\<close> and \<open>Delete\<close> of \<open>cluster/node.go\<close> change the store, release
  it, and then take the lock of the leader for the broadcast; any number of calls may be between the two.
  Each of the two is one step here, the first because the store is linearizable. Beside them runs the goroutine that sweeps
  expired keys, one shard at a time, on the leader and on the follower, and the goroutines that write the log.

  Shown: as long as no two of the writes that are between their steps have the same key, every follower that stays
  connected gets the keys of the leader, whatever the order of the steps.
\<close>

section \<open>Steps\<close>

text \<open>A change of the store that has not been broadcast yet.\<close>

datatype change = ChSet bytes bytes gotime | ChDelete bytes

fun change_key :: "change \<Rightarrow> bytes" where
  "change_key (ChSet key val e) = key"
| "change_key (ChDelete key) = key"

fun Node_broadcast :: "NodeEnv \<Rightarrow> change \<Rightarrow> Node \<Rightarrow> (StoreError, Node, unit) outcome" where
  "Node_broadcast ne (ChSet key val e) n = Node_Set_broadcast ne key val e n"
| "Node_broadcast ne (ChDelete key) n = Node_Delete_broadcast ne key n"

text \<open>The node and the calls between their two steps; \<open>nes\<close> are the surroundings that calls meet and \<open>T\<close> bounds the clock
  that the sweeper reads. The flusher and a compaction change only the log of the store, here in any way.\<close>

type_synonym calls = "Node \<times> change list"

inductive nstep :: "NodeEnv set \<Rightarrow> gotime \<Rightarrow> calls \<Rightarrow> calls \<Rightarrow> bool" for nes T where
  set_stores: "ne \<in> nes \<Longrightarrow> e = Node_Set_expiry ne ttl n \<Longrightarrow> SetWithExpiry (ne_env ne) key val e (nd_db n) = Returns (Inr ()) db \<Longrightarrow>
    nstep nes T (n, ps) (n\<lparr>nd_db := db\<rparr>, ps @ [ChSet key val e])"
| set_fails: "ne \<in> nes \<Longrightarrow> SetWithExpiry (ne_env ne) key val (Node_Set_expiry ne ttl n) (nd_db n) = Returns (Inl err) db \<Longrightarrow>
    nstep nes T (n, ps) (n\<lparr>nd_db := db\<rparr>, ps)"
| delete_stores: "ne \<in> nes \<Longrightarrow> Delete (ne_env ne) key (nd_db n) = Returns (Inr ()) db \<Longrightarrow>
    nstep nes T (n, ps) (n\<lparr>nd_db := db\<rparr>, ps @ [ChDelete key])"
| delete_fails: "ne \<in> nes \<Longrightarrow> Delete (ne_env ne) key (nd_db n) = Returns (Inl err) db \<Longrightarrow>
    nstep nes T (n, ps) (n\<lparr>nd_db := db\<rparr>, ps)"
| get_reads: "ne \<in> nes \<Longrightarrow> Node_Get (ne_now ne) key n = Returns r n' \<Longrightarrow> nstep nes T (n, ps) (n', ps)"
| broadcasts: "ne \<in> nes \<Longrightarrow> Node_broadcast ne ch n = Returns (Inr ()) n' \<Longrightarrow>
    nstep nes T (n, ps @ ch # ps') (n', ps @ ps')"
| sweeps: "i < length (kv_shards (nd_db n)) \<Longrightarrow> now \<le> T \<Longrightarrow> db = set_shard i (sweep_shard ord now (kv_shards (nd_db n) ! i)) (nd_db n) \<Longrightarrow>
    nstep nes T (n, ps) (n\<lparr>nd_db := db\<rparr>, ps)"
| log_written: "nstep nes T (n, ps) (n\<lparr>nd_db := (nd_db n)\<lparr>kv_wal := w\<rparr>\<rparr>, ps)"

text \<open>The follower: what the connection still delivers, the store, and what was sent. It takes rounds of the loop of
  \<open>syncWithLeader\<close>, answers reads and sweeps; \<open>es\<close> are the surroundings its store meets.\<close>

type_synonym follower = "Reader \<times> KVStore \<times> bytes"

inductive fstep :: "Env set \<Rightarrow> gotime \<Rightarrow> follower \<Rightarrow> follower \<Rightarrow> bool" for es T where
  round: "env \<in> es \<Longrightarrow> sync_round env out r db sent = Next r' db' sent' \<Longrightarrow> fstep es T (r, db, sent) (r', db', sent')"
| read: "Get now key db = Returns res db' \<Longrightarrow> fstep es T (r, db, sent) (r, db', sent)"
| sweep: "i < length (kv_shards db) \<Longrightarrow> now \<le> T \<Longrightarrow> db' = set_shard i (sweep_shard ord now (kv_shards db ! i)) db \<Longrightarrow>
    fstep es T (r, db, sent) (r, db', sent)"

section \<open>Lemmas\<close>

text \<open>A call that runs alone takes its two steps one after the other.\<close>

lemma Node_write_steps:
  assumes "Node_write ne w n = Returns r n'" and "ne \<in> nes"
  shows "(nstep nes T)\<^sup>*\<^sup>* (n, ps) (n', ps)"
proof -
  have two: "(nstep nes T)\<^sup>*\<^sup>* (n, ps) (n', ps)"
    if "nstep nes T (n, ps) (n1, ps @ [ch])" "Node_broadcast ne ch n1 = Returns (Inr ()) n'" for n1 ch
    using that(1) broadcasts [of ne nes ch n1 n' T ps "[]"] that(2) assms(2) by (auto intro: converse_rtranclp_into_rtranclp)
  have bc: "Node_Set_broadcast ne k v e m = Returns r n' \<Longrightarrow> r = Inr ()" "Node_Delete_broadcast ne k m = Returns r n' \<Longrightarrow> r = Inr ()" for k v e m
    by (auto simp: Node_Set_broadcast_def Node_Delete_broadcast_def split: option.splits)
  show ?thesis
  proof (cases w)
    case (WSet key val ttl)
    with assms(1) obtain r' db where s: "SetWithExpiry (ne_env ne) key val (Node_Set_expiry ne ttl n) (nd_db n) = Returns r' db"
      "(case r' of Inl e \<Rightarrow> Returns (Inl e) (n\<lparr>nd_db := db\<rparr>)
        | Inr _ \<Rightarrow> Node_Set_broadcast ne key val (Node_Set_expiry ne ttl n) (n\<lparr>nd_db := db\<rparr>)) = Returns r n'"
      by (cases "SetWithExpiry (ne_env ne) key val (Node_Set_expiry ne ttl n) (nd_db n)") (auto simp: Node_Set_def Let_def)
    show ?thesis
    proof (cases r')
      case (Inl e)
      with s set_fails [OF assms(2)] show ?thesis by auto
    next
      case (Inr u)
      with s(2) have b: "Node_Set_broadcast ne key val (Node_Set_expiry ne ttl n) (n\<lparr>nd_db := db\<rparr>) = Returns r n'" by simp
      show ?thesis
        by (rule two [OF set_stores [OF assms(2) refl]]) (use s(1) Inr b bc(1) [OF b] in simp_all)
    qed
  next
    case (WDelete key)
    with assms(1) obtain r' db where s: "Delete (ne_env ne) key (nd_db n) = Returns r' db"
      "(case r' of Inl e \<Rightarrow> Returns (Inl e) (n\<lparr>nd_db := db\<rparr>) | Inr _ \<Rightarrow> Node_Delete_broadcast ne key (n\<lparr>nd_db := db\<rparr>)) = Returns r n'"
      by (cases "Delete (ne_env ne) key (nd_db n)") (auto simp: Node_Delete_def)
    show ?thesis
    proof (cases r')
      case (Inl e)
      with s delete_fails [OF assms(2)] show ?thesis by auto
    next
      case (Inr u)
      with s(2) have b: "Node_Delete_broadcast ne key (n\<lparr>nd_db := db\<rparr>) = Returns r n'" by simp
      show ?thesis
        by (rule two [OF delete_stores [OF assms(2)]]) (use s(1) Inr b bc(2) [OF b] in simp_all)
    qed
  qed
qed

text \<open>What a change does to the keys, and that a message can carry it.\<close>

fun change_apply :: "change \<Rightarrow> view \<Rightarrow> view" where
  "change_apply (ChSet key val e) v = v(key \<mapsto> (val, e))"
| "change_apply (ChDelete key) v = v(key := None)"

fun change_fits :: "change \<Rightarrow> bool" where
  "change_fits (ChSet key val e) \<longleftrightarrow> length key < 65536 \<and> length key + length val + 24 < 4294967296 \<and> nano_range e"
| "change_fits (ChDelete key) \<longleftrightarrow> length key < 65536"

lemma change_apply_other: "k \<noteq> change_key ch \<Longrightarrow> change_apply ch v k = v k"
  by (cases ch) simp_all

lemma change_apply_same: "change_apply ch v (change_key ch) = change_apply ch v' (change_key ch)"
  by (cases ch) simp_all

lemma Node_broadcast_frame:
  assumes "leading addr c n" and "ne_conns ne c = WriteOk" and "change_fits ch" and "Node_broadcast ne ch n = Returns r n'"
  obtains m f where "leading addr c n'" "nd_db n' = nd_db n" "net_sent (nd_net n') c = net_sent (nd_net n) c @ f"
    "EncodeFrame (MReplicationSync m) = Ok f" "Frame_valid (MReplicationSync m)" "log_apply (sync_record m) = change_apply ch"
proof -
  obtain l where l: "nd_leader n = Some l" using assms(1) by (rule leadingE)
  show ?thesis
  proof (cases ch)
    case (ChSet key val e)
    let ?m = "\<lparr>rs_LogIndex = ld_logIndex l + 1, rs_Op = WAL_OpSet, rs_Key = key, rs_Value = val, rs_ExpiresAt = unix_nano e\<rparr>"
    obtain l' net' f where "broadcast (ne_addrs ne) (ne_conns ne) (MReplicationSync ?m) (l\<lparr>ld_logIndex := ld_logIndex l + 1\<rparr>) (nd_net n) = Some (l', net')"
      "leading addr c (n\<lparr>nd_leader := Some l', nd_net := net'\<rparr>)" "net_sent net' c = net_sent (nd_net n) c @ f"
      "EncodeFrame (MReplicationSync ?m) = Ok f" "Frame_valid (MReplicationSync ?m)"
      by (rule broadcast_frame [OF assms(1) l assms(2), of ?m]) (use assms(3) ChSet in auto)
    with assms(3,4) ChSet l show ?thesis
      by (intro that [of f ?m])
        (auto simp: Node_Set_broadcast_def BroadcastSet_def Let_def log_apply_def sync_record_def from_nano_unix_nano fun_eq_iff)
  next
    case (ChDelete key)
    let ?m = "\<lparr>rs_LogIndex = ld_logIndex l + 1, rs_Op = WAL_OpDelete, rs_Key = key, rs_Value = [], rs_ExpiresAt = 0\<rparr>"
    obtain l' net' f where "broadcast (ne_addrs ne) (ne_conns ne) (MReplicationSync ?m) (l\<lparr>ld_logIndex := ld_logIndex l + 1\<rparr>) (nd_net n) = Some (l', net')"
      "leading addr c (n\<lparr>nd_leader := Some l', nd_net := net'\<rparr>)" "net_sent net' c = net_sent (nd_net n) c @ f"
      "EncodeFrame (MReplicationSync ?m) = Ok f" "Frame_valid (MReplicationSync ?m)"
      by (rule broadcast_frame [OF assms(1) l assms(2), of ?m]) (use assms(3) ChDelete in auto)
    with assms(3,4) ChDelete l show ?thesis
      by (intro that [of f ?m])
        (auto simp: Node_Delete_broadcast_def BroadcastDelete_def Let_def log_apply_def sync_record_def fun_eq_iff WAL_OpSet_def WAL_OpDelete_def)
  qed
qed

text \<open>The writes between their steps have different keys and fit a message.\<close>

definition orderly :: "calls \<Rightarrow> bool" where
  "orderly s \<longleftrightarrow> distinct (map change_key (snd s)) \<and> list_all change_fits (snd s)"

text \<open>The stream of the follower: the frames of \<open>ms\<close>, which bring a follower to the keys of the leader, as reads from \<open>T\<close> on
  see them, but for those with a change that is still to be broadcast.\<close>

definition follows :: "gotime \<Rightarrow> bytes \<Rightarrow> conn \<Rightarrow> Node \<Rightarrow> ReplicationSync list \<Rightarrow> calls \<Rightarrow> bool" where
  "follows T addr c n0 ms s \<longleftrightarrow> leading addr c (fst s) \<and> orderly s \<and> list_all (\<lambda>m. Frame_valid (MReplicationSync m)) ms \<and>
     (\<exists>fs. map (\<lambda>m. EncodeFrame (MReplicationSync m)) ms = map Ok fs \<and>
           net_sent (nd_net (fst s)) c = net_sent (nd_net n0) c @ concat fs) \<and>
     (\<forall>k. k \<notin> change_key ` set (snd s) \<longrightarrow>
        readable T (store_view (nd_db (fst s))) k = readable T (fold log_apply (map sync_record ms) (store_view (nd_db n0))) k) \<and>
     (\<forall>ch \<in> set (snd s). readable T (store_view (nd_db (fst s))) (change_key ch) = readable T (change_apply ch Map.empty) (change_key ch))"

lemma readable_other: "k \<noteq> change_key ch \<Longrightarrow> readable T (change_apply ch v) k = readable T v k"
  by (simp add: readable_def change_apply_other)

lemma readable_same: "readable T (change_apply ch v) (change_key ch) = readable T (change_apply ch v') (change_key ch)"
  by (cases ch) simp_all

lemma follows_stored:
  assumes "follows T addr c n0 ms (n, ps)" and "kv_inv db" and "unlimited db" and "store_view db = change_apply ch (store_view (nd_db n))"
    and "orderly (n\<lparr>nd_db := db\<rparr>, ps @ [ch])"
  shows "follows T addr c n0 ms (n\<lparr>nd_db := db\<rparr>, ps @ [ch])"
proof -
  have k: "change_key ch \<notin> change_key ` set ps" using assms(5) by (auto simp: orderly_def)
  have "readable T (store_view db) (change_key ch') = readable T (change_apply ch' Map.empty) (change_key ch')" if "ch' \<in> set ps" for ch'
  proof -
    have "change_key ch' \<noteq> change_key ch" using k image_eqI [OF refl that, of change_key] by metis
    with that assms(1,4) show ?thesis by (simp add: follows_def readable_other)
  qed
  moreover have "readable T (store_view db) (change_key ch) = readable T (change_apply ch Map.empty) (change_key ch)"
    unfolding assms(4) by (rule readable_same)
  moreover have "leading addr c (n\<lparr>nd_db := db\<rparr>)" using assms(1-3) by (simp add: follows_def leading_db)
  ultimately show ?thesis
    using assms(1,4,5) readable_other by (auto simp: follows_def)
qed

lemma follows_unchanged:
  assumes "follows T addr c n0 ms (n, ps)" and "kv_inv db" and "unlimited db"
    and "readable T (store_view db) = readable T (store_view (nd_db n))"
  shows "follows T addr c n0 ms (n\<lparr>nd_db := db\<rparr>, ps)"
  using assms by (simp add: follows_def leading_db orderly_def)

lemma follows_broadcast:
  assumes "follows T addr c n0 ms (n, ps @ ch # ps')" and "ne_conns ne c = WriteOk" and "Node_broadcast ne ch n = Returns r n'"
  shows "\<exists>m. follows T addr c n0 (ms @ [m]) (n', ps @ ps')"
proof -
  have i: "leading addr c n" "change_fits ch" "distinct (map change_key (ps @ ch # ps'))"
    using assms(1) by (simp_all add: follows_def orderly_def)
  obtain m f where m: "leading addr c n'" "nd_db n' = nd_db n" "net_sent (nd_net n') c = net_sent (nd_net n) c @ f"
    "EncodeFrame (MReplicationSync m) = Ok f" "Frame_valid (MReplicationSync m)" "log_apply (sync_record m) = change_apply ch"
    using i(1) assms(2) i(2) assms(3) by (rule Node_broadcast_frame)
  obtain fs where fs: "map (\<lambda>m. EncodeFrame (MReplicationSync m)) ms = map Ok fs" "net_sent (nd_net n) c = net_sent (nd_net n0) c @ concat fs"
    using assms(1) by (auto simp: follows_def)
  have "\<exists>gs. map (\<lambda>m. EncodeFrame (MReplicationSync m)) (ms @ [m]) = map Ok gs \<and> net_sent (nd_net n') c = net_sent (nd_net n0) c @ concat gs"
    using fs m(3,4) by (intro exI [of _ "fs @ [f]"]) simp
  moreover have "readable T (store_view (nd_db n')) k = readable T (fold log_apply (map sync_record (ms @ [m])) (store_view (nd_db n0))) k"
    if "k \<notin> change_key ` set (ps @ ps')" for k
  proof (cases "k = change_key ch")
    case True
    then have "readable T (store_view (nd_db n)) k = readable T (change_apply ch Map.empty) k" using assms(1) by (simp add: follows_def)
    with True show ?thesis using readable_same [of T ch] by (simp add: m(2,6))
  next
    case False
    with that assms(1) show ?thesis by (simp add: follows_def m(2,6) readable_other)
  qed
  ultimately have "follows T addr c n0 (ms @ [m]) (n', ps @ ps')"
    using assms(1) i(3) m(1,2,5) by (auto simp: follows_def orderly_def)
  then show ?thesis ..
qed

lemma follows_step:
  assumes "nstep nes T s s'" and "follows T addr c n0 ms s" and "orderly s'" and "\<forall>ne \<in> nes. ne_conns ne c = WriteOk"
  shows "\<exists>ms'. length ms' \<le> Suc (length ms) \<and> follows T addr c n0 ms' s'"
  using assms
proof (induction rule: nstep.induct)
  case (set_stores ne e ttl n key val db ps)
  then have db: "kv_inv (nd_db n)" "unlimited (nd_db n)" by (simp_all add: follows_def leading_def node_inv_def)
  from SetWithExpiry_view [OF db set_stores(3)] SetWithExpiry_inv [OF db(1) set_stores(3)] set_stores(4,5) follows_stored
  show ?case by (intro exI [of _ ms]) simp
next
  case (set_fails ne key val ttl n err db ps)
  then have db: "kv_inv (nd_db n)" "unlimited (nd_db n)" by (simp_all add: follows_def leading_def node_inv_def)
  from SetWithExpiry_view [OF db set_fails(2)] SetWithExpiry_inv [OF db(1) set_fails(2)] set_fails(3) follows_unchanged
  show ?case by (intro exI [of _ ms]) simp
next
  case (delete_stores ne key n db ps)
  then have db: "kv_inv (nd_db n)" "unlimited (nd_db n)" by (simp_all add: follows_def leading_def node_inv_def)
  from Delete_view [OF db delete_stores(2)] Delete_inv [OF db(1) delete_stores(2)] delete_stores(3,4) follows_stored
  show ?case by (intro exI [of _ ms]) simp
next
  case (delete_fails ne key n err db ps)
  then have db: "kv_inv (nd_db n)" "unlimited (nd_db n)" by (simp_all add: follows_def leading_def node_inv_def)
  from Delete_view [OF db delete_fails(2)] Delete_inv [OF db(1) delete_fails(2)] delete_fails(3) follows_unchanged
  show ?case by (intro exI [of _ ms]) simp
next
  case (get_reads ne key n r n' ps)
  then have db: "kv_inv (nd_db n)" "unlimited (nd_db n)" by (simp_all add: follows_def leading_def node_inv_def)
  obtain db' where g: "Get (ne_now ne) key (nd_db n) = Returns r db'" "n' = n\<lparr>nd_db := db'\<rparr>"
    using get_reads(2) by (auto simp: Node_Get_def on_db_Returns)
  from Get_store [OF db(1) g(1)] Get_unlimited [OF db g(1)] get_reads(3) g(2) follows_unchanged [of T addr c n0 ms n ps db']
  show ?case by (intro exI [of _ ms]) (simp add: store_view_def [abs_def])
next
  case (broadcasts ne ch n n' ps ps')
  with follows_broadcast [OF broadcasts(3) _ broadcasts(2)] obtain m where "follows T addr c n0 (ms @ [m]) (n', ps @ ps')" by blast
  then show ?case by (intro exI [of _ "ms @ [m]"]) simp
next
  case (sweeps i n now db ord ps)
  then have k: "kv_inv (nd_db n)" "unlimited (nd_db n)" by (simp_all add: follows_def leading_def node_inv_def)
  from sweep_one_spec [OF k(1) sweeps(1,3)] readable_sweep [OF k(1) sweeps(1,2), of ord] k(2) sweeps(3,4) follows_unchanged
  show ?case by (intro exI [of _ ms]) simp
next
  case (log_written n ps w)
  then have k: "kv_inv (nd_db n)" "unlimited (nd_db n)" by (simp_all add: follows_def leading_def node_inv_def)
  then have "kv_inv ((nd_db n)\<lparr>kv_wal := w\<rparr>)" "unlimited ((nd_db n)\<lparr>kv_wal := w\<rparr>)"
    "store_view ((nd_db n)\<lparr>kv_wal := w\<rparr>) = store_view (nd_db n)"
    by (simp_all add: store_view_def [abs_def] unlimited_def)
  with log_written(1) follows_unchanged show ?case by (intro exI [of _ ms]) simp
qed

lemma follows_run:
  assumes "((\<lambda>s s'. nstep nes T s s' \<and> orderly s') ^^ j) (n, []) s" and "leading addr c n" and "\<forall>ne \<in> nes. ne_conns ne c = WriteOk"
  shows "\<exists>ms. length ms \<le> j \<and> follows T addr c n ms s"
  using assms(1)
proof (induction j arbitrary: s)
  case 0
  with assms(2) show ?case by (auto simp: follows_def orderly_def)
next
  case (Suc j)
  then obtain s1 where s1: "((\<lambda>s s'. nstep nes T s s' \<and> orderly s') ^^ j) (n, []) s1" "nstep nes T s1 s" "orderly s" by auto
  from Suc.IH [OF s1(1)] obtain ms where "length ms \<le> j" "follows T addr c n ms s1" by blast
  with follows_step [OF s1(2) this(2) s1(3) assms(3)] show ?case by (meson Suc_le_mono order_trans)
qed

text \<open>The follower on the frames of \<open>ms\<close>: it has applied a number of them and has room for the others.\<close>

definition applied :: "gotime \<Rightarrow> view \<Rightarrow> ReplicationSync list \<Rightarrow> bytes list \<Rightarrow> IOError \<Rightarrow> follower \<Rightarrow> bool" where
  "applied T v ms fs e s \<longleftrightarrow> (\<exists>i \<le> length ms. fst s = \<lparr>rd_data = concat (drop i fs), rd_end = e\<rparr> \<and>
     replica_ready (length ms - i) (fst (snd s)) \<and>
     readable T (store_view (fst (snd s))) = readable T (fold log_apply (map sync_record (take i ms)) v))"

lemma applied_round:
  assumes "list_all (\<lambda>m. Frame_valid (MReplicationSync m)) ms" and "map (\<lambda>m. EncodeFrame (MReplicationSync m)) ms = map Ok fs"
    and "file_works env" and "i < length ms" and "replica_ready (length ms - i) db"
    and "readable T (store_view db) = readable T (fold log_apply (map sync_record (take i ms)) v)"
  obtains db' sent' where "sync_round env out \<lparr>rd_data = concat (drop i fs), rd_end = e\<rparr> db sent =
      Next \<lparr>rd_data = concat (drop (Suc i) fs), rd_end = e\<rparr> db' sent'"
    "applied T v ms fs e (\<lparr>rd_data = concat (drop (Suc i) fs), rd_end = e\<rparr>, db', sent')"
proof -
  have len: "length fs = length ms" using assms(2) by (metis length_map)
  have f: "Frame_valid (MReplicationSync (ms ! i))" "EncodeFrame (MReplicationSync (ms ! i)) = Ok (fs ! i)"
    using assms(1,2,4) len by (simp_all add: list_all_length list_eq_iff_nth_eq)
  have d: "concat (drop i fs) = fs ! i @ concat (drop (Suc i) fs)"
    using assms(4) len by (simp add: Cons_nth_drop_Suc [symmetric])
  have "replica_ready (Suc (length ms - Suc i)) db" using assms(4,5) by (simp add: Suc_diff_Suc)
  then obtain db' where a: "applySync env (ms ! i) db = Returns (Inr ()) db'" "replica_ready (length ms - Suc i) db'"
    "store_view db' = log_apply (sync_record (ms ! i)) (store_view db)"
    using assms(3) by (rule applySync_view)
  obtain sent' where s: "sync_round env out \<lparr>rd_data = fs ! i @ concat (drop (Suc i) fs), rd_end = e\<rparr> db sent =
      Next \<lparr>rd_data = concat (drop (Suc i) fs), rd_end = e\<rparr> db' sent'"
    using sync_round_frame [OF f a(1)] by blast
  have "readable T (store_view db') = readable T (fold log_apply (map sync_record (take (Suc i) ms)) v)"
    using assms(4) readable_log_apply_cong [OF assms(6)] by (simp add: a(3) take_Suc_conv_app_nth)
  with a(2) assms(4) have "applied T v ms fs e (\<lparr>rd_data = concat (drop (Suc i) fs), rd_end = e\<rparr>, db', sent')"
    unfolding applied_def by (intro exI [of _ "Suc i"]) simp
  with s d that show ?thesis by simp
qed

lemma applied_step:
  assumes "fstep es T s s'" and "applied T v ms fs e s" and "\<forall>env \<in> es. file_works env"
    and "list_all (\<lambda>m. Frame_valid (MReplicationSync m)) ms" and "map (\<lambda>m. EncodeFrame (MReplicationSync m)) ms = map Ok fs"
  shows "applied T v ms fs e s'"
  using assms(1,2)
proof (induction rule: fstep.induct)
  case (round env out r db sent r' db' sent')
  then obtain i where i: "i \<le> length ms" "r = \<lparr>rd_data = concat (drop i fs), rd_end = e\<rparr>" "replica_ready (length ms - i) db"
    "readable T (store_view db) = readable T (fold log_apply (map sync_record (take i ms)) v)" by (auto simp: applied_def)
  show ?case
  proof (cases "i < length ms")
    case True
    obtain db1 sent1 where "sync_round env out r db sent = Next \<lparr>rd_data = concat (drop (Suc i) fs), rd_end = e\<rparr> db1 sent1"
      "applied T v ms fs e (\<lparr>rd_data = concat (drop (Suc i) fs), rd_end = e\<rparr>, db1, sent1)"
      using applied_round [OF assms(4,5) _ True i(3,4)] round(1) assms(3) unfolding i(2) by blast
    with round(2) show ?thesis by simp
  next
    case False
    have "length fs = length ms" using assms(5) by (metis length_map)
    with False round(2) i show ?thesis by (simp add: sync_round_end)
  qed
next
  case (read now key db res db' r sent)
  then have k: "kv_inv db" "unlimited db" by (auto simp: applied_def replica_ready_def)
  from Get_store [OF k(1) read(1)] have "store_view db' = store_view db" by (simp add: store_view_def [abs_def])
  with Get_store [OF k(1) read(1)] Get_unlimited [OF k read(1)] read(2) show ?case
    by (auto simp: applied_def replica_ready_def)
next
  case (sweep i db now db' ord r sent)
  then have k: "kv_inv db" "unlimited db" by (auto simp: applied_def replica_ready_def)
  from sweep_one_spec [OF k(1) sweep(1,3)] readable_sweep [OF k(1) sweep(1,2), of ord] k sweep(3,4) show ?case
    by (simp add: applied_def replica_ready_def)
qed

lemma applied_steps:
  assumes "(fstep es T)\<^sup>*\<^sup>* s s'" and "applied T v ms fs e s" and "\<forall>env \<in> es. file_works env"
    and "list_all (\<lambda>m. Frame_valid (MReplicationSync m)) ms" and "map (\<lambda>m. EncodeFrame (MReplicationSync m)) ms = map Ok fs"
  shows "applied T v ms fs e s'"
  using assms(1,2) by (induction rule: rtranclp_induct) (blast intro: applied_step [OF _ _ assms(3-5)])+

lemma applied_all:
  assumes "env \<in> es" and "\<forall>env \<in> es. file_works env" and "applied T v ms fs e (r, db, sent)"
    and "list_all (\<lambda>m. Frame_valid (MReplicationSync m)) ms" and "map (\<lambda>m. EncodeFrame (MReplicationSync m)) ms = map Ok fs"
  shows "\<exists>db' sent'. (fstep es T)\<^sup>*\<^sup>* (r, db, sent) (\<lparr>rd_data = [], rd_end = e\<rparr>, db', sent')"
  using assms(3)
proof (induction "length (rd_data r)" arbitrary: r db sent rule: less_induct)
  case less
  then obtain i where i: "i \<le> length ms" "r = \<lparr>rd_data = concat (drop i fs), rd_end = e\<rparr>" "replica_ready (length ms - i) db"
    "readable T (store_view db) = readable T (fold log_apply (map sync_record (take i ms)) v)" by (auto simp: applied_def)
  show ?case
  proof (cases "i < length ms")
    case True
    let ?r = "\<lparr>rd_data = concat (drop (Suc i) fs), rd_end = e\<rparr>"
    obtain db1 sent1 where n: "sync_round env WriteOk r db sent = Next ?r db1 sent1" "applied T v ms fs e (?r, db1, sent1)"
      using applied_round [OF assms(4,5) _ True i(3,4)] assms(1,2) unfolding i(2) by blast
    from fstep.round [OF assms(1) n(1)] less.hyps [OF sync_round_consumes [OF n(1)] n(2)] show ?thesis
      by (meson converse_rtranclp_into_rtranclp)
  next
    case False
    have "length fs = length ms" using assms(5) by (metis length_map)
    with False i(2) show ?thesis by auto
  qed
qed

lemma five_steps: "R a b \<Longrightarrow> R b c \<Longrightarrow> R c d \<Longrightarrow> R d e \<Longrightarrow> R e f \<Longrightarrow> (R ^^ 5) a f" for R :: "'a \<Rightarrow> 'a \<Rightarrow> bool"
  by (simp add: numeral_eq_Suc relcompp_apply) blast

section \<open>Properties\<close>

text \<open>C6 (refinement): replication under concurrency. Any number of calls run on the leader at the same time, each storing
  its change and broadcasting it later, in any order, as long as two writes of one key do not overlap, while the sweeper of
  the leader removes expired keys and its log is written. A follower that stayed connected, started with the keys, values
  and expiries of the leader and takes no writes of clients works through its stream, reading and sweeping in between; with
  bytes of the stream left it can always take the next round, so it comes to the end of the stream. There, for every clock
  that no sweeper has passed, its reads find the leader's entry for every key but those whose change
  is still to be broadcast, hence for all keys when no call is under way. Both stores are without a memory cap, and the
  follower's log takes its records.\<close>

theorem replication_interleaved:
  assumes "leading addr c n" and "\<forall>ne \<in> nes. ne_conns ne c = WriteOk"
    and "((\<lambda>s s'. nstep nes T s s' \<and> orderly s') ^^ j) (n, []) (n', ps)"
    and "replica_ready j db" and "readable T (store_view db) = readable T (store_view (nd_db n))"
    and "env \<in> es" and "\<forall>env \<in> es. file_works env"
  shows "\<exists>stream. net_sent (nd_net n') c = net_sent (nd_net n) c @ stream \<and>
    (\<exists>db' sent'. (fstep es T)\<^sup>*\<^sup>* (\<lparr>rd_data = stream, rd_end = e\<rparr>, db, sent) (\<lparr>rd_data = [], rd_end = e\<rparr>, db', sent')) \<and>
    (\<forall>r db' sent'. (fstep es T)\<^sup>*\<^sup>* (\<lparr>rd_data = stream, rd_end = e\<rparr>, db, sent) (r, db', sent') \<longrightarrow>
       (rd_data r \<noteq> [] \<longrightarrow> (\<exists>r1 db1 sent1. sync_round env out r db' sent' = Next r1 db1 sent1)) \<and>
       (rd_data r = [] \<longrightarrow> (\<forall>t \<ge> T. \<forall>k. k \<notin> change_key ` set ps \<longrightarrow>
          readable t (store_view db') k = readable t (store_view (nd_db n')) k)))"
proof -
  obtain ms where ms: "length ms \<le> j" "follows T addr c n ms (n', ps)"
    using follows_run [OF assms(3,1,2)] by blast
  then obtain fs where fs: "map (\<lambda>m. EncodeFrame (MReplicationSync m)) ms = map Ok fs"
    "net_sent (nd_net n') c = net_sent (nd_net n) c @ concat fs" "list_all (\<lambda>m. Frame_valid (MReplicationSync m)) ms"
    by (auto simp: follows_def)
  have len: "length fs = length ms" using fs(1) by (metis length_map)
  have "replica_ready (length ms) db" using assms(4) ms(1) log_room_mono by (auto simp: replica_ready_def)
  then have 0: "applied T (store_view db) ms fs e (\<lparr>rd_data = concat fs, rd_end = e\<rparr>, db, sent)"
    unfolding applied_def by (intro exI [of _ 0]) simp
  have all: "\<exists>db' sent'. (fstep es T)\<^sup>*\<^sup>* (\<lparr>rd_data = concat fs, rd_end = e\<rparr>, db, sent) (\<lparr>rd_data = [], rd_end = e\<rparr>, db', sent')"
    by (rule applied_all [OF assms(6,7) 0 fs(3,1)])
  have step: "(rd_data r \<noteq> [] \<longrightarrow> (\<exists>r1 db1 sent1. sync_round env out r db' sent' = Next r1 db1 sent1)) \<and>
      (rd_data r = [] \<longrightarrow> (\<forall>t \<ge> T. \<forall>k. k \<notin> change_key ` set ps \<longrightarrow>
          readable t (store_view db') k = readable t (store_view (nd_db n')) k))"
    if st: "(fstep es T)\<^sup>*\<^sup>* (\<lparr>rd_data = concat fs, rd_end = e\<rparr>, db, sent) (r, db', sent')" for r db' sent'
  proof -
    from applied_steps [OF st 0 assms(7) fs(3,1)] obtain i where
      i: "i \<le> length ms" "r = \<lparr>rd_data = concat (drop i fs), rd_end = e\<rparr>" "replica_ready (length ms - i) db'"
      "readable T (store_view db') = readable T (fold log_apply (map sync_record (take i ms)) (store_view db))"
      by (auto simp: applied_def)
    show ?thesis
    proof (cases "i < length ms")
      case True
      obtain db1 sent1 where s: "sync_round env out r db' sent' = Next \<lparr>rd_data = concat (drop (Suc i) fs), rd_end = e\<rparr> db1 sent1"
        using applied_round [OF fs(3,1) _ True i(3,4)] assms(6,7) unfolding i(2) by blast
      moreover from sync_round_consumes [OF s] have "rd_data r \<noteq> []" by auto
      ultimately show ?thesis by simp
    next
      case False
      then have "readable T (store_view db') = readable T (fold log_apply (map sync_record ms) (store_view (nd_db n)))"
        using i(1,4) readable_fold_cong [OF assms(5), of "map sync_record ms"] by simp
      with ms(2) have v: "readable T (store_view db') k = readable T (store_view (nd_db n')) k" if "k \<notin> change_key ` set ps" for k
        using that by (simp add: follows_def)
      have "readable t (store_view db') k = readable t (store_view (nd_db n')) k" if "T \<le> t" "k \<notin> change_key ` set ps" for t k
        using that(1) v [OF that(2)] by (rule readable_later)
      with False i(2) len show ?thesis by simp
    qed
  qed
  show ?thesis by (rule exI [of _ "concat fs"], intro conjI allI impI fs(2) all) (use step in blast)+
qed

text \<open>Two writes that are broadcast in the opposite order of the store, with a sweep in between that finds the first expired.\<close>

theorem replication_interleaved_witness:
  "let db = example_store 0 NoEvict SyncNone; n = example_leader db in
   \<exists>n' db' sent'. ((\<lambda>s s'. nstep {example_node_env} 50 s s' \<and> orderly s') ^^ 5) (n, []) (n', []) \<and>
     (fstep {example_env} 50)\<^sup>*\<^sup>* (\<lparr>rd_data = net_sent (nd_net n') 5, rd_end = StillWaiting\<rparr>, db, [])
       (\<lparr>rd_data = [], rd_end = StillWaiting\<rparr>, db', sent') \<and>
     (\<forall>t \<ge> 50. readable t (store_view db') = readable t (store_view (nd_db n'))) \<and>
     readable 60 (store_view db') [3] = Some ([4], 107) \<and> readable 60 (store_view db') [1] = None"
proof -
  let ?db = "example_store 0 NoEvict SyncNone" and ?ne = example_node_env and ?R = "\<lambda>s s'. nstep {example_node_env} 50 s s' \<and> orderly s'"
  let ?n = "example_leader ?db" and ?a = "ChSet [1] [2] 8" and ?b = "ChSet [3] [4] 107"
  have r: "replica_ready (Suc (Suc j)) ?db" for j
    using example_ready(1) by (simp add: replica_ready_def log_room_def example_store_def open_state_def SyncNone_def SyncInterval_def)
  have l: "leading [9] 5 ?n" using r by (intro example_leading) (simp_all add: replica_ready_def)
  have f: "nd_db ?n = ?db" "net_sent (nd_net ?n) 5 = []" by (simp_all add: example_leader_def NewNode_def)
  have e: "Node_Set_expiry ?ne 0 (?n\<lparr>nd_db := kv\<rparr>) = 107" "Node_Set_expiry ?ne 1 ?n = 8" for kv
    by (simp_all add: Node_Set_expiry_def example_leader_def NewNode_def example_node_env_def)
  obtain kv1 where 1: "SetWithExpiry (ne_env ?ne) [1] [2] 8 ?db = Returns (Inr ()) kv1" "replica_ready (Suc 0) kv1"
    "store_view kv1 = (store_view ?db)([1] \<mapsto> ([2], 8))"
    using r example_ready(3) by (rule ready_Set)
  obtain kv2 where 2: "SetWithExpiry (ne_env ?ne) [3] [4] 107 kv1 = Returns (Inr ()) kv2" "replica_ready 0 kv2"
    "store_view kv2 = (store_view kv1)([3] \<mapsto> ([4], 107))"
    using 1(2) example_ready(3) by (rule ready_Set)
  have l2: "leading [9] 5 (?n\<lparr>nd_db := kv2\<rparr>)" using l 2(2) by (simp add: leading_db replica_ready_def)
  then have i: "node_inv (?n\<lparr>nd_db := kv2\<rparr>)" by (simp add: leading_def)
  have ok: "ne_conns ?ne 5 = WriteOk" by (simp add: example_node_env_def)
  obtain n3 where 3: "Node_broadcast ?ne ?b (?n\<lparr>nd_db := kv2\<rparr>) = Returns (Inr ()) n3" "node_inv n3"
    using Node_broadcast_returns(1) [OF i, of ?ne "[3]" "[4]" 107] by auto
  have n3: "leading [9] 5 n3" "nd_db n3 = kv2"
    using Node_broadcast_frame [OF l2 ok _ 3(1)] by (auto simp: nano_range_def)
  have k: "kv_inv kv2" using 2(2) by (simp add: replica_ready_def)
  then obtain x where x: "x < length (kv_shards kv2)" using getShard_total getShard_less by metis
  define db4 where "db4 = set_shard x (sweep_shard (\<lambda>_ _. 0) 50 (kv_shards kv2 ! x)) kv2"
  note sw = sweep_one_spec [OF k x db4_def]
  have l4: "leading [9] 5 (n3\<lparr>nd_db := db4\<rparr>)" using n3(1) sw 2(2) by (simp add: leading_db replica_ready_def)
  obtain n5 where 5: "Node_broadcast ?ne ?a (n3\<lparr>nd_db := db4\<rparr>) = Returns (Inr ()) n5"
    using Node_broadcast_returns(1) [of "n3\<lparr>nd_db := db4\<rparr>" ?ne "[1]" "[2]" 8] l4 by (auto simp: leading_def)
  have n5: "nd_db n5 = db4"
    using Node_broadcast_frame [OF l4 ok _ 5] by (auto simp: nano_range_def)
  have s1: "?R (?n, []) (?n\<lparr>nd_db := kv1\<rparr>, [?a])"
    using set_stores [of ?ne "{?ne}" 8 1 ?n "[1]" "[2]" kv1 50 "[]"] 1(1) e(2) f(1) by (simp add: orderly_def nano_range_def)
  have s2: "?R (?n\<lparr>nd_db := kv1\<rparr>, [?a]) (?n\<lparr>nd_db := kv2\<rparr>, [?a, ?b])"
    using set_stores [of ?ne "{?ne}" 107 0 "?n\<lparr>nd_db := kv1\<rparr>" "[3]" "[4]" kv2 50 "[?a]"] 2(1) e(1) by (simp add: orderly_def nano_range_def)
  have s3: "?R (?n\<lparr>nd_db := kv2\<rparr>, [?a, ?b]) (n3, [?a])"
    using broadcasts [of ?ne "{?ne}" ?b "?n\<lparr>nd_db := kv2\<rparr>" n3 50 "[?a]" "[]"] 3(1) by (simp add: orderly_def nano_range_def)
  have s4: "?R (n3, [?a]) (n3\<lparr>nd_db := db4\<rparr>, [?a])"
    using sweeps [of x n3 50 50 db4 "\<lambda>_ _. 0" "{?ne}" "[?a]"] x by (simp add: orderly_def nano_range_def n3(2) db4_def)
  have s5: "?R (n3\<lparr>nd_db := db4\<rparr>, [?a]) (n5, [])"
    using broadcasts [of ?ne "{?ne}" ?a "n3\<lparr>nd_db := db4\<rparr>" n5 50 "[]" "[]"] 5 by (simp add: orderly_def)
  have run: "(?R ^^ 5) (?n, []) (n5, [])" by (rule five_steps [of ?R, OF s1 s2 s3 s4 s5])
  have r5: "replica_ready 5 ?db" using r [of 3] by (simp add: numeral_eq_Suc)
  have w: "\<forall>ne \<in> {?ne}. ne_conns ne 5 = WriteOk" "\<forall>env \<in> {example_env}. file_works env"
    using ok example_ready(2) by simp_all
  have eq: "readable 50 (store_view ?db) = readable 50 (store_view (nd_db ?n))" by (simp add: f(1))
  let ?s = "\<lambda>stream. (\<lparr>rd_data = stream, rd_end = StillWaiting\<rparr>, ?db, [])"
  obtain stream where st: "net_sent (nd_net n5) 5 = net_sent (nd_net ?n) 5 @ stream"
    "\<exists>db' sent'. (fstep {example_env} 50)\<^sup>*\<^sup>* (?s stream) (\<lparr>rd_data = [], rd_end = StillWaiting\<rparr>, db', sent')"
    "\<And>r db' sent' t k. (fstep {example_env} 50)\<^sup>*\<^sup>* (?s stream) (r, db', sent') \<Longrightarrow> rd_data r = [] \<Longrightarrow> 50 \<le> t \<Longrightarrow>
      k \<notin> change_key ` set [] \<Longrightarrow> readable t (store_view db') k = readable t (store_view (nd_db n5)) k"
    using replication_interleaved [where e = StillWaiting and sent = "[]" and out = WriteOk, OF l w(1) run r5 eq singletonI w(2)]
    by (elim exE conjE) (rule that; blast)
  from st(2) obtain db' sent' where d: "(fstep {example_env} 50)\<^sup>*\<^sup>* (?s stream) (\<lparr>rd_data = [], rd_end = StillWaiting\<rparr>, db', sent')"
    by blast
  have v: "readable t (store_view db') k = readable t (store_view (nd_db n5)) k" if "50 \<le> t" for t k
    using st(3) [OF d _ that] by simp
  have "readable 60 (store_view (nd_db n5)) = readable 60 (store_view kv2)"
    unfolding n5 db4_def by (rule readable_sweep [OF k x]) simp
  then have "readable 60 (store_view (nd_db n5)) [3] = Some ([4], 107)" "readable 60 (store_view (nd_db n5)) [1] = None"
    by (simp_all add: 1(3) 2(3))
  with run d v st(1) f(2) show ?thesis
    unfolding Let_def by (intro exI [of _ n5] exI [of _ db'] exI [of _ sent']) (auto simp: fun_eq_iff)
qed

end
