(* ===== verification/Go_Strings.thy ===== *)
theory Go_Strings
  imports Prelude
begin

text \<open>
  The functions of Go's \<open>strings\<close> and \<open>strconv\<close> that the configuration and the command line use, on ASCII
  text. A parse that returns an error is \<open>None\<close>; the callers only ask whether there was one.
\<close>

definition is_space :: "char \<Rightarrow> bool" where
  "is_space c \<longleftrightarrow> c \<in> {CHR '' '', CHR 0x09, CHR 0x0A, CHR 0x0B, CHR 0x0C, CHR 0x0D}"

definition TrimSpace :: "string \<Rightarrow> string" where
  "TrimSpace s = rev (dropWhile is_space (rev (dropWhile is_space s)))"

definition upper_char :: "char \<Rightarrow> char" where
  "upper_char c = (let n = (of_char c :: nat) in if 97 \<le> n \<and> n \<le> 122 then char_of (n - 32) else c)"

definition lower_char :: "char \<Rightarrow> char" where
  "lower_char c = (let n = (of_char c :: nat) in if 65 \<le> n \<and> n \<le> 90 then char_of (n + 32) else c)"

definition ToUpper :: "string \<Rightarrow> string" where
  "ToUpper s = map upper_char s"

definition ToLower :: "string \<Rightarrow> string" where
  "ToLower s = map lower_char s"

definition HasSuffix :: "string \<Rightarrow> string \<Rightarrow> bool" where
  "HasSuffix s suffix \<longleftrightarrow> length suffix \<le> length s \<and> drop (length s - length suffix) s = suffix"

text \<open>\<open>strings.Split\<close> with a separator of one character, \<open>strings.Fields\<close> and \<open>strings.Join\<close> with a space.\<close>

fun Split :: "string \<Rightarrow> char \<Rightarrow> string list" where
  "Split [] sep = [[]]"
| "Split (c # s) sep = (if c = sep then [] # Split s sep else case Split s sep of p # ps \<Rightarrow> (c # p) # ps | [] \<Rightarrow> [[c]])"

definition Fields :: "string \<Rightarrow> string list" where
  "Fields s = filter (\<lambda>p. p \<noteq> []) (Split (map (\<lambda>c. if is_space c then CHR '' '' else c) s) (CHR '' ''))"

fun Join :: "string list \<Rightarrow> string" where
  "Join [] = []"
| "Join [p] = p"
| "Join (p # ps) = p @ '' '' @ Join ps"

section \<open>Numbers\<close>

definition digit_val :: "char \<Rightarrow> nat option" where
  "digit_val c = (let n = (of_char c :: nat) in if 48 \<le> n \<and> n \<le> 57 then Some (n - 48) else None)"

fun digits_val :: "nat \<Rightarrow> string \<Rightarrow> nat option" where
  "digits_val acc [] = Some acc"
| "digits_val acc (c # s) = (case digit_val c of None \<Rightarrow> None | Some d \<Rightarrow> digits_val (10 * acc + d) s)"

text \<open>\<open>ParseUint(s, 10, bits)\<close>: digits only, at least one, in range.\<close>

definition ParseUint :: "nat \<Rightarrow> string \<Rightarrow> nat option" where
  "ParseUint bits s =
     (if s = [] then None
      else case digits_val 0 s of None \<Rightarrow> None | Some n \<Rightarrow> if n < 2 ^ bits then Some n else None)"

text \<open>\<open>ParseInt(s, 10, 64)\<close> and, on 64-bit machines, \<open>Atoi(s)\<close>: an optional sign first.\<close>

definition ParseInt :: "string \<Rightarrow> int option" where
  "ParseInt s =
     (let neg = (s \<noteq> [] \<and> hd s = CHR ''-'');
          s1 = (if s \<noteq> [] \<and> hd s \<in> {CHR ''-'', CHR ''+''} then tl s else s)
      in if s1 = [] then None
         else case digits_val 0 s1 of
                None \<Rightarrow> None
              | Some n \<Rightarrow>
                  (let i = (if neg then - int n else int n)
                   in if - (2 ^ 63) \<le> i \<and> i < 2 ^ 63 then Some i else None))"

text \<open>The verb \<open>%d\<close>.\<close>

definition digit_char :: "nat \<Rightarrow> char" where
  "digit_char d = char_of (48 + d)"

fun show_nat :: "nat \<Rightarrow> string" where
  "show_nat n = (if n < 10 then [digit_char n] else show_nat (n div 10) @ [digit_char (n mod 10)])"

declare show_nat.simps [simp del]

definition show_int :: "int \<Rightarrow> string" where
  "show_int i = (if i < 0 then CHR ''-'' # show_nat (nat (- i)) else show_nat (nat i))"

text \<open>The verbs \<open>%7d\<close> and \<open>%07d\<close> for numbers, and \<open>%-24s\<close>.\<close>

definition pad_left :: "char \<Rightarrow> nat \<Rightarrow> string \<Rightarrow> string" where
  "pad_left c w s = replicate (w - length s) c @ s"

definition pad_right :: "nat \<Rightarrow> string \<Rightarrow> string" where
  "pad_right w s = s @ replicate (w - length s) (CHR '' '')"

text \<open>\<open>Duration.String\<close>: the fraction of \<open>prec\<close> digits without trailing zeros, and the units.\<close>

definition frac_text :: "nat \<Rightarrow> nat \<Rightarrow> string" where
  "frac_text v prec =
     (let f = v mod 10 ^ prec
      in if f = 0 then [] else CHR ''.'' # rev (dropWhile (\<lambda>c. c = CHR ''0'') (rev (pad_left (CHR ''0'') prec (show_nat f)))))"

definition show_duration :: "int \<Rightarrow> string" where
  "show_duration d =
     (let u = nat \<bar>d\<bar>;
          secs = u div 10 ^ 9;
          s = show_nat (secs mod 60) @ frac_text u 9 @ ''s'';
          m = show_nat (secs div 60 mod 60) @ ''m'' @ s
      in if u = 0 then ''0s''
         else (if d < 0 then ''-'' else []) @
           (if u < 10 ^ 3 then show_nat u @ ''ns''
            else if u < 10 ^ 6 then show_nat (u div 10 ^ 3) @ frac_text u 3 @ [CHR 0xC2, CHR 0xB5, CHR ''s'']
            else if u < 10 ^ 9 then show_nat (u div 10 ^ 6) @ frac_text u 6 @ ''ms''
            else if secs < 60 then s
            else if secs < 3600 then m
            else show_nat (secs div 3600) @ ''h'' @ m))"

section \<open>Lemmas\<close>

lemma digit_char_val [simp]: "d < 10 \<Longrightarrow> digit_val (digit_char d) = Some d"
  by (simp add: digit_val_def digit_char_def Let_def)

lemma digit_val_of_char: "digit_val c = Some d \<Longrightarrow> of_char c = 48 + d \<and> d < 10"
  by (auto simp: digit_val_def Let_def split: if_splits)

definition all_digits :: "string \<Rightarrow> bool" where
  "all_digits s \<longleftrightarrow> list_all (\<lambda>c. digit_val c \<noteq> None) s"

lemma all_digits_show_nat [simp]: "all_digits (show_nat n)"
  by (induction n rule: show_nat.induct) (subst show_nat.simps, auto simp: all_digits_def)

lemma show_nat_not_Nil [simp]: "show_nat n \<noteq> []"
  by (subst show_nat.simps) simp

lemma digits_val_append: "digits_val acc (s @ t) = (case digits_val acc s of None \<Rightarrow> None | Some a \<Rightarrow> digits_val a t)"
  by (induction acc s rule: digits_val.induct) (auto split: option.splits)

lemma digits_val_show_nat [simp]: "digits_val 0 (show_nat n) = Some n"
proof (induction n rule: show_nat.induct)
  case (1 n)
  then show ?case by (subst show_nat.simps) (auto simp: digits_val_append)
qed

lemma digit_not_space: "digit_val c \<noteq> None \<Longrightarrow> \<not> is_space c \<and> upper_char c = c"
  by (auto simp: is_space_def digit_val_def upper_char_def Let_def split: if_splits)

lemma TrimSpace_digits [simp]: "all_digits s \<Longrightarrow> TrimSpace s = s"
proof -
  assume a: "all_digits s"
  have keep: "dropWhile is_space t = t" if "\<forall>c \<in> set t. \<not> is_space c" for t
    using that by (cases t) simp_all
  have "\<forall>c \<in> set s. \<not> is_space c" using a digit_not_space by (auto simp: all_digits_def list_all_iff)
  then show ?thesis by (simp add: TrimSpace_def keep)
qed

lemma ToUpper_digits [simp]: "all_digits s \<Longrightarrow> ToUpper s = s"
  using digit_not_space by (auto simp: ToUpper_def all_digits_def list_all_iff intro: map_idI)

lemma ParseInt_show_nat [simp]: "n < 2 ^ 63 \<Longrightarrow> ParseInt (show_nat n) = Some (int n)"
proof -
  assume n: "n < 2 ^ 63"
  have "digit_val (hd (show_nat n)) \<noteq> None"
    using all_digits_show_nat [of n] show_nat_not_Nil [of n] unfolding all_digits_def list_all_iff by auto
  then have "hd (show_nat n) \<notin> {CHR ''-'', CHR ''+''}" by (auto simp: digit_val_def)
  moreover have "int n < 2 ^ 63" using n by (simp flip: of_nat_less_iff)
  ultimately show ?thesis by (simp add: ParseInt_def)
qed

end
