(* ===== verification/Config.thy ===== *)
theory Config
  imports Go_Strings Node
begin

text \<open>
  Configuration: \<open>utils/memory_bytes.go\<close>, \<open>config/config_types.go\<close>, \<open>config/load_config.go\<close>, and how \<open>main.go\<close> makes
  the options of the store and the node from it. The environment is a function from names to values, empty where a variable is not
  set; \<open>parseDuration\<close> stands for \<open>time.ParseDuration\<close>.
\<close>

section \<open>Memory sizes\<close>

text \<open>Multiplication of int64 values wraps around.\<close>

definition wrap64 :: "int \<Rightarrow> int" where
  "wrap64 i = sint (word_of_int i :: u64)"

definition memory_suffixes :: "(string \<times> int) list" where
  "memory_suffixes =
     [(''TB'', 2 ^ 40), (''GB'', 2 ^ 30), (''MB'', 2 ^ 20), (''KB'', 2 ^ 10),
      (''T'', 2 ^ 40), (''G'', 2 ^ 30), (''M'', 2 ^ 20), (''K'', 2 ^ 10)]"

fun suffix_loop :: "string \<Rightarrow> string \<Rightarrow> (string \<times> int) list \<Rightarrow> int option" where
  "suffix_loop s upper [] = ParseInt s"
| "suffix_loop s upper ((suffix, mul) # rest) =
     (if HasSuffix upper suffix
      then let numStr = TrimSpace (take (length s - length suffix) s)
           in case ParseInt numStr of
                None \<Rightarrow> None
              | Some n \<Rightarrow> Some (wrap64 (n * mul))
      else suffix_loop s upper rest)"

definition ParseMemoryBytes :: "string \<Rightarrow> int option" where
  "ParseMemoryBytes s =
     (let s = TrimSpace s;
          upper = ToUpper s
      in suffix_loop s upper memory_suffixes)"

text \<open>The shift of a signed number rounds down.\<close>

definition FormatMemoryBytes :: "int \<Rightarrow> string" where
  "FormatMemoryBytes b =
     (if b = 0 then ''unlimited''
      else if b \<ge> 2 ^ 40 then show_int (b div 2 ^ 40) @ ''TB''
      else if b \<ge> 2 ^ 30 then show_int (b div 2 ^ 30) @ ''GB''
      else if b \<ge> 2 ^ 20 then show_int (b div 2 ^ 20) @ ''MB''
      else if b \<ge> 2 ^ 10 then show_int (b div 2 ^ 10) @ ''KB''
      else show_int b @ ''B'')"

section \<open>Configuration\<close>

record ClusterConfig =
  cc_NodeAddr :: string
  cc_Peers :: "string list"

record ServerConfig =
  sc_Port :: string
  sc_MaxPayloadBytes :: u32

record StoreConfig =
  tc_ShardCount :: int
  tc_DefaultTTL :: duration
  tc_WALPath :: string
  tc_MaxMemoryBytes :: int
  tc_EvictionPolicy :: string

record WALConfig =
  wc_Mode :: string
  wc_FlushInterval :: duration
  wc_MaxBatchSize :: int

record Config =
  cf_Server :: ServerConfig
  cf_Store :: StoreConfig
  cf_WAL :: WALConfig
  cf_Cluster :: ClusterConfig

definition Default :: Config where
  "Default =
     \<lparr>cf_Server = \<lparr>sc_Port = '':6379'', sc_MaxPayloadBytes = 10 * 1024 * 1024\<rparr>,
      cf_Store = \<lparr>tc_ShardCount = 32, tc_DefaultTTL = 15 * 60 * 1000000000, tc_WALPath = ''production.wal'',
                  tc_MaxMemoryBytes = 0, tc_EvictionPolicy = ''noevict''\<rparr>,
      cf_WAL = \<lparr>wc_Mode = ''interval'', wc_FlushInterval = 500 * 1000000, wc_MaxBatchSize = 1000\<rparr>,
      cf_Cluster = \<lparr>cc_NodeAddr = [], cc_Peers = []\<rparr>\<rparr>"

text \<open>\<open>if v := os.Getenv(name); v != "" { ... }\<close>\<close>

definition on_env :: "(string \<Rightarrow> string) \<Rightarrow> string \<Rightarrow> (string \<Rightarrow> Config \<Rightarrow> Config) \<Rightarrow> Config \<Rightarrow> Config" where
  "on_env env name f cfg = (let v = env name in if v \<noteq> [] then f v cfg else cfg)"

definition set_Server :: "(ServerConfig \<Rightarrow> ServerConfig) \<Rightarrow> Config \<Rightarrow> Config" where
  "set_Server f cfg = cfg\<lparr>cf_Server := f (cf_Server cfg)\<rparr>"

definition set_Store :: "(StoreConfig \<Rightarrow> StoreConfig) \<Rightarrow> Config \<Rightarrow> Config" where
  "set_Store f cfg = cfg\<lparr>cf_Store := f (cf_Store cfg)\<rparr>"

definition set_WAL :: "(WALConfig \<Rightarrow> WALConfig) \<Rightarrow> Config \<Rightarrow> Config" where
  "set_WAL f cfg = cfg\<lparr>cf_WAL := f (cf_WAL cfg)\<rparr>"

definition set_Cluster :: "(ClusterConfig \<Rightarrow> ClusterConfig) \<Rightarrow> Config \<Rightarrow> Config" where
  "set_Cluster f cfg = cfg\<lparr>cf_Cluster := f (cf_Cluster cfg)\<rparr>"

text \<open>A parsed number is taken only when it is positive.\<close>

definition if_positive :: "int option \<Rightarrow> (int \<Rightarrow> Config \<Rightarrow> Config) \<Rightarrow> Config \<Rightarrow> Config" where
  "if_positive p f cfg = (case p of Some n \<Rightarrow> if n > 0 then f n cfg else cfg | None \<Rightarrow> cfg)"

definition Load :: "(string \<Rightarrow> duration option) \<Rightarrow> (string \<Rightarrow> string) \<Rightarrow> Config" where
  "Load parseDuration env =
     (let cfg = Default;
          cfg = on_env env ''KV_PORT'' (\<lambda>v. set_Server (\<lambda>s. s\<lparr>sc_Port := v\<rparr>)) cfg;
          cfg = on_env env ''KV_MAX_PAYLOAD_BYTES'' (\<lambda>v cfg.
                  case ParseUint 32 v of Some n \<Rightarrow> set_Server (\<lambda>s. s\<lparr>sc_MaxPayloadBytes := word_of_nat n\<rparr>) cfg | None \<Rightarrow> cfg) cfg;
          cfg = on_env env ''KV_SHARD_COUNT'' (\<lambda>v. if_positive (ParseInt v) (\<lambda>n. set_Store (\<lambda>s. s\<lparr>tc_ShardCount := n\<rparr>))) cfg;
          cfg = on_env env ''KV_DEFAULT_TTL'' (\<lambda>v. if_positive (parseDuration v) (\<lambda>d. set_Store (\<lambda>s. s\<lparr>tc_DefaultTTL := d\<rparr>))) cfg;
          cfg = on_env env ''KV_WAL_PATH'' (\<lambda>v. set_Store (\<lambda>s. s\<lparr>tc_WALPath := v\<rparr>)) cfg;
          cfg = on_env env ''KV_WAL_MODE'' (\<lambda>v. set_WAL (\<lambda>w. w\<lparr>wc_Mode := v\<rparr>)) cfg;
          cfg = on_env env ''KV_WAL_FLUSH_INTERVAL'' (\<lambda>v. if_positive (parseDuration v) (\<lambda>d. set_WAL (\<lambda>w. w\<lparr>wc_FlushInterval := d\<rparr>))) cfg;
          cfg = on_env env ''KV_WAL_BATCH_SIZE'' (\<lambda>v. if_positive (ParseInt v) (\<lambda>n. set_WAL (\<lambda>w. w\<lparr>wc_MaxBatchSize := n\<rparr>))) cfg;
          cfg = on_env env ''KV_NODE_ADDR'' (\<lambda>v. set_Cluster (\<lambda>c. c\<lparr>cc_NodeAddr := v\<rparr>)) cfg;
          cfg = on_env env ''KV_PEERS'' (\<lambda>v. set_Cluster (\<lambda>c. c\<lparr>cc_Peers := Split v (CHR '','')\<rparr>)) cfg;
          cfg = on_env env ''KV_MAX_MEMORY'' (\<lambda>v. if_positive (ParseMemoryBytes v) (\<lambda>n. set_Store (\<lambda>s. s\<lparr>tc_MaxMemoryBytes := n\<rparr>))) cfg;
          cfg = on_env env ''KV_EVICTION_POLICY'' (\<lambda>v. set_Store (\<lambda>s. s\<lparr>tc_EvictionPolicy := ToLower (TrimSpace v)\<rparr>)) cfg
      in cfg)"

section \<open>Start-up\<close>

definition main_walOpts :: "Config \<Rightarrow> Options" where
  "main_walOpts cfg =
     \<lparr>o_Mode = wc_Mode (cf_WAL cfg), o_FlushInterval = wc_FlushInterval (cf_WAL cfg),
      o_MaxBatchSize = wc_MaxBatchSize (cf_WAL cfg)\<rparr>"

definition main_storeOpts :: "Config \<Rightarrow> StoreOptions" where
  "main_storeOpts cfg =
     \<lparr>so_ShardCount = tc_ShardCount (cf_Store cfg), so_DefaultTTL = tc_DefaultTTL (cf_Store cfg),
      so_MaxMemoryBytes = tc_MaxMemoryBytes (cf_Store cfg),
      so_NewEviction = Some (ByName (tc_EvictionPolicy (cf_Store cfg)))\<rparr>"

definition main_node :: "Config \<Rightarrow> KVStore \<Rightarrow> Node" where
  "main_node cfg db =
     (let peers = cc_Peers (cf_Cluster cfg);
          nodeAddr = cc_NodeAddr (cf_Cluster cfg)
      in if nodeAddr = [] \<or> length peers = 0
         then ForceLeader (NewNode db (tc_DefaultTTL (cf_Store cfg)) [] [])
         else NewNode db (tc_DefaultTTL (cf_Store cfg)) (str nodeAddr) (map str peers))"

section \<open>Lemmas\<close>

definition config_ok :: "Config \<Rightarrow> bool" where
  "config_ok cfg \<longleftrightarrow> 0 < tc_ShardCount (cf_Store cfg) \<and> 0 < tc_DefaultTTL (cf_Store cfg) \<and> 0 \<le> tc_MaxMemoryBytes (cf_Store cfg) \<and>
     0 < wc_FlushInterval (cf_WAL cfg) \<and> 0 < wc_MaxBatchSize (cf_WAL cfg)"

lemma on_env_ok:
  "config_ok cfg \<Longrightarrow> (\<And>v c. config_ok c \<Longrightarrow> config_ok (f v c)) \<Longrightarrow> config_ok (on_env env name f cfg)"
  by (simp add: on_env_def Let_def)

lemma if_positive_ok:
  "config_ok cfg \<Longrightarrow> (\<And>n c. 0 < n \<Longrightarrow> config_ok c \<Longrightarrow> config_ok (f n c)) \<Longrightarrow> config_ok (if_positive p f cfg)"
  by (simp add: if_positive_def split: option.splits)

lemma Load_ok: "config_ok (Load parseDuration env)"
  unfolding Load_def Let_def
  by (intro on_env_ok if_positive_ok; (assumption)?)
    (auto simp: config_ok_def Default_def set_Server_def set_Store_def set_WAL_def set_Cluster_def split: option.splits)

text \<open>A size with the suffix of its unit.\<close>

lemma HasSuffix_append: "length t = length u \<Longrightarrow> HasSuffix (s @ t) u \<longleftrightarrow> t = u"
  by (simp add: HasSuffix_def)

lemma ToUpper_unit:
  "all_digits s \<Longrightarrow> u \<in> {''TB'', ''GB'', ''MB'', ''KB''} \<Longrightarrow> ToUpper (s @ u) = s @ u"
  using ToUpper_digits [of s] by (auto simp: ToUpper_def upper_char_def)

lemma TrimSpace_unit:
  assumes "all_digits s" and "s \<noteq> []" and "\<not> is_space c"
  shows "TrimSpace (s @ t @ [c]) = s @ t @ [c]"
proof -
  obtain d s' where s: "s = d # s'" using assms(2) by (cases s) auto
  with assms(1) have "\<not> is_space d" using digit_not_space by (simp add: all_digits_def)
  with s assms(3) show ?thesis by (simp add: TrimSpace_def)
qed

lemma Parse_unit:
  assumes "n < 2 ^ 63" and "(u, mul) \<in> set [(''TB'', 2 ^ 40), (''GB'', 2 ^ 30), (''MB'', 2 ^ 20), (''KB'', 2 ^ 10)]"
  shows "ParseMemoryBytes (show_nat n @ u) = Some (wrap64 (int n * mul))"
proof -
  let ?s = "show_nat n @ u"
  have B: "\<not> is_space CHR ''B''" by (simp add: is_space_def)
  have t: "TrimSpace ?s = ?s"
  proof -
    have "u = [hd u] @ [CHR ''B'']" using assms(2) by auto
    with TrimSpace_unit [OF all_digits_show_nat [of n] show_nat_not_Nil B, of "[hd u]"] show ?thesis by metis
  qed
  have u: "ToUpper ?s = ?s" using assms(2) by (intro ToUpper_unit) auto
  have "suffix_loop ?s ?s memory_suffixes = Some (wrap64 (int n * mul))"
    using assms(2) ParseInt_show_nat [OF assms(1)]
    by (simp, elim disjE conjE) (simp_all add: memory_suffixes_def HasSuffix_append)
  with t u show ?thesis by (simp add: ParseMemoryBytes_def)
qed

lemma wrap64_id: "- (2 ^ 63) \<le> i \<Longrightarrow> i < 2 ^ 63 \<Longrightarrow> wrap64 i = i"
  by (simp add: wrap64_def signed_of_int signed_take_bit_int_eq_self)

lemma div_unit:
  assumes "b < 2 ^ 63" and "(u, mul) \<in> set [(''TB'', 2 ^ 40), (''GB'', 2 ^ 30), (''MB'', 2 ^ 20), (''KB'', 2 ^ 10)]" and "mul \<le> b"
  shows "ParseMemoryBytes (show_int (b div mul) @ u) = Some (b - b mod mul)"
proof -
  have m: "1 < mul" using assms(2) by auto
  then have d: "0 \<le> b div mul" "b div mul \<le> b" using assms(3) by (simp_all add: pos_imp_zdiv_nonneg_iff int_div_less_self order_less_imp_le)
  then have "nat (b div mul) < 2 ^ 63" using assms(1) by (simp add: nat_less_iff)
  moreover have "b div mul * mul = b - b mod mul" by (simp add: minus_mod_eq_div_mult)
  moreover have "wrap64 (b - b mod mul) = b - b mod mul"
    using m assms(1,3) d pos_mod_sign [of mul b] pos_mod_bound [of mul b] by (intro wrap64_id) linarith+
  ultimately show ?thesis
    using Parse_unit [OF _ assms(2), of "nat (b div mul)"] d(1) by (simp add: show_int_def)
qed

lemma Parse_plain_B: "b < 2 ^ 10 \<Longrightarrow> 0 < b \<Longrightarrow> ParseMemoryBytes (show_int b @ ''B'') = None"
proof -
  assume b: "b < 2 ^ 10" "0 < b"
  define s where "s = show_nat (nat b)"
  have s: "all_digits s" "s \<noteq> []" "show_int b = s" using b by (simp_all add: s_def show_int_def)
  obtain s' d where s': "s = s' @ [d]" using s(2) by (cases s rule: rev_cases) auto
  with s(1) have d: "digit_val d \<noteq> None" by (simp add: all_digits_def)
  have B: "\<not> is_space CHR ''B''" "upper_char CHR ''B'' = CHR ''B''" by (simp_all add: is_space_def upper_char_def)
  have t: "TrimSpace (s @ ''B'') = s @ ''B''" using TrimSpace_unit [OF s(1,2) B(1), of "[]"] by simp
  have u: "ToUpper (s @ ''B'') = s @ ''B''" using ToUpper_digits [OF s(1)] B(2) by (simp add: ToUpper_def)
  have two: "\<not> HasSuffix (s @ ''B'') [c, CHR ''B'']" if "digit_val c = None" for c
    using d that HasSuffix_append [of "[d, CHR ''B'']" "[c, CHR ''B'']" s'] by (auto simp: s')
  have one: "\<not> HasSuffix (s @ ''B'') [c]" if "c \<noteq> CHR ''B''" for c
    using that HasSuffix_append [of "''B''" "[c]" s] by auto
  have "digits_val 0 (s @ ''B'') = None"
    by (auto simp: digits_val_append digit_val_def split: option.splits)
  moreover have "hd s \<notin> {CHR ''-'', CHR ''+''}"
    using s(1,2) by (cases s) (auto simp: all_digits_def digit_val_def)
  ultimately have "ParseInt (s @ ''B'') = None" using s(2) by (simp add: ParseInt_def)
  then have "suffix_loop (s @ ''B'') (s @ ''B'') memory_suffixes = None"
    by (simp add: memory_suffixes_def two one digit_val_def)
  then show ?thesis by (simp only: s(3) ParseMemoryBytes_def Let_def t u)
qed

text \<open>Sizes read back. What \<open>FormatMemoryBytes\<close> prints for a size of at least one kilobyte,
  \<open>ParseMemoryBytes\<close> reads as that size rounded down to the unit that was printed; what it prints for a
  smaller positive size is not accepted.\<close>

lemma memory_size_round_trip:
  assumes "0 < b" and "b < 2 ^ 63"
  shows "ParseMemoryBytes (FormatMemoryBytes b) =
    (if b < 2 ^ 10 then None
     else Some (b - b mod (if b \<ge> 2 ^ 40 then 2 ^ 40 else if b \<ge> 2 ^ 30 then 2 ^ 30 else if b \<ge> 2 ^ 20 then 2 ^ 20 else 2 ^ 10)))"
proof -
  note u = div_unit [OF assms(2)]
  consider "b < 2 ^ 10" | "2 ^ 10 \<le> b" "b < 2 ^ 20" | "2 ^ 20 \<le> b" "b < 2 ^ 30" | "2 ^ 30 \<le> b" "b < 2 ^ 40" | "2 ^ 40 \<le> b"
    by linarith
  then show ?thesis
  proof cases
    case 1
    with assms Parse_plain_B [of b] show ?thesis by (simp add: FormatMemoryBytes_def)
  next
    case 2
    with assms u [of "''KB''" "2 ^ 10"] show ?thesis by (simp add: FormatMemoryBytes_def)
  next
    case 3
    with assms u [of "''MB''" "2 ^ 20"] show ?thesis by (simp add: FormatMemoryBytes_def)
  next
    case 4
    with assms u [of "''GB''" "2 ^ 30"] show ?thesis by (simp add: FormatMemoryBytes_def)
  next
    case 5
    with assms u [of "''TB''" "2 ^ 40"] show ?thesis by (simp add: FormatMemoryBytes_def)
  qed
qed

end
