(* ===== verification/Client.thy ===== *)
theory Client
  imports Server Config
begin

text \<open>
  The command line client: \<open>cli/cli.go\<close>, from the flags to the terminal. What a dial meets is given by the
  network: \<open>dials i addr\<close> is the result of the \<open>i\<close>-th dial of the process, to \<open>addr\<close>, with the outcome of the
  write of the request and the bytes that come back. The text the process prints is part of its state;
  waiting between attempts is not modelled.
\<close>

section \<open>Text\<close>

definition colour :: "string \<Rightarrow> string" where
  "colour code = CHR 0x1B # ''['' @ code @ ''m''"

definition ColorReset :: string where "ColorReset = colour ''0''"
definition ColorRed :: string where "ColorRed = colour ''31''"
definition ColorGreen :: string where "ColorGreen = colour ''32''"
definition ColorYellow :: string where "ColorYellow = colour ''33''"
definition ColorCyan :: string where "ColorCyan = colour ''36''"
definition ColorBold :: string where "ColorBold = colour ''1''"

definition text_of :: "bytes \<Rightarrow> string" where
  "text_of b = map (\<lambda>x. char_of (unat x)) b"

definition newline :: string where "newline = [CHR 0x0A]"

section \<open>Requests\<close>

datatype CliError =
    Failed ProtoError
  | UnexpectedResponse byte
  | NoTopology
  | NoLeader
  | Unavailable

text \<open>A dash of three bytes, as the source has it in its messages.\<close>

definition em_dash :: string where
  "em_dash = [CHR 0xE2, CHR 0x80, CHR 0x94]"

fun CliError_text :: "CliError \<Rightarrow> string" where
  "CliError_text (Failed e) = ProtoError_text e"
| "CliError_text (UnexpectedResponse op) = ''unexpected response type 0x'' @ hex02 op"
| "CliError_text NoTopology = ''no reachable node returned a topology with a leader''"
| "CliError_text NoLeader = ''no leader elected after 4.5s '' @ em_dash @ '' cluster may be down''"
| "CliError_text Unavailable = ''cluster unavailable after retries''"

definition sendMessage :: "write_outcome \<Rightarrow> Message \<Rightarrow> (ProtoError, unit) go" where
  "sendMessage out msg = fst (WriteFrame out [] msg)"

definition receiveMessage :: "Reader \<Rightarrow> (ProtoError, Message) go" where
  "receiveMessage r = fst (ReadFrame the_registry r 0)"

text \<open>\<open>sendToNode\<close>: dial, send, receive.\<close>

definition sendToNode :: "dialed \<Rightarrow> Message \<Rightarrow> (CliError, Message) go" where
  "sendToNode d msg =
     (case d of
        Inl e \<Rightarrow> Err (Failed (IO e))
      | Inr (out, r) \<Rightarrow>
          (case sendMessage out msg of
             Err e \<Rightarrow> Err (Failed e)
           | Panic \<Rightarrow> Panic
           | Ok _ \<Rightarrow> (case receiveMessage r of Ok m \<Rightarrow> Ok m | Err e \<Rightarrow> Err (Failed e) | Panic \<Rightarrow> Panic)))"

definition fetchTopology :: "dialed \<Rightarrow> (CliError, TopologyResponse) go" where
  "fetchTopology d =
     (case d of
        Inl e \<Rightarrow> Err (Failed (IO e))
      | Inr (out, r) \<Rightarrow>
          (case sendMessage out (MTopologyRequest ()) of
             Err e \<Rightarrow> Err (Failed e)
           | Panic \<Rightarrow> Panic
           | Ok _ \<Rightarrow>
               (case receiveMessage r of
                  Err e \<Rightarrow> Err (Failed e)
                | Panic \<Rightarrow> Panic
                | Ok msg \<Rightarrow> (case msg of MTopologyResponse topo \<Rightarrow> Ok topo | _ \<Rightarrow> Err (UnexpectedResponse (OpCode msg))))))"

section \<open>Routing\<close>

text \<open>\<open>kc_dials\<close> counts the dials made, \<open>kc_out\<close> is what the process has printed.\<close>

record kvClient =
  kc_knownAddrs :: "bytes list"
  kc_leaderAddr :: bytes
  kc_followers :: "bytes list"
  kc_dials :: nat
  kc_out :: string

definition newClient :: "bytes \<Rightarrow> kvClient" where
  "newClient seed = \<lparr>kc_knownAddrs = [seed], kc_leaderAddr = [], kc_followers = [], kc_dials = 0, kc_out = []\<rparr>"

definition emit :: "string \<Rightarrow> kvClient \<Rightarrow> kvClient" where
  "emit txt c = c\<lparr>kc_out := kc_out c @ txt\<rparr>"

definition addKnown :: "bytes \<Rightarrow> kvClient \<Rightarrow> kvClient" where
  "addKnown addr c = (if addr \<in> set (kc_knownAddrs c) then c else c\<lparr>kc_knownAddrs := kc_knownAddrs c @ [addr]\<rparr>)"

definition note_node :: "bytes \<Rightarrow> NodeInfo \<Rightarrow> kvClient \<Rightarrow> kvClient" where
  "note_node leader n c =
     (let c = addKnown (ni_Address n) c
      in if ni_Address n \<noteq> leader then c\<lparr>kc_followers := kc_followers c @ [ni_Address n]\<rparr> else c)"

text \<open>The loop of \<open>connect\<close> runs over the addresses that were known when it started.\<close>

fun connect_loop :: "(nat \<Rightarrow> bytes \<Rightarrow> dialed) \<Rightarrow> bytes list \<Rightarrow> kvClient \<Rightarrow> (CliError, unit) go \<times> kvClient" where
  "connect_loop dials [] c = (Err NoTopology, c)"
| "connect_loop dials (addr # rest) c =
     (let d = dials (kc_dials c) addr;
          c = c\<lparr>kc_dials := kc_dials c + 1\<rparr>
      in case fetchTopology d of
           Err e \<Rightarrow> connect_loop dials rest c
         | Panic \<Rightarrow> (Panic, c)
         | Ok topo \<Rightarrow>
             (let c = c\<lparr>kc_leaderAddr := tr_LeaderAddr topo, kc_followers := []\<rparr>;
                  c = fold (note_node (tr_LeaderAddr topo)) (tr_Nodes topo) c
              in if kc_leaderAddr c \<noteq> [] then (Ok (), c) else connect_loop dials rest c))"

definition connect :: "(nat \<Rightarrow> bytes \<Rightarrow> dialed) \<Rightarrow> kvClient \<Rightarrow> (CliError, unit) go \<times> kvClient" where
  "connect dials c = connect_loop dials (kc_knownAddrs c) c"

fun waitForLeader_loop :: "nat \<Rightarrow> (nat \<Rightarrow> bytes \<Rightarrow> dialed) \<Rightarrow> kvClient \<Rightarrow> (CliError, unit) go \<times> kvClient" where
  "waitForLeader_loop 0 dials c = (Err NoLeader, c)"
| "waitForLeader_loop (Suc i) dials c =
     (case connect dials c of
        (Panic, c) \<Rightarrow> (Panic, c)
      | (Err e, c) \<Rightarrow> waitForLeader_loop i dials c
      | (Ok _, c) \<Rightarrow> if kc_leaderAddr c \<noteq> [] then (Ok (), c) else waitForLeader_loop i dials c)"

definition waitForLeader :: "(nat \<Rightarrow> bytes \<Rightarrow> dialed) \<Rightarrow> kvClient \<Rightarrow> (CliError, unit) go \<times> kvClient" where
  "waitForLeader dials c = waitForLeader_loop 15 dials c"

text \<open>\<open>intn n\<close> is \<open>rand.Intn(n)\<close>.\<close>

definition pickTarget :: "(nat \<Rightarrow> nat) \<Rightarrow> bool \<Rightarrow> kvClient \<Rightarrow> bytes" where
  "pickTarget intn isWrite c =
     (if isWrite then kc_leaderAddr c
      else if length (kc_followers c) > 0 then kc_followers c ! intn (length (kc_followers c))
      else kc_leaderAddr c)"

fun execute_loop :: "nat \<Rightarrow> (nat \<Rightarrow> nat \<Rightarrow> nat) \<Rightarrow> (nat \<Rightarrow> bytes \<Rightarrow> dialed) \<Rightarrow> bool \<Rightarrow> Message \<Rightarrow> kvClient \<Rightarrow>
    (CliError, Message) go \<times> kvClient" where
  "execute_loop 0 rnd dials isWrite msg c = (Err Unavailable, c)"
| "execute_loop (Suc i) rnd dials isWrite msg c =
     (let target = pickTarget (rnd i) isWrite c
      in if target = []
         then (case waitForLeader dials (emit (ColorYellow @ ''(discovering leader...)'' @ ColorReset @ newline) c) of
                 (Err e, c) \<Rightarrow> (Err e, c)
               | (Panic, c) \<Rightarrow> (Panic, c)
               | (Ok _, c) \<Rightarrow> execute_loop i rnd dials isWrite msg c)
         else let d = dials (kc_dials c) target;
                  c = c\<lparr>kc_dials := kc_dials c + 1\<rparr>
              in case sendToNode d msg of
                   Ok resp \<Rightarrow> (Ok resp, c)
                 | Panic \<Rightarrow> (Panic, c)
                 | Err e \<Rightarrow>
                     (let c = emit (ColorYellow @ ''(node '' @ text_of target @ '' unreachable, re-discovering cluster...)'' @
                            ColorReset @ newline) c
                      in case waitForLeader dials (c\<lparr>kc_leaderAddr := []\<rparr>) of
                           (Panic, c) \<Rightarrow> (Panic, c)
                         | (_, c) \<Rightarrow> execute_loop i rnd dials isWrite msg c))"

definition execute :: "(nat \<Rightarrow> nat \<Rightarrow> nat) \<Rightarrow> (nat \<Rightarrow> bytes \<Rightarrow> dialed) \<Rightarrow> Message \<Rightarrow> kvClient \<Rightarrow> (CliError, Message) go \<times> kvClient" where
  "execute rnd dials msg c =
     (let isWrite = (OpCode msg = OpSet \<or> OpCode msg = OpDelete) in execute_loop 8 rnd dials isWrite msg c)"

section \<open>Commands\<close>

datatype CommandError = Usage string | UnknownCommand string

definition parseCommand :: "string \<Rightarrow> (CommandError, Message) go" where
  "parseCommand input =
     (case Fields input of
        [] \<Rightarrow> Panic
      | cmd # args \<Rightarrow>
          (if ToUpper cmd = ''GET''
           then (if length (cmd # args) \<noteq> 2 then Err (Usage ''usage: GET <key>'')
                 else Ok (MGetRequest \<lparr>gr_Key = str (hd args)\<rparr>))
           else if ToUpper cmd = ''SET''
           then (if length (cmd # args) < 3 then Err (Usage ''usage: SET <key> <value>'')
                 else Ok (MSetRequest \<lparr>sr_Key = str (hd args), sr_Value = str (Join (tl args)), sr_TTL = 0\<rparr>))
           else if ToUpper cmd = ''DEL''
           then (if length (cmd # args) \<noteq> 2 then Err (Usage ''usage: DEL <key>'')
                 else Ok (MDeleteRequest \<lparr>dr_Key = str (hd args)\<rparr>))
           else Err (UnknownCommand cmd)))"

text \<open>What the loop of \<open>main\<close> does with a line.\<close>

datatype repl_action = Skip | Goodbye | ShowTopology | BadCommand CommandError | Request Message | Crash

definition repl_line :: "string \<Rightarrow> repl_action" where
  "repl_line input =
     (let command = TrimSpace input
      in if command = [] then Skip
         else if ToLower command = ''exit'' \<or> ToLower command = ''quit'' then Goodbye
         else if ToLower command = ''topology'' then ShowTopology
         else case parseCommand command of
                Err e \<Rightarrow> BadCommand e
              | Ok msg \<Rightarrow> Request msg
              | Panic \<Rightarrow> Crash)"

text \<open>The seed of \<open>main\<close>: the flag, else \<open>KV_ADDR\<close>, else the default.\<close>

definition main_seed :: "string \<Rightarrow> (string \<Rightarrow> string) \<Rightarrow> string" where
  "main_seed url env =
     (let seed = ''localhost:6379''
      in if url \<noteq> [] then url else let v = env ''KV_ADDR'' in if v \<noteq> [] then v else seed)"

section \<open>Output\<close>

fun printResponse :: "Message \<Rightarrow> string" where
  "printResponse (MGetResponse r) =
     (if gs_Found r then ColorCyan @ ColorBold @ [CHR 0x22] @ text_of (gs_Value r) @ [CHR 0x22] @ ColorReset @ newline
      else ColorYellow @ ''(nil)'' @ ColorReset @ newline)"
| "printResponse (MSetResponse r) =
     (if ss_Success r then ColorGreen @ text_of (ss_Message r) @ ColorReset @ newline
      else ColorRed @ ColorBold @ text_of (ss_Message r) @ ColorReset @ newline)"
| "printResponse (MDeleteResponse r) =
     (if ds_Success r then ColorGreen @ text_of (ds_Message r) @ ColorReset @ newline
      else ColorYellow @ text_of (ds_Message r) @ ColorReset @ newline)"
| "printResponse (MErrorMessage r) =
     ColorRed @ ColorBold @ ''ERR ['' @ show_nat (unat (em_Code r)) @ '']: '' @ text_of (em_Message r) @ ColorReset @ newline"
| "printResponse msg = ColorRed @ ''(unexpected opcode 0x'' @ hex02 (OpCode msg) @ '')'' @ ColorReset @ newline"

fun follower_lines :: "nat \<Rightarrow> bytes list \<Rightarrow> string" where
  "follower_lines i [] = []"
| "follower_lines i (f # fs) = ''  Follower'' @ show_nat (i + 1) @ '': '' @ text_of f @ newline @ follower_lines (i + 1) fs"

definition printTopology :: "kvClient \<Rightarrow> string" where
  "printTopology c =
     ''  Leader:    '' @ ColorBold @ text_of (kc_leaderAddr c) @ ColorReset @ newline @ follower_lines 0 (kc_followers c)"

section \<open>The process\<close>

text \<open>How a process ends: an exit status with all it has printed, or a panic.\<close>

datatype process = Exited nat string | Crashed

text \<open>The verb \<open>%q\<close>, on ASCII text.\<close>

definition quote_char :: "char \<Rightarrow> string" where
  "quote_char c =
     (let n = (of_char c :: nat); hex = (\<lambda>d. ''0123456789abcdef'' ! d)
      in if c = CHR 0x22 \<or> c = CHR 0x5C then [CHR 0x5C, c]
         else if n = 7 then [CHR 0x5C, CHR ''a''] else if n = 8 then [CHR 0x5C, CHR ''b'']
         else if n = 12 then [CHR 0x5C, CHR ''f''] else if n = 10 then [CHR 0x5C, CHR ''n'']
         else if n = 13 then [CHR 0x5C, CHR ''r''] else if n = 9 then [CHR 0x5C, CHR ''t'']
         else if n = 11 then [CHR 0x5C, CHR ''v'']
         else if n < 32 \<or> n = 127 then [CHR 0x5C, CHR ''x'', hex (n div 16), hex (n mod 16)]
         else [c])"

definition Quote :: "string \<Rightarrow> string" where
  "Quote s = [CHR 0x22] @ concat (map quote_char s) @ [CHR 0x22]"

fun CommandError_text :: "CommandError \<Rightarrow> string" where
  "CommandError_text (Usage txt) = txt"
| "CommandError_text (UnknownCommand cmd) =
     ''unknown command '' @ Quote cmd @ '' '' @ em_dash @ '' available: GET, SET, DEL, topology''"

definition printError :: "string \<Rightarrow> string \<Rightarrow> string" where
  "printError msg err = newline @ ColorRed @ msg @ '': '' @ err @ ColorReset @ newline"

definition red_line :: "string \<Rightarrow> string" where
  "red_line txt = ColorRed @ txt @ ColorReset @ newline"

text \<open>The verb \<open>%v\<close> for a list of addresses.\<close>

definition show_list :: "bytes list \<Rightarrow> string" where
  "show_list xs = ''['' @ Join (map text_of xs) @ '']''"

text \<open>\<open>ReadString\<close> of a \<open>bufio.Reader\<close> up to a newline: the line with its end and the rest of the input, or \<open>None\<close>
  when the input ends first; the loop does not use what is left of it then.\<close>

definition ReadString :: "string \<Rightarrow> (string \<times> string) option" where
  "ReadString input =
     (case dropWhile (\<lambda>c. c \<noteq> CHR 0x0A) input of
        [] \<Rightarrow> None
      | c # rest \<Rightarrow> Some (takeWhile (\<lambda>c. c \<noteq> CHR 0x0A) input @ [c], rest))"

lemma ReadString_shorter: "ReadString input = Some (line, rest) \<Longrightarrow> length rest < length input"
  using length_dropWhile_le [of "\<lambda>c. c \<noteq> CHR 0x0A" input]
  by (auto simp: ReadString_def split: list.splits)

definition prompt :: string where
  "prompt = ColorCyan @ ''kv-db: '' @ ColorReset"

text \<open>The loop of \<open>main\<close>; \<open>endErr\<close> is the error at the end of the input, \<open>k\<close> counts the commands sent.\<close>

function repl :: "(nat \<Rightarrow> nat \<Rightarrow> nat \<Rightarrow> nat) \<Rightarrow> (nat \<Rightarrow> bytes \<Rightarrow> dialed) \<Rightarrow> IOError \<Rightarrow> nat \<Rightarrow> string \<Rightarrow> kvClient \<Rightarrow> process" where
  "repl rnds dials endErr k input c =
     (let c = emit prompt c
      in case ReadString input of
           None \<Rightarrow> Exited 0 (kc_out (emit (newline @ red_line (''Error reading input: '' @ ProtoError_text (IO endErr))) c))
         | Some (line, rest) \<Rightarrow>
             (case repl_line line of
                Skip \<Rightarrow> repl rnds dials endErr k rest c
              | Goodbye \<Rightarrow> Exited 0 (kc_out (emit (''Goodbye!'' @ newline) c))
              | ShowTopology \<Rightarrow> repl rnds dials endErr k rest (emit (printTopology c) c)
              | BadCommand e \<Rightarrow> repl rnds dials endErr k rest (emit (red_line (CommandError_text e)) c)
              | Crash \<Rightarrow> Crashed
              | Request msg \<Rightarrow>
                  (case execute (rnds k) dials msg c of
                     (Panic, c) \<Rightarrow> Crashed
                   | (Err e, c) \<Rightarrow> repl rnds dials endErr (k + 1) rest (emit (red_line (CliError_text e)) c)
                   | (Ok resp, c) \<Rightarrow> repl rnds dials endErr (k + 1) rest (emit (printResponse resp) c))))"
  by pat_completeness auto

termination repl
  by (relation "measure (\<lambda>(rnds, dials, endErr, k, input, c). length input)") (auto dest!: ReadString_shorter)

declare repl.simps [simp del]

definition connecting_line :: "string \<Rightarrow> string" where
  "connecting_line seed = ColorCyan @ ColorBold @ ''Connecting to cluster via '' @ seed @ ''...'' @ ColorReset @ newline"

definition ready_line :: "kvClient \<Rightarrow> string" where
  "ready_line c = ColorGreen @ ''Cluster ready.'' @ ColorReset @ ''  Leader: '' @ ColorBold @ text_of (kc_leaderAddr c) @
     ColorReset @ ''  Followers: '' @ show_list (kc_followers c) @ newline @ newline"

definition cli_main :: "string \<Rightarrow> (string \<Rightarrow> string) \<Rightarrow> (nat \<Rightarrow> nat \<Rightarrow> nat \<Rightarrow> nat) \<Rightarrow> (nat \<Rightarrow> bytes \<Rightarrow> dialed) \<Rightarrow> string \<Rightarrow> IOError \<Rightarrow> process" where
  "cli_main url env rnds dials input endErr =
     (let seed = main_seed url env;
          c = emit (connecting_line seed) (newClient (str seed))
      in case waitForLeader dials c of
           (Panic, c) \<Rightarrow> Crashed
         | (Err e, c) \<Rightarrow> Exited 1 (kc_out (emit (red_line (''Failed to discover cluster: '' @ CliError_text e)) c))
         | (Ok _, c) \<Rightarrow> repl rnds dials endErr 0 input (emit (ready_line c) c))"

section \<open>Lemmas\<close>

text \<open>What a client that dials a server receives for one request on a fresh connection \<open>c\<close>.\<close>

definition answer :: "TCPServer \<Rightarrow> NodeEnv \<Rightarrow> conn \<Rightarrow> Node \<Rightarrow> Message \<Rightarrow> bytes" where
  "answer s ne c n msg =
     (case EncodeFrame msg of
        Ok f \<Rightarrow>
          (case handleConnection s (\<lambda>_. ne) c \<lparr>rd_data = f, rd_end = EOF\<rparr> n of
             Returns _ n' \<Rightarrow> net_sent (nd_net n') c
           | _ \<Rightarrow> [])
      | _ \<Rightarrow> [])"

lemma handleConnection_one:
  assumes "Frame_valid msg" and "within_limit (ts_maxPayloadBytes s) msg" and "EncodeFrame msg = Ok f"
    and "OpCode msg \<noteq> OpReplicationJoin" and "OpCode msg \<noteq> OpHeartbeat" and "OpCode msg \<noteq> OpVoteRequest"
    and "dispatchClient ne c msg n = Returns (Inr ()) n'"
  shows "handleConnection s (\<lambda>_. ne) c \<lparr>rd_data = f, rd_end = EOF\<rparr> n = Returns (Inr ()) (close_conn c n')"
proof -
  have "client_loop s (\<lambda>_. ne) 1 c \<lparr>rd_data = [], rd_end = EOF\<rparr> n' = Returns (Inr ()) (close_conn c n')"
    by (subst client_loop.simps) (simp add: readMessage_EOF)
  with readMessage_frame [OF assms(1-3), of ne c "[]" EOF n] assms(4-7) show ?thesis
    by (simp add: handleConnection_def)
qed

lemma receive_frame: "Frame_valid m \<Longrightarrow> EncodeFrame m = Ok f \<Longrightarrow> receiveMessage \<lparr>rd_data = f, rd_end = EOF\<rparr> = Ok m"
  using ReadFrame_EncodeFrame [of m 0 f "[]" EOF] by (simp add: receiveMessage_def within_limit_def)

lemma sendMessage_ok: "Frame_valid m \<Longrightarrow> sendMessage WriteOk m = Ok ()"
  by (rule Frame_validE [of m]) (simp_all add: sendMessage_def WriteFrame_def)

text \<open>The messages of a node that raft has told of no leader and no peers.\<close>

lemma topology_request_valid: "Frame_valid (MTopologyRequest ())" "0 < l \<Longrightarrow> within_limit l (MTopologyRequest ())"
proof -
  have "EncodeMessage (MTopologyRequest ()) = Ok [OpTopologyRequest]"
    by (simp add: EncodeMessage_layout TopologyRequest_Encode_def)
  then show "Frame_valid (MTopologyRequest ())" "0 < l \<Longrightarrow> within_limit l (MTopologyRequest ())"
    by (simp_all add: Frame_valid_def within_limit_def word_less_nat_alt)
qed

lemma empty_topology_valid: "Frame_valid (MTopologyResponse \<lparr>tr_LeaderAddr = [], tr_Nodes = []\<rparr>)"
  by (simp add: Frame_valid_def EncodeMessage_layout TopologyResponse_valid_def TopologyResponse_Encode_layout)

lemma connect_no_leader:
  assumes "\<And>i. fetchTopology (dials i seed) = Ok \<lparr>tr_LeaderAddr = [], tr_Nodes = []\<rparr>"
    and "kc_knownAddrs c = [seed]" and "kc_leaderAddr c = []" and "kc_followers c = []"
  shows "connect dials c = (Err NoTopology, c\<lparr>kc_dials := kc_dials c + 1\<rparr>)"
  using assms by (cases c) (simp add: connect_def Let_def)

lemma waitForLeader_no_leader:
  assumes "\<And>i. fetchTopology (dials i seed) = Ok \<lparr>tr_LeaderAddr = [], tr_Nodes = []\<rparr>"
    and "kc_knownAddrs c = [seed]" and "kc_leaderAddr c = []" and "kc_followers c = []"
  shows "waitForLeader_loop k dials c = (Err NoLeader, c\<lparr>kc_dials := kc_dials c + k\<rparr>)"
  using assms(2-4)
proof (induction k arbitrary: c)
  case (Suc k)
  with connect_no_leader [where dials = dials, OF assms(1) Suc.prems] show ?case by simp
qed simp

text \<open>Lines of words.\<close>

definition word :: "string \<Rightarrow> bool" where
  "word w \<longleftrightarrow> w \<noteq> [] \<and> list_all (\<lambda>c. \<not> is_space c) w"

lemma is_space_blank: "is_space (CHR '' '')"
  by (simp add: is_space_def)

lemma word_map: "word w \<Longrightarrow> map (\<lambda>c. if is_space c then CHR '' '' else c) w = w"
  by (simp add: word_def list_all_iff map_idI)

lemma Split_word: "CHR '' '' \<notin> set w \<Longrightarrow> Split (w @ CHR '' '' # s) (CHR '' '') = w # Split s (CHR '' '')"
  "CHR '' '' \<notin> set w \<Longrightarrow> Split w (CHR '' '') = [w]"
  by (induction w) auto

lemma word_no_space: "word w \<Longrightarrow> CHR '' '' \<notin> set w"
  by (auto simp: word_def list_all_iff is_space_def)

lemma Fields_word: "word w \<Longrightarrow> Fields (w @ CHR '' '' # s) = w # Fields s" "word w \<Longrightarrow> Fields w = [w]"
  using word_no_space [of w] word_map [of w] by (simp_all add: Fields_def Split_word is_space_blank) (simp_all add: word_def)

lemma TrimSpace_line:
  assumes "s \<noteq> []" and "\<not> is_space (hd s)" and "\<not> is_space (last s)"
  shows "TrimSpace (s @ newline) = s"
proof -
  have "dropWhile is_space (s @ newline) = s @ newline" using assms(1,2) by (cases s) simp_all
  moreover have "dropWhile is_space (rev (s @ newline)) = rev s"
    using assms(1,3) by (cases s rule: rev_cases) (simp_all add: newline_def is_space_def)
  ultimately show ?thesis by (simp add: TrimSpace_def)
qed

lemma word_ends: "word w \<Longrightarrow> \<not> is_space (hd w)" "word w \<Longrightarrow> \<not> is_space (last w)"
  by (auto simp: word_def list_all_iff)

lemma repl_line_commands:
  assumes "word k" and "word v"
  shows "repl_line (''SET '' @ k @ '' '' @ v @ newline) = Request (MSetRequest \<lparr>sr_Key = str k, sr_Value = str v, sr_TTL = 0\<rparr>)"
    and "repl_line (''GET '' @ k @ newline) = Request (MGetRequest \<lparr>gr_Key = str k\<rparr>)"
proof -
  have w: "word ''SET''" "word ''GET''" by (simp_all add: word_def is_space_def)
  have ne: "k \<noteq> []" "v \<noteq> []" using assms by (simp_all add: word_def)
  have "TrimSpace ((''SET '' @ k @ '' '' @ v) @ newline) = ''SET '' @ k @ '' '' @ v"
    using word_ends(2) [OF assms(2)] ne by (intro TrimSpace_line) (simp_all add: is_space_def)
  moreover have "Fields (''SET '' @ k @ '' '' @ v) = [''SET'', k, v]"
    using Fields_word(1) [OF w(1), of "k @ '' '' @ v"] Fields_word(1) [OF assms(1), of v] Fields_word(2) [OF assms(2)] by simp
  ultimately show "repl_line (''SET '' @ k @ '' '' @ v @ newline) = Request (MSetRequest \<lparr>sr_Key = str k, sr_Value = str v, sr_TTL = 0\<rparr>)"
    by (simp add: repl_line_def parseCommand_def ToLower_def ToUpper_def lower_char_def upper_char_def)
  have "TrimSpace ((''GET '' @ k) @ newline) = ''GET '' @ k"
    using word_ends(2) [OF assms(1)] ne by (intro TrimSpace_line) (simp_all add: is_space_def)
  moreover have "Fields (''GET '' @ k) = [''GET'', k]"
    using Fields_word(1) [OF w(2), of k] Fields_word(2) [OF assms(1)] by simp
  ultimately show "repl_line (''GET '' @ k @ newline) = Request (MGetRequest \<lparr>gr_Key = str k\<rparr>)"
    by (simp add: repl_line_def parseCommand_def ToLower_def ToUpper_def lower_char_def upper_char_def)
qed

lemma ReadString_line: "CHR 0x0A \<notin> set s \<Longrightarrow> ReadString (s @ newline @ rest) = Some (s @ newline, rest)"
  by (simp add: ReadString_def newline_def takeWhile_append2 dropWhile_append2 del: append_assoc flip: append_assoc)
    (auto simp: takeWhile_append dropWhile_append)

text \<open>A line that is not empty has a first word, so that \<open>parts[0]\<close> is there.\<close>

lemma Split_set: "concat (Split s sep) = filter (\<lambda>c. c \<noteq> sep) s"
  by (induction s sep rule: Split.induct) (auto split: list.splits)

lemma repl_line_no_crash: "repl_line input \<noteq> Crash"
proof
  assume c: "repl_line input = Crash"
  let ?s = "TrimSpace input"
  from c have n: "?s \<noteq> []" "Fields ?s = []"
    by (auto simp: repl_line_def parseCommand_def Let_def split: if_splits list.splits go.splits)
  have "\<not> is_space (hd (rev ?s))"
    using n(1) hd_dropWhile [of is_space "rev (dropWhile is_space input)"] by (simp add: TrimSpace_def)
  then have l: "last ?s \<in> set ?s" "\<not> is_space (last ?s)" using n(1) by (simp_all add: hd_rev)
  then have "last ?s \<in> set (concat (Split (map (\<lambda>c. if is_space c then CHR '' '' else c) ?s) (CHR '' '')))"
    unfolding Split_set by (force simp: is_space_def image_iff)
  with n(2) show False by (auto simp: Fields_def filter_empty_conv)
qed

text \<open>What dialling the server gives, and the node after the connection.\<close>

definition reply_of :: "TCPServer \<Rightarrow> NodeEnv \<Rightarrow> conn \<Rightarrow> Node \<Rightarrow> Message \<Rightarrow> dialed" where
  "reply_of s ne c n msg = Inr (WriteOk, \<lparr>rd_data = answer s ne c n msg, rd_end = EOF\<rparr>)"

definition node_after :: "TCPServer \<Rightarrow> NodeEnv \<Rightarrow> conn \<Rightarrow> Node \<Rightarrow> Message \<Rightarrow> Node" where
  "node_after s ne c n msg =
     (case EncodeFrame msg of
        Ok f \<Rightarrow> (case handleConnection s (\<lambda>_. ne) c \<lparr>rd_data = f, rd_end = EOF\<rparr> n of Returns _ n' \<Rightarrow> n' | _ \<Rightarrow> n)
      | _ \<Rightarrow> n)"

lemma one_call:
  assumes "Frame_valid msg" and "within_limit (ts_maxPayloadBytes s) msg"
    and "OpCode msg \<noteq> OpReplicationJoin" and "OpCode msg \<noteq> OpHeartbeat" and "OpCode msg \<noteq> OpVoteRequest"
    and "dispatchClient ne c msg n = Returns (Inr ()) (snd (writeMessage ne c resp n'))" and "Frame_valid resp" and "fresh_conn ne c n'"
  shows "receiveMessage \<lparr>rd_data = answer s ne c n msg, rd_end = EOF\<rparr> = Ok resp"
    and "node_after s ne c n msg = close_conn c (snd (writeMessage ne c resp n'))"
proof -
  obtain f where f: "EncodeFrame msg = Ok f" using assms(1) by (rule Frame_validE) blast
  obtain g where g: "EncodeFrame resp = Ok g" using assms(7) by (rule Frame_validE) blast
  note h = handleConnection_one [OF assms(1,2) f assms(3-6)]
  then have "answer s ne c n msg = g"
    using writeMessage_fresh [OF assms(8) g] by (simp add: answer_def f)
  then show "receiveMessage \<lparr>rd_data = answer s ne c n msg, rd_end = EOF\<rparr> = Ok resp"
    using receive_frame [OF assms(7) g] by simp
  show "node_after s ne c n msg = close_conn c (snd (writeMessage ne c resp n'))"
    using h by (simp add: node_after_def f)
qed

lemma command_call:
  assumes "is_command msg" and "Frame_valid msg" and "within_limit (ts_maxPayloadBytes s) msg"
    and "Dispatch the_handlers msg (node_store ne) n = Returns (Inr resp) n'" and "Frame_valid resp" and "fresh_conn ne c n'"
  shows "sendToNode (reply_of s ne c n msg) msg = Ok resp"
    and "node_after s ne c n msg = close_conn c (snd (writeMessage ne c resp n'))"
proof -
  have op: "OpCode msg \<noteq> OpReplicationJoin" "OpCode msg \<noteq> OpHeartbeat" "OpCode msg \<noteq> OpVoteRequest" "OpCode msg \<noteq> OpTopologyRequest"
    using assms(1) by (cases msg; simp add: opcode_defs)+
  have "dispatchClient ne c msg n = Returns (Inr ()) (snd (writeMessage ne c resp n'))"
    using assms(4) op(4) by (simp add: dispatchClient_def dispatchToEngine_def)
  note o = one_call [OF assms(2,3) op(1-3) this assms(5,6)]
  show "sendToNode (reply_of s ne c n msg) msg = Ok resp"
    using o(1) sendMessage_ok [OF assms(2)] by (simp add: sendToNode_def reply_of_def)
  show "node_after s ne c n msg = close_conn c (snd (writeMessage ne c resp n'))" by (rule o(2))
qed

lemma topology_call:
  assumes "within_limit (ts_maxPayloadBytes s) (MTopologyRequest ())" and "fresh_conn ne c n"
    and "Frame_valid (MTopologyResponse (GetTopology n))"
  shows "fetchTopology (reply_of s ne c n (MTopologyRequest ())) = Ok (GetTopology n)"
    and "node_after s ne c n (MTopologyRequest ()) = close_conn c (snd (writeMessage ne c (MTopologyResponse (GetTopology n)) n))"
proof -
  have "dispatchClient ne c (MTopologyRequest ()) n = Returns (Inr ()) (snd (writeMessage ne c (MTopologyResponse (GetTopology n)) n))"
    by (simp add: dispatchClient_def)
  note o = one_call [OF topology_request_valid(1) assms(1) _ _ _ this assms(3,2)]
  show "fetchTopology (reply_of s ne c n (MTopologyRequest ())) = Ok (GetTopology n)"
    using o(1) sendMessage_ok [OF topology_request_valid(1)] by (simp add: fetchTopology_def reply_of_def opcode_defs)
  show "node_after s ne c n (MTopologyRequest ()) = close_conn c (snd (writeMessage ne c (MTopologyResponse (GetTopology n)) n))"
    using o(2) by (simp add: opcode_defs)
qed

lemma fresh_conn_other:
  "c \<noteq> d \<Longrightarrow> fresh_conn ne c (close_conn d (snd (writeMessage ne' d m n))) = fresh_conn ne c n"
  by (simp add: fresh_conn_def close_conn_def conn_close_def writeMessage_def Let_def split: prod.splits)

text \<open>A cluster of one node, which leads it.\<close>

definition sole_leader :: "bytes \<Rightarrow> Node \<Rightarrow> bool" where
  "sole_leader addr n \<longleftrightarrow> node_inv n \<and> rf_leaderAddr (nd_raft n) = addr \<and> rf_peers (nd_raft n) = [addr] \<and>
     (\<exists>l. nd_leader n = Some l \<and> ld_followers l = [])"

lemma sole_leader_output [simp]:
  "sole_leader addr (close_conn c (snd (writeMessage ne c m n))) = sole_leader addr n"
  by (simp add: sole_leader_def node_inv_def)

lemma sole_leader_topology:
  assumes "sole_leader addr n" and "length addr < 65536"
  shows "GetTopology n = \<lparr>tr_LeaderAddr = addr, tr_Nodes = [\<lparr>ni_Address = addr, ni_Role = TopologyRoleLeader, ni_NodeID = addr\<rparr>]\<rparr>"
    and "Frame_valid (MTopologyResponse (GetTopology n))"
proof -
  show t: "GetTopology n = \<lparr>tr_LeaderAddr = addr, tr_Nodes = [\<lparr>ni_Address = addr, ni_Role = TopologyRoleLeader, ni_NodeID = addr\<rparr>]\<rparr>"
    using assms(1) by (simp add: sole_leader_def GetTopology_def GetLeaderAddr_def GetPeers_def Let_def)
  show "Frame_valid (MTopologyResponse (GetTopology n))"
    using assms(2) by (simp add: t Frame_valid_def EncodeMessage_layout TopologyResponse_valid_def NodeInfo_valid_def
        TopologyResponse_Encode_layout node_layout_def)
qed

lemma broadcast_nobody:
  "ld_followers l = [] \<Longrightarrow> broadcast ord outs msg l net = Some (l', net') \<Longrightarrow> l' = l \<and> net' = net"
  by (auto simp: broadcast_def in_order_def split: go.splits)

lemma sole_leader_set:
  assumes "sole_leader addr n" and "SetWithExpiry (ne_env ne) key val (ne_now ne + nd_defaultTTL n) (nd_db n) = Returns (Inr ()) db"
  shows "\<exists>n'. Dispatch the_handlers (MSetRequest \<lparr>sr_Key = key, sr_Value = val, sr_TTL = 0\<rparr>) (node_store ne) n =
      Returns (Inr (MSetResponse \<lparr>ss_Success = True, ss_Message = str ''OK''\<rparr>)) n' \<and>
    sole_leader addr n' \<and> nd_net n' = nd_net n \<and>
    contents (nd_db n') key = Some \<lparr>rc_value = val, rc_createdAt = env_now (ne_env ne), rc_expiredAt = ne_now ne + nd_defaultTTL n\<rparr>"
proof -
  obtain l where l: "nd_leader n = Some l" "ld_followers l = []" and i: "node_inv n" using assms(1) by (auto simp: sole_leader_def)
  have e: "Node_Set_expiry ne 0 n = ne_now ne + nd_defaultTTL n" by (simp add: Node_Set_expiry_def)
  obtain n' where n': "Node_Set ne key val 0 n = Returns (Inr ()) n'" "nd_db n' = db" "node_inv n'" "nd_raft n' = nd_raft n"
    using Node_Set_returns [OF i, of ne key val 0] assms(2) e by auto
  have "ld_followers (the (nd_leader n')) = [] \<and> nd_leader n' \<noteq> None \<and> nd_net n' = nd_net n"
    using n'(1) assms(2) l e
    by (auto simp: Node_Set_def Node_Set_broadcast_def BroadcastSet_def Let_def dest!: broadcast_nobody [rotated] split: option.splits)
  with n' l assms SetWithExpiry_contents [OF _ assms(2)] i show ?thesis
    by (auto simp: node_store_def sole_leader_def node_inv_def)
qed

section \<open>Properties\<close>

lemma example_fresh: "fresh_conn example_node_env 5 (NewNode db ttl addr peers)" "fresh_conn example_node_env 5 (ForceLeader (NewNode db ttl addr peers))"
  by (simp_all add: fresh_conn_def example_node_env_def NewNode_def ForceLeader_def)

text \<open>One dial of the client: the first of an execution succeeds.\<close>

lemma execute_first:
  assumes "kc_leaderAddr c = addr" and "addr \<noteq> []" and "kc_followers c = []" and "sendToNode (dials (kc_dials c) addr) msg = Ok resp"
  shows "execute rnd dials msg c = (Ok resp, c\<lparr>kc_dials := kc_dials c + 1\<rparr>)"
  using assms by (simp add: execute_def pickTarget_def eval_nat_numeral Let_def)

lemma waitForLeader_sole:
  assumes "fetchTopology (dials (kc_dials c) addr) =
      Ok \<lparr>tr_LeaderAddr = addr, tr_Nodes = [\<lparr>ni_Address = addr, ni_Role = r, ni_NodeID = i\<rparr>]\<rparr>"
    and "kc_knownAddrs c = [addr]" and "addr \<noteq> []"
  shows "waitForLeader dials c = (Ok (), c\<lparr>kc_leaderAddr := addr, kc_followers := [], kc_dials := kc_dials c + 1\<rparr>)"
  using assms by (simp add: waitForLeader_def eval_nat_numeral connect_def note_node_def addKnown_def Let_def)

text \<open>One round of the loop with a command that is answered, and the last one.\<close>

lemma repl_answered:
  assumes "repl_line (l @ newline) = Request msg" and "CHR 0x0A \<notin> set l"
    and "kc_leaderAddr c = addr" and "addr \<noteq> []" and "kc_followers c = []" and "sendToNode (dials (kc_dials c) addr) msg = Ok resp"
  shows "repl rnds dials e k (l @ newline @ rest) c =
    repl rnds dials e (k + 1) rest (emit (prompt @ printResponse resp) (c\<lparr>kc_dials := kc_dials c + 1\<rparr>))"
proof -
  have "execute (rnds k) dials msg (emit prompt c) = (Ok resp, (emit prompt c)\<lparr>kc_dials := kc_dials c + 1\<rparr>)"
    using execute_first [of "emit prompt c" addr dials msg resp "rnds k"] assms(3-6) by (simp add: emit_def)
  then show ?thesis
    by (subst repl.simps) (simp add: Let_def ReadString_line [OF assms(2)] assms(1) emit_def)
qed

lemma repl_EOF: "repl rnds dials EOF k [] c = Exited 0 (kc_out c @ prompt @ newline @ red_line ''Error reading input: EOF'')"
  by (subst repl.simps) (simp add: ReadString_def emit_def)

lemma length_str [simp]: "length (str s) = length s"
  by (simp add: str_def)

lemma text_of_str [simp]: "text_of (str s) = s"
proof -
  have "unat (of_char c :: 8 word) = (of_char c :: nat)" for c
  proof -
    have "(of_char c :: 8 word) = of_nat (of_char c :: nat)" by (simp only: of_nat_of_char)
    then have "unat (of_char c :: 8 word) = unat (of_nat (of_char c :: nat) :: 8 word)" by (rule arg_cong)
    also have "\<dots> = of_char c mod 256" by (subst unat_of_nat) simp
    finally show ?thesis by simp
  qed
  then show ?thesis by (simp add: text_of_def str_def comp_def)
qed

lemma repl_set_get:
  assumes "word k" and "word v" and "kc_leaderAddr c = addr" and "addr \<noteq> []" and "kc_followers c = []"
    and "sendToNode (dials (kc_dials c) addr) (MSetRequest \<lparr>sr_Key = str k, sr_Value = str v, sr_TTL = 0\<rparr>) =
      Ok (MSetResponse \<lparr>ss_Success = True, ss_Message = str ''OK''\<rparr>)"
    and "sendToNode (dials (kc_dials c + 1) addr) (MGetRequest \<lparr>gr_Key = str k\<rparr>) = Ok (MGetResponse \<lparr>gs_Found = True, gs_Value = str v\<rparr>)"
  shows "repl rnds dials EOF 0 (''SET '' @ k @ '' '' @ v @ newline @ ''GET '' @ k @ newline) c =
    Exited 0 (kc_out c @ prompt @ ColorGreen @ ''OK'' @ ColorReset @ newline @
      prompt @ ColorCyan @ ColorBold @ [CHR 0x22] @ v @ [CHR 0x22] @ ColorReset @ newline @
      prompt @ newline @ red_line ''Error reading input: EOF'')"
proof -
  have nl: "CHR 0x0A \<notin> set (''SET '' @ k @ '' '' @ v)" "CHR 0x0A \<notin> set (''GET '' @ k)"
    using assms(1,2) by (auto simp: word_def list_all_iff is_space_def)
  have l: "repl_line ((''SET '' @ k @ '' '' @ v) @ newline) = Request (MSetRequest \<lparr>sr_Key = str k, sr_Value = str v, sr_TTL = 0\<rparr>)"
    "repl_line ((''GET '' @ k) @ newline) = Request (MGetRequest \<lparr>gr_Key = str k\<rparr>)"
    using repl_line_commands [OF assms(1,2)] by simp_all
  let ?c1 = "emit (prompt @ printResponse (MSetResponse \<lparr>ss_Success = True, ss_Message = str ''OK''\<rparr>)) (c\<lparr>kc_dials := kc_dials c + 1\<rparr>)"
  have c1: "kc_leaderAddr ?c1 = addr" "kc_followers ?c1 = []"
      "sendToNode (dials (kc_dials ?c1) addr) (MGetRequest \<lparr>gr_Key = str k\<rparr>) = Ok (MGetResponse \<lparr>gs_Found = True, gs_Value = str v\<rparr>)"
    using assms(3,5,7) by (simp_all add: emit_def)
  note 1 = repl_answered [where rnds = rnds and dials = dials and k = 0 and rest = "(''GET '' @ k) @ newline @ []", OF l(1) nl(1) assms(3-6)]
  note 2 = repl_answered [where rnds = rnds and dials = dials and k = 1 and rest = "[]", OF l(2) nl(2) c1(1) assms(4) c1(2,3)]
  show ?thesis
    using 1 2 by (simp add: repl_EOF) (simp add: emit_def)
qed

text \<open>Dials that a server answers one after the other: the \<open>i\<close>-th on its own connection, at its own time.\<close>

fun served_in_turn :: "TCPServer \<Rightarrow> (nat \<Rightarrow> NodeEnv) \<Rightarrow> (nat \<Rightarrow> conn) \<Rightarrow> (nat \<Rightarrow> bytes \<Rightarrow> dialed) \<Rightarrow> bytes \<Rightarrow> Node \<Rightarrow> nat \<Rightarrow>
    Message list \<Rightarrow> bool" where
  "served_in_turn s nes cs dials addr n i [] = True"
| "served_in_turn s nes cs dials addr n i (m # ms) \<longleftrightarrow>
     dials i addr = reply_of s (nes i) (cs i) n m \<and> within_limit (ts_maxPayloadBytes s) m \<and>
     served_in_turn s nes cs dials addr (node_after s (nes i) (cs i) n m) (i + 1) ms"

lemma served_set_get:
  assumes "served_in_turn s nes cs dials addr n i
      [MSetRequest \<lparr>sr_Key = key, sr_Value = val, sr_TTL = 0\<rparr>, MGetRequest \<lparr>gr_Key = key\<rparr>]"
    and "sole_leader addr n" and "SetWithExpiry (ne_env (nes i)) key val (ne_now (nes i) + nd_defaultTTL n) (nd_db n) = Returns (Inr ()) db"
    and "ne_now (nes (i + 1)) \<le> ne_now (nes i) + nd_defaultTTL n" and "length key < 65000" and "length val < 4294000000"
    and "inj cs" and "fresh_conn (nes i) (cs i) n" and "fresh_conn (nes (i + 1)) (cs (i + 1)) n"
  shows "sendToNode (dials i addr) (MSetRequest \<lparr>sr_Key = key, sr_Value = val, sr_TTL = 0\<rparr>) =
      Ok (MSetResponse \<lparr>ss_Success = True, ss_Message = str ''OK''\<rparr>)" (is ?set)
    and "sendToNode (dials (i + 1) addr) (MGetRequest \<lparr>gr_Key = key\<rparr>) = Ok (MGetResponse \<lparr>gs_Found = True, gs_Value = val\<rparr>)" (is ?get)
proof -
  let ?s = "MSetRequest \<lparr>sr_Key = key, sr_Value = val, sr_TTL = 0\<rparr>" and ?g = "MGetRequest \<lparr>gr_Key = key\<rparr>"
  let ?ok = "MSetResponse \<lparr>ss_Success = True, ss_Message = str ''OK''\<rparr>" and ?v = "MGetResponse \<lparr>gs_Found = True, gs_Value = val\<rparr>"
  have fv: "Frame_valid ?s" "Frame_valid ?g" "Frame_valid ?ok" "Frame_valid ?v"
    using assms(5,6)
    by (simp_all add: Frame_valid_def EncodeMessage_layout SetRequest_valid_def GetRequest_valid_def SetResponse_valid_def
        GetResponse_valid_def SetRequest_Encode_layout GetRequest_Encode_layout SetResponse_Encode_layout GetResponse_Encode_layout str_def)
  obtain n' where n': "Dispatch the_handlers ?s (node_store (nes i)) n = Returns (Inr ?ok) n'" "sole_leader addr n'" "nd_net n' = nd_net n"
    "contents (nd_db n') key = Some \<lparr>rc_value = val, rc_createdAt = env_now (ne_env (nes i)), rc_expiredAt = ne_now (nes i) + nd_defaultTTL n\<rparr>"
    using sole_leader_set [OF assms(2,3)] by blast
  have "fresh_conn (nes i) (cs i) n'" using assms(8) n'(3) by (simp add: fresh_conn_def)
  note c = command_call [OF _ fv(1) _ n'(1) fv(3) this, of s]
  show ?set using c(1) assms(1) by simp
  let ?n = "close_conn (cs i) (snd (writeMessage (nes i) (cs i) ?ok n'))"
  have ne: "cs (i + 1) \<noteq> cs i" using assms(7) by (simp add: inj_eq)
  have f: "fresh_conn (nes (i + 1)) (cs (i + 1)) n'" using assms(9) n'(3) by (simp add: fresh_conn_def)
  have "node_inv ?n" using n'(2) by (simp add: sole_leader_def node_inv_def)
  from Node_Get_returns [OF this, of "ne_now (nes (i + 1))" key] obtain db' where
    d: "Dispatch the_handlers ?g (node_store (nes (i + 1))) ?n = Returns (Inr ?v) (?n\<lparr>nd_db := db'\<rparr>)"
    using n'(4) assms(4) by (auto simp: node_store_def read_result_def)
  have "fresh_conn (nes (i + 1)) (cs (i + 1)) ?n" using f fresh_conn_other [OF ne] by simp
  then have "fresh_conn (nes (i + 1)) (cs (i + 1)) (?n\<lparr>nd_db := db'\<rparr>)" by (simp add: fresh_conn_def)
  from command_call(1) [OF _ fv(2) _ d fv(4) this, of s] show ?get
    using assms(1) c(2) by simp
qed


definition example_sole :: "bytes \<Rightarrow> Node" where
  "example_sole addr = (NewNode (example_store 8 NoEvict SyncNone) 100 addr [addr])\<lparr>nd_leader := Some newLeader,
     nd_raft := (NewRaftState addr [addr])\<lparr>rf_role := RoleLeader, rf_leaderAddr := addr\<rparr>\<rparr>"


end
