(* ===== verification/Bench_Client.thy ===== *)
theory Bench_Client
  imports Client
begin

text \<open>
  The client of the benchmarks: \<open>bench/client/client.go\<close>. A connection is persistent: it carries what its next
  writes meet and the bytes still to come, so a call that fails leaves it where the failure did.
  Deadlines are recorded; that one has passed shows in the outcome of a write or at the end of the
  bytes. \<open>dials i addr\<close> is what the \<open>i\<close>-th dial of the process, to \<open>addr\<close>, gives, and \<open>clock\<close> the readings of
  the clock.
\<close>

section \<open>Connections\<close>

type_synonym opened = "IOError + (nat \<Rightarrow> write_outcome) \<times> Reader"

record Conn =
  cn_outs :: "nat \<Rightarrow> write_outcome"
  cn_writes :: nat
  cn_sent :: bytes
  cn_reader :: Reader
  cn_deadline :: "gotime option"
  cn_closed :: bool

definition Dial :: "opened \<Rightarrow> (ProtoError, Conn) go" where
  "Dial raw =
     (case raw of
        Inl e \<Rightarrow> Err (IO e)
      | Inr (outs, r) \<Rightarrow>
          Ok \<lparr>cn_outs = outs, cn_writes = 0, cn_sent = [], cn_reader = r, cn_deadline = None, cn_closed = False\<rparr>)"

definition ErrClosed :: IOError where
  "ErrClosed = IOFailure ''use of closed network connection''"

definition Send :: "Message \<Rightarrow> Conn \<Rightarrow> (ProtoError, unit) go \<times> Conn" where
  "Send msg c =
     (if cn_closed c
      then (case EncodeFrame msg of Ok _ \<Rightarrow> Err (IO ErrClosed) | Err e \<Rightarrow> Err e | Panic \<Rightarrow> Panic, c)
      else let (res, sent) = WriteFrame (cn_outs c (cn_writes c)) (cn_sent c) msg
           in (res, c\<lparr>cn_sent := sent, cn_writes := cn_writes c + 1\<rparr>))"

definition Recv :: "Conn \<Rightarrow> (ProtoError, Message) go \<times> Conn" where
  "Recv c =
     (if cn_closed c then (Err (IO ErrClosed), c)
      else let (res, r) = ReadFrame the_registry (cn_reader c) 0 in (res, c\<lparr>cn_reader := r\<rparr>))"

definition SetDeadline :: "gotime \<Rightarrow> Conn \<Rightarrow> Conn" where
  "SetDeadline t c = (if cn_closed c then c else c\<lparr>cn_deadline := Some t\<rparr>)"

definition Close :: "Conn \<Rightarrow> Conn" where
  "Close c = c\<lparr>cn_closed := True\<rparr>"

definition Second :: duration where "Second = 1000000000"

definition Do :: "gotime \<Rightarrow> Message \<Rightarrow> duration \<Rightarrow> Conn \<Rightarrow> (ProtoError, Message) go \<times> Conn" where
  "Do now req opTimeout c =
     (let d = (if opTimeout \<le> 0 then 5 * Second else opTimeout);
          c = SetDeadline (now + d) c
      in case Send req c of
           (Err e, c) \<Rightarrow> (Err e, c)
         | (Panic, c) \<Rightarrow> (Panic, c)
         | (Ok _, c) \<Rightarrow> Recv c)"

section \<open>Discovery\<close>

datatype BenchError = CallFailed ProtoError | NotTopology byte | NoSeed | NoLeaderWithin duration

fun BenchError_text :: "BenchError \<Rightarrow> string" where
  "BenchError_text (CallFailed e) = ProtoError_text e"
| "BenchError_text (NotTopology op) = ''expected TopologyResponse, got 0x'' @ hex02 op"
| "BenchError_text NoSeed = ''no seed returned a topology with a leader''"
| "BenchError_text (NoLeaderWithin d) = ''no leader found within '' @ show_duration d"

text \<open>The deferred \<open>Close\<close> has no effect that is seen later: the connection is not returned.\<close>

definition FetchTopology :: "gotime \<Rightarrow> opened \<Rightarrow> (BenchError, TopologyResponse) go" where
  "FetchTopology now raw =
     (case Dial raw of
        Err e \<Rightarrow> Err (CallFailed e)
      | Panic \<Rightarrow> Panic
      | Ok c \<Rightarrow>
          (let c = SetDeadline (now + 3 * Second) c
           in case Send (MTopologyRequest ()) c of
                (Err e, c) \<Rightarrow> Err (CallFailed e)
              | (Panic, c) \<Rightarrow> Panic
              | (Ok _, c) \<Rightarrow>
                  (case fst (Recv c) of
                     Err e \<Rightarrow> Err (CallFailed e)
                   | Panic \<Rightarrow> Panic
                   | Ok msg \<Rightarrow> (case msg of MTopologyResponse topo \<Rightarrow> Ok topo | _ \<Rightarrow> Err (NotTopology (OpCode msg))))))"

text \<open>The leader and the peers, or the error after all seeds, and the number of dials so far. \<open>nows i\<close> is the
  time of the \<open>i\<close>-th dial.\<close>

fun DiscoverLeader :: "(nat \<Rightarrow> gotime) \<Rightarrow> (nat \<Rightarrow> bytes \<Rightarrow> opened) \<Rightarrow> nat \<Rightarrow> bytes list \<Rightarrow>
    (BenchError, bytes \<times> bytes list) go \<times> nat" where
  "DiscoverLeader nows dials i [] = (Err NoSeed, i)"
| "DiscoverLeader nows dials i (seed # seeds) =
     (case FetchTopology (nows i) (dials i seed) of
        Panic \<Rightarrow> (Panic, i + 1)
      | Err e \<Rightarrow> DiscoverLeader nows dials (i + 1) seeds
      | Ok topo \<Rightarrow>
          (if tr_LeaderAddr topo = [] then DiscoverLeader nows dials (i + 1) seeds
           else (Ok (tr_LeaderAddr topo, map ni_Address (tr_Nodes topo)), i + 1)))"

text \<open>The loop of \<open>WaitForLeader\<close>: \<open>clock j\<close> is the \<open>j\<close>-th reading. A clock that never reaches the deadline, with no leader in
  sight, keeps it running: \<open>None\<close>.\<close>

partial_function (option) WaitForLeader_loop :: "(nat \<Rightarrow> gotime) \<Rightarrow> (nat \<Rightarrow> gotime) \<Rightarrow> (nat \<Rightarrow> bytes \<Rightarrow> opened) \<Rightarrow> bytes list \<Rightarrow>
    duration \<Rightarrow> gotime \<Rightarrow> nat \<Rightarrow> nat \<Rightarrow> ((BenchError, bytes \<times> bytes list) go \<times> nat) option" where
  "WaitForLeader_loop clock nows dials seeds maxWait deadline j i =
     (if clock j < deadline
      then case DiscoverLeader nows dials i seeds of
             (Ok x, i) \<Rightarrow> Some (Ok x, i)
           | (Panic, i) \<Rightarrow> Some (Panic, i)
           | (Err e, i) \<Rightarrow> WaitForLeader_loop clock nows dials seeds maxWait deadline (j + 1) i
      else Some (Err (NoLeaderWithin maxWait), i))"

definition WaitForLeader :: "(nat \<Rightarrow> gotime) \<Rightarrow> (nat \<Rightarrow> gotime) \<Rightarrow> (nat \<Rightarrow> bytes \<Rightarrow> opened) \<Rightarrow> bytes list \<Rightarrow> duration \<Rightarrow> nat \<Rightarrow>
    ((BenchError, bytes \<times> bytes list) go \<times> nat) option" where
  "WaitForLeader clock nows dials seeds maxWait i =
     (let deadline = clock 0 + maxWait in WaitForLeader_loop clock nows dials seeds maxWait deadline 1 i)"

section \<open>Lemmas\<close>

text \<open>A call on an open connection whose answer is there: the request is written, the answer is read, the rest stays.\<close>

definition conn_ready :: "Conn \<Rightarrow> bool" where
  "conn_ready c \<longleftrightarrow> \<not> cn_closed c \<and> (\<forall>i. cn_outs c i = WriteOk)"

lemma Do_answered:
  assumes "conn_ready c" and "EncodeFrame req = Ok f" and "EncodeFrame resp = Ok g" and "Frame_valid resp"
    and "cn_reader c = \<lparr>rd_data = g @ rest, rd_end = e\<rparr>"
  shows "\<exists>c'. Do now req t c = (Ok resp, c') \<and> conn_ready c' \<and> cn_sent c' = cn_sent c @ f \<and> cn_reader c' = \<lparr>rd_data = rest, rd_end = e\<rparr>"
  using assms ReadFrame_EncodeFrame [OF assms(4) _ assms(3), of 0 rest e]
  by (simp add: Do_def SetDeadline_def Send_def Recv_def WriteFrame_def conn_ready_def within_limit_def Let_def)

text \<open>Calls one after the other on the same connection.\<close>

fun do_all :: "(nat \<Rightarrow> gotime) \<Rightarrow> nat \<Rightarrow> Message list \<Rightarrow> Conn \<Rightarrow> (ProtoError, Message) go list \<times> Conn" where
  "do_all nows i [] c = ([], c)"
| "do_all nows i (m # ms) c =
     (let (r, c) = Do (nows i) m 0 c; (rs, c) = do_all nows (i + 1) ms c in (r # rs, c))"

lemma do_all_answered:
  assumes "conn_ready c" and "map EncodeFrame ms = map Ok fs" and "map EncodeFrame resps = map Ok gs" and "list_all Frame_valid resps"
    and "length resps = length ms" and "cn_reader c = \<lparr>rd_data = concat gs, rd_end = e\<rparr>"
  shows "\<exists>c'. do_all nows i ms c = (map Ok resps, c') \<and> cn_sent c' = cn_sent c @ concat fs \<and> cn_reader c' = \<lparr>rd_data = [], rd_end = e\<rparr>"
  using assms
proof (induction ms arbitrary: fs resps gs c i)
  case (Cons m ms)
  from Cons.prems obtain f fs' resp resps' g gs' where x: "fs = f # fs'" "resps = resp # resps'" "gs = g # gs'"
    by (cases fs; cases resps; cases gs) auto
  with Cons.prems obtain c1 where c1: "Do (nows i) m 0 c = (Ok resp, c1)" "conn_ready c1" "cn_sent c1 = cn_sent c @ f"
      "cn_reader c1 = \<lparr>rd_data = concat gs', rd_end = e\<rparr>"
    using Do_answered [of c m f resp g "concat gs'" e "nows i" 0] by auto
  with Cons.IH [of c1 fs' resps' gs' "i + 1"] Cons.prems x obtain c2 where
    "do_all nows (i + 1) ms c1 = (map Ok resps', c2)" "cn_sent c2 = cn_sent c1 @ concat fs'" "cn_reader c2 = \<lparr>rd_data = [], rd_end = e\<rparr>"
    by auto
  with c1 x show ?case by simp
qed simp

text \<open>A connection that is no follower's.\<close>

definition unused :: "conn \<Rightarrow> Node \<Rightarrow> bool" where
  "unused c n \<longleftrightarrow> (case nd_leader n of None \<Rightarrow> True | Some l \<Rightarrow> c \<notin> snd ` set (ld_followers l))"

definition spared :: "conn \<Rightarrow> Node \<Rightarrow> Node \<Rightarrow> bool" where
  "spared c n n' \<longleftrightarrow> unused c n' \<and> net_sent (nd_net n') c = net_sent (nd_net n) c \<and> (c \<in> net_closed (nd_net n') \<longleftrightarrow> c \<in> net_closed (nd_net n))"

lemma broadcast_spared:
  assumes "unused c n"
  shows "Node_Set_broadcast ne k v e (n\<lparr>nd_db := db\<rparr>) = Returns r n' \<Longrightarrow> spared c n n'"
    and "Node_Delete_broadcast ne k (n\<lparr>nd_db := db\<rparr>) = Returns r n' \<Longrightarrow> spared c n n'"
proof -
  have b: "spared c n (n\<lparr>nd_db := db, nd_leader := Some l', nd_net := net'\<rparr>)"
    if "nd_leader n = Some l" "broadcast ord outs m (l\<lparr>ld_logIndex := x\<rparr>) (nd_net n) = Some (l', net')" for db l l' net' ord outs m x
    using broadcast_spares [OF that(2), of c] assms that(1) by (auto simp: spared_def unused_def)
  have none: "spared c n (n\<lparr>nd_db := db\<rparr>)" for db using assms by (simp add: spared_def unused_def)
  show "Node_Set_broadcast ne k v e (n\<lparr>nd_db := db\<rparr>) = Returns r n' \<Longrightarrow> spared c n n'"
    using none b by (auto simp: Node_Set_broadcast_def BroadcastSet_def Let_def split: option.splits)
  show "Node_Delete_broadcast ne k (n\<lparr>nd_db := db\<rparr>) = Returns r n' \<Longrightarrow> spared c n n'"
    using none b by (auto simp: Node_Delete_broadcast_def BroadcastDelete_def Let_def split: option.splits)
qed

lemma Dispatch_spared:
  assumes "Dispatch the_handlers msg (node_store ne) n = Returns r n'" and "unused c n"
  shows "spared c n n'"
  using assms(1)
proof (rule Dispatch_keeps)
  show "spared c n (n\<lparr>nd_db := db\<rparr>)" for db using assms(2) by (simp add: spared_def unused_def)
qed (use broadcast_spared [OF assms(2)] in blast)+

text \<open>The answers of the engine to commands that come over connection \<open>c\<close>, each written before the next is taken.\<close>

fun engine_answers :: "(nat \<Rightarrow> NodeEnv) \<Rightarrow> nat \<Rightarrow> conn \<Rightarrow> Message list \<Rightarrow> Node \<Rightarrow> (Message list \<times> Node) option" where
  "engine_answers nes i c [] n = Some ([], n)"
| "engine_answers nes i c (m # ms) n =
     (case Dispatch the_handlers m (node_store (nes i)) n of
        Returns (Inr resp) n' \<Rightarrow>
          (case engine_answers nes (i + 1) c ms (snd (writeMessage (nes i) c resp n')) of
             None \<Rightarrow> None
           | Some (resps, n'') \<Rightarrow> Some (resp # resps, n''))
      | _ \<Rightarrow> None)"

lemma writeMessage_open:
  assumes "c \<notin> net_closed (nd_net n)" and "ne_conns ne c = WriteOk" and "EncodeFrame m = Ok f"
  shows "net_sent (nd_net (snd (writeMessage ne c m n))) c = net_sent (nd_net n) c @ f"
    and "net_closed (nd_net (snd (writeMessage ne c m n))) = net_closed (nd_net n)"
  using assms by (simp_all add: writeMessage_def WriteFrame_def Let_def)

lemma unused_output [simp]: "unused c (snd (writeMessage ne d m n)) = unused c n"
  by (simp add: unused_def)

lemma is_command_client:
  "is_command m \<Longrightarrow> OpCode m \<notin> {OpReplicationJoin, OpHeartbeat, OpVoteRequest, OpTopologyRequest}"
  by (cases m) (simp_all add: opcode_defs)

lemma encode_all: "list_all Frame_valid ms \<Longrightarrow> \<exists>fs. map EncodeFrame ms = map Ok fs"
proof (induction ms)
  case (Cons m ms)
  then obtain fs where "map EncodeFrame ms = map Ok fs" by auto
  moreover obtain f where "EncodeFrame m = Ok f" using Cons.prems by (auto elim: Frame_validE)
  ultimately have "map EncodeFrame (m # ms) = map Ok (f # fs)" by simp
  then show ?case by blast
qed simp

lemma serve_all_answers:
  assumes "engine_answers nes i c ms n = Some (resps, n')" and "list_all is_command ms" and "list_all Frame_valid resps"
    and "unused c n" and "c \<notin> net_closed (nd_net n)" and "\<And>i. ne_conns (nes i) c = WriteOk"
  shows "serve_all nes i c ms n = Returns (Inr ()) (close_conn c n') \<and> length resps = length ms \<and>
    (\<exists>gs. map EncodeFrame resps = map Ok gs \<and> net_sent (nd_net n') c = net_sent (nd_net n) c @ concat gs)"
  using assms(1-5)
proof (induction ms arbitrary: i n resps)
  case (Cons m ms)
  from Cons.prems(1) obtain resp n1 resps' where d: "Dispatch the_handlers m (node_store (nes i)) n = Returns (Inr resp) n1"
    "engine_answers nes (i + 1) c ms (snd (writeMessage (nes i) c resp n1)) = Some (resps', n')" "resps = resp # resps'"
    by (auto split: outcome.splits sum.splits option.splits prod.splits)
  obtain g where g: "EncodeFrame resp = Ok g" using Cons.prems(3) d(3) by (auto elim: Frame_validE)
  have sp: "unused c n1" "net_sent (nd_net n1) c = net_sent (nd_net n) c" "c \<notin> net_closed (nd_net n1)"
    using Dispatch_spared [OF d(1) Cons.prems(4)] Cons.prems(5) by (simp_all add: spared_def)
  note w = writeMessage_open [OF sp(3) assms(6) g]
  have "dispatchClient (nes i) c m n = Returns (Inr ()) (snd (writeMessage (nes i) c resp n1))"
    using d(1) is_command_client [of m] Cons.prems(2) by (simp add: dispatchClient_def dispatchToEngine_def)
  with Cons.IH [OF d(2)] Cons.prems(2,3) d(3) sp w g show ?case
    by (auto intro: exI [of _ "g # gs" for gs])
qed simp

section \<open>Properties\<close>

text \<open>C10 (equivalence): a persistent connection. For every sequence of commands that fit their frames, the calls of \<open>Do\<close> over
  one connection return, in order, the answers the engine gives to the commands one after the other;
  what the client has written is what the server reads, and what the server has written is read
  up to its last byte, so that no call sees the answer of another.\<close>

theorem session_is_local_calls:
  assumes "list_all is_command (m # ms)" and "list_all (\<lambda>m. Frame_valid m \<and> within_limit (ts_maxPayloadBytes s) m) (m # ms)"
    and "engine_answers nes 0 c (m # ms) n = Some (resps, n')" and "list_all Frame_valid resps"
    and "unused c n" and "c \<notin> net_closed (nd_net n)" and "net_sent (nd_net n) c = []" and "\<And>i. ne_conns (nes i) c = WriteOk"
    and "Dial (Inr (\<lambda>_. WriteOk, \<lparr>rd_data = net_sent (nd_net n') c, rd_end = EOF\<rparr>)) = Ok conn"
  shows "\<exists>conn'. do_all nows 0 (m # ms) conn = (map Ok resps, conn') \<and> rd_data (cn_reader conn') = [] \<and>
    handleConnection s nes c \<lparr>rd_data = cn_sent conn', rd_end = EOF\<rparr> n = Returns (Inr ()) (close_conn c n')"
proof -
  obtain fs where fs: "map EncodeFrame (m # ms) = map Ok fs" using encode_all [of "m # ms"] assms(2) unfolding list_all_iff by blast
  obtain gs where sv: "serve_all nes 0 c (m # ms) n = Returns (Inr ()) (close_conn c n')" "length resps = length (m # ms)"
    "map EncodeFrame resps = map Ok gs" "net_sent (nd_net n') c = concat gs"
    using serve_all_answers [OF assms(3,1,4-6,8)] assms(7) by auto
  have c: "conn_ready conn" "cn_sent conn = []" "cn_reader conn = \<lparr>rd_data = concat gs, rd_end = EOF\<rparr>"
    using assms(9) sv(4) by (auto simp: Dial_def conn_ready_def)
  obtain conn' where "do_all nows 0 (m # ms) conn = (map Ok resps, conn')" "cn_sent conn' = concat fs" "rd_data (cn_reader conn') = []"
    using do_all_answered [OF c(1) fs sv(3) assms(4) sv(2) c(3), of nows 0] c(2) by auto
  moreover have "handleConnection s nes c \<lparr>rd_data = concat fs, rd_end = EOF\<rparr> n = Returns (Inr ()) (close_conn c n')"
    using handleConnection_frames [OF assms(2) fs] is_command_client [of m] assms(1) sv(1) by simp
  ultimately show ?thesis by auto
qed

lemma get_missing:
  assumes "node_inv n" and "contents (nd_db n) k = None"
  shows "\<exists>n'. Dispatch the_handlers (MGetRequest \<lparr>gr_Key = k\<rparr>) (node_store ne) n = Returns (Inr (MGetResponse \<lparr>gs_Found = False, gs_Value = []\<rparr>)) n' \<and>
    node_inv n' \<and> contents (nd_db n') k = None"
proof -
  have i: "kv_inv (nd_db n)" using assms(1) by (simp add: node_inv_def)
  obtain db where g: "Get (ne_now ne) k (nd_db n) = Returns (read_result (ne_now ne) (contents (nd_db n) k)) db"
    using Get_result [OF i] by blast
  with Get_store [OF i g] assms show ?thesis by (auto simp: node_store_def Node_Get_def read_result_def node_inv_db)
qed

theorem session_is_local_calls_witness:
  "let n = NewNode (example_store 8 NoEvict SyncNone) 100 [] []; nes = (\<lambda>_. example_node_env);
       req = MGetRequest \<lparr>gr_Key = [1]\<rparr>; resp = MGetResponse \<lparr>gs_Found = False, gs_Value = []\<rparr>
   in \<exists>n' conn conn'. engine_answers nes 0 5 [req, req] n = Some ([resp, resp], n') \<and>
        Dial (Inr (\<lambda>_. WriteOk, \<lparr>rd_data = net_sent (nd_net n') 5, rd_end = EOF\<rparr>)) = Ok conn \<and>
        do_all (\<lambda>_. 7) 0 [req, req] conn = ([Ok resp, Ok resp], conn')"
proof -
  let ?n = "NewNode (example_store 8 NoEvict SyncNone) 100 [] []" and ?nes = "\<lambda>_. example_node_env"
  let ?req = "MGetRequest \<lparr>gr_Key = [1]\<rparr>" and ?resp = "MGetResponse \<lparr>gs_Found = False, gs_Value = []\<rparr>"
  have v: "Frame_valid ?req" "Frame_valid ?resp" "within_limit (ts_maxPayloadBytes (NewTCPServer 0)) ?req"
    by (simp_all add: Frame_valid_def EncodeMessage_layout GetRequest_Encode_layout GetResponse_Encode_layout GetRequest_valid_def
        GetResponse_valid_def within_limit_def NewTCPServer_def)
  have "\<exists>n'. engine_answers ?nes 0 5 [?req, ?req] ?n = Some ([?resp, ?resp], n')"
  proof -
    have i: "node_inv ?n" "contents (nd_db ?n) [1] = None"
      by (simp_all add: node_inv_def NewNode_def example_store_inv example_store_contents)
    from get_missing [OF this, of example_node_env] obtain n1 where n1:
      "Dispatch the_handlers ?req (node_store example_node_env) ?n = Returns (Inr ?resp) n1" "node_inv n1" "contents (nd_db n1) [1] = None" by blast
    let ?n1 = "snd (writeMessage example_node_env 5 ?resp n1)"
    have "node_inv ?n1" "contents (nd_db ?n1) [1] = None" using n1 by simp_all
    from get_missing [OF this, of example_node_env] n1(1) show ?thesis by auto
  qed
  then obtain n' where n': "engine_answers ?nes 0 5 [?req, ?req] ?n = Some ([?resp, ?resp], n')" by blast
  have "\<exists>conn. Dial (Inr (\<lambda>_. WriteOk, \<lparr>rd_data = net_sent (nd_net n') 5, rd_end = EOF\<rparr>)) = Ok conn" by (simp add: Dial_def)
  then obtain conn where conn: "Dial (Inr (\<lambda>_. WriteOk, \<lparr>rd_data = net_sent (nd_net n') 5, rd_end = EOF\<rparr>)) = Ok conn" by blast
  have i: "unused 5 ?n" "5 \<notin> net_closed (nd_net ?n)" "net_sent (nd_net ?n) 5 = []" "ne_conns example_node_env 5 = WriteOk"
    by (simp_all add: unused_def NewNode_def example_node_env_def)
  have "\<exists>conn'. do_all (\<lambda>_. 7) 0 [?req, ?req] conn = (map Ok [?resp, ?resp], conn') \<and> rd_data (cn_reader conn') = [] \<and>
    handleConnection (NewTCPServer 0) ?nes 5 \<lparr>rd_data = cn_sent conn', rd_end = EOF\<rparr> ?n = Returns (Inr ()) (close_conn 5 n')"
    by (rule session_is_local_calls [OF _ _ n' _ i conn]) (use v in simp_all)
  with n' conn show ?thesis unfolding Let_def by auto
qed

text \<open>A leader that one of the seeds has named, with its peers; the error \<open>err\<close>; or a panic of a call to a seed.\<close>

definition discovered :: "(nat \<Rightarrow> gotime) \<Rightarrow> (nat \<Rightarrow> bytes \<Rightarrow> opened) \<Rightarrow> bytes list \<Rightarrow> BenchError \<Rightarrow>
    (BenchError, bytes \<times> bytes list) go \<Rightarrow> bool" where
  "discovered nows dials seeds err res =
     (case res of
        Ok (l, peers) \<Rightarrow> l \<noteq> [] \<and> (\<exists>j seed topo. seed \<in> set seeds \<and> FetchTopology (nows j) (dials j seed) = Ok topo \<and>
          l = tr_LeaderAddr topo \<and> peers = map ni_Address (tr_Nodes topo))
      | Err e \<Rightarrow> e = err
      | Panic \<Rightarrow> (\<exists>j seed. seed \<in> set seeds \<and> FetchTopology (nows j) (dials j seed) = Panic))"

lemma discovered_more: "discovered nows dials seeds err res \<Longrightarrow> discovered nows dials (seed # seeds) err res"
  by (auto simp: discovered_def split: go.splits)

lemma discovered_first:
  "FetchTopology (nows i) (dials i seed) = Ok topo \<Longrightarrow> tr_LeaderAddr topo \<noteq> [] \<Longrightarrow>
   discovered nows dials (seed # seeds) err (Ok (tr_LeaderAddr topo, map ni_Address (tr_Nodes topo)))"
  by (force simp: discovered_def)

lemma DiscoverLeader_result:
  "DiscoverLeader nows dials i seeds = (res, i') \<Longrightarrow>
   discovered nows dials seeds NoSeed res"
proof (induction nows dials i seeds rule: DiscoverLeader.induct)
  case (2 nows dials i seed seeds)
  show ?case
  proof (cases "FetchTopology (nows i) (dials i seed)")
    case (Ok topo)
    with 2 show ?thesis
      by (cases "tr_LeaderAddr topo = []") (auto intro: discovered_more intro!: discovered_first)
  next
    case (Err e)
    with 2 show ?thesis by (auto intro: discovered_more)
  qed (use 2 in \<open>auto simp: discovered_def\<close>)
qed (auto simp: discovered_def)

text \<open>\<open>WaitForLeader\<close> returns. As soon as a reading of the clock reaches the deadline it gives up, whatever the
  dials give; what it returns before that is a leader that one of the seeds has named, and its peers.\<close>

lemma WaitForLeader_returns:
  assumes "clock 0 + maxWait \<le> clock (Suc k)"
  shows "\<exists>res i'. WaitForLeader clock nows dials seeds maxWait i = Some (res, i') \<and>
    discovered nows dials seeds (NoLeaderWithin maxWait) res"
proof -
  have "\<exists>res i'. WaitForLeader_loop clock nows dials seeds maxWait (clock 0 + maxWait) j i = Some (res, i') \<and>
    discovered nows dials seeds (NoLeaderWithin maxWait) res" if "j \<le> Suc k" for j i
    using that
  proof (induction "Suc k - j" arbitrary: j i)
    case 0
    with assms show ?case by (subst WaitForLeader_loop.simps) (simp add: antisym discovered_def)
  next
    case (Suc x)
    obtain res i1 where d: "DiscoverLeader nows dials i seeds = (res, i1)" by force
    from Suc.hyps have "x = Suc k - (j + 1)" "j + 1 \<le> Suc k" by simp_all
    from Suc.hyps(1) [OF this, of i1] DiscoverLeader_result [OF d] d show ?case
      by (subst WaitForLeader_loop.simps) (auto simp: discovered_def split: go.splits)
  qed
  from this [of 1 i] show ?thesis by (simp add: WaitForLeader_def Let_def)
qed

text \<open>The command line and the benchmark client fetch the topology in the same way.\<close>

lemma FetchTopology_Ok: "fetchTopology (Inr (outs 0, r)) = Ok topo \<Longrightarrow> FetchTopology now (Inr (outs, r)) = Ok topo"
  by (auto simp: fetchTopology_def FetchTopology_def Dial_def Send_def Recv_def SetDeadline_def sendMessage_def receiveMessage_def
      Let_def split: go.splits prod.splits Message.splits)

text \<open>Seeds that name no leader.\<close>

lemma DiscoverLeader_no_leader:
  assumes "\<And>j seed. seed \<in> set seeds \<Longrightarrow> FetchTopology (nows j) (conns j seed) = Ok \<lparr>tr_LeaderAddr = [], tr_Nodes = []\<rparr>"
  shows "DiscoverLeader nows conns i seeds = (Err NoSeed, i + length seeds)"
  using assms by (induction seeds arbitrary: i) simp_all

lemma WaitForLeader_no_leader:
  assumes "\<And>j seed. seed \<in> set seeds \<Longrightarrow> FetchTopology (nows j) (conns j seed) = Ok \<lparr>tr_LeaderAddr = [], tr_Nodes = []\<rparr>"
    and "clock 0 + maxWait \<le> clock (Suc k)"
  shows "\<exists>i'. WaitForLeader clock nows conns seeds maxWait i = Some (Err (NoLeaderWithin maxWait), i')"
proof -
  obtain res i' where r: "WaitForLeader clock nows conns seeds maxWait i = Some (res, i')" "discovered nows conns seeds (NoLeaderWithin maxWait) res"
    using WaitForLeader_returns [OF assms(2)] by blast
  have "res = Err (NoLeaderWithin maxWait)"
    using r(2) assms(1) by (cases res) (auto simp: discovered_def)
  with r(1) show ?thesis by blast
qed

lemma standalone_topology:
  assumes "nd_raft n = NewRaftState [] []" and "fresh_conn ne c n" and "0 < ts_maxPayloadBytes s"
  shows "fetchTopology (reply_of s ne c n (MTopologyRequest ())) = Ok \<lparr>tr_LeaderAddr = [], tr_Nodes = []\<rparr>"
proof -
  have t: "GetTopology n = \<lparr>tr_LeaderAddr = [], tr_Nodes = []\<rparr>"
    using assms(1) by (simp add: GetTopology_def GetLeaderAddr_def GetPeers_def NewRaftState_def Let_def)
  show ?thesis
    by (rule topology_call(1) [OF topology_request_valid(2) [OF assms(3)] assms(2) empty_topology_valid [folded t], unfolded t])
qed

text \<open>C34 (error): no client finds a standalone server. At every dial of a seed a node that was started without peers
  answers. The answer to the topology request is an empty leader address and no nodes, although the node is
  forced to be a leader. The command line asks fifteen times, prints what it is connecting to and that no leader was elected, and
  exits with status 1, whatever its input. The benchmark client fails over any list of such seeds after one dial of each, and
  \<open>WaitForLeader\<close> gives up at its deadline.\<close>

theorem standalone_unreachable:
  assumes "0 < ts_maxPayloadBytes s" and "seed = main_seed url env"
    and "\<And>i a. nd_raft (node i a) = NewRaftState [] [] \<and> fresh_conn (ne i a) (c i a) (node i a)"
    and "\<And>i. dials i (str seed) = reply_of s (ne i (str seed)) (c i (str seed)) (node i (str seed)) (MTopologyRequest ())"
    and "\<And>i a. a \<in> set seeds \<Longrightarrow> conns i a = Inr (\<lambda>_. WriteOk, \<lparr>rd_data = answer s (ne i a) (c i a) (node i a) (MTopologyRequest ()), rd_end = EOF\<rparr>)"
    and "clock 0 + maxWait \<le> clock (Suc k)"
  shows "(\<forall>i. fetchTopology (dials i (str seed)) = Ok \<lparr>tr_LeaderAddr = [], tr_Nodes = []\<rparr>) \<and>
    waitForLeader dials (newClient (str seed)) = (Err NoLeader, (newClient (str seed))\<lparr>kc_dials := 15\<rparr>) \<and>
    cli_main url env rnds dials input endErr =
      Exited 1 (connecting_line seed @ red_line (''Failed to discover cluster: no leader elected after 4.5s '' @ em_dash @ '' cluster may be down'')) \<and>
    DiscoverLeader nows conns i seeds = (Err NoSeed, i + length seeds) \<and>
    (\<exists>i'. WaitForLeader clock nows conns seeds maxWait i = Some (Err (NoLeaderWithin maxWait), i'))"
proof -
  note reply = standalone_topology [OF conjunct1 [OF assms(3)] conjunct2 [OF assms(3)] assms(1)]
  have d: "fetchTopology (dials i (str seed)) = Ok \<lparr>tr_LeaderAddr = [], tr_Nodes = []\<rparr>" for i using reply assms(4) by simp
  have w: "waitForLeader dials (emit x (newClient (str seed))) = (Err NoLeader, (emit x (newClient (str seed)))\<lparr>kc_dials := 15\<rparr>)" for x
    using waitForLeader_no_leader [where dials = dials and seed = "str seed" and k = 15, OF d]
    by (simp add: waitForLeader_def emit_def newClient_def)
  have f: "FetchTopology (nows j) (conns j a) = Ok \<lparr>tr_LeaderAddr = [], tr_Nodes = []\<rparr>" if "a \<in> set seeds" for j a
    using FetchTopology_Ok [OF reply [unfolded reply_of_def]] assms(5) [OF that] by simp
  show ?thesis
    using d w [of "[]"] w [of "connecting_line seed"] assms(2) DiscoverLeader_no_leader [OF f] WaitForLeader_no_leader [OF f assms(6)]
    by (simp add: cli_main_def Let_def emit_def newClient_def)
qed

theorem standalone_unreachable_witness:
  "let n = ForceLeader (NewNode (example_store 8 NoEvict SyncNone) 100 [] []); s = NewTCPServer 100; ne = example_node_env;
       conn = Inr (\<lambda>_. WriteOk, \<lparr>rd_data = answer s ne 5 n (MTopologyRequest ()), rd_end = EOF\<rparr>)
   in cli_main [] (\<lambda>_. []) (\<lambda>_ _ _. 0) (\<lambda>_ _. reply_of s ne 5 n (MTopologyRequest ())) ''GET a'' EOF =
        Exited 1 (connecting_line (main_seed [] (\<lambda>_. [])) @
          red_line (''Failed to discover cluster: no leader elected after 4.5s '' @ em_dash @ '' cluster may be down'')) \<and>
      DiscoverLeader (\<lambda>_. 0) (\<lambda>_ _. conn) 0 [[1], [2]] = (Err NoSeed, 2) \<and>
      (\<exists>i'. WaitForLeader (\<lambda>j. int j) (\<lambda>_. 0) (\<lambda>_ _. conn) [[1], [2]] 3 0 = Some (Err (NoLeaderWithin 3), i'))"
proof -
  let ?n = "ForceLeader (NewNode (example_store 8 NoEvict SyncNone) 100 [] [])"
  let ?conn = "Inr (\<lambda>_. WriteOk, \<lparr>rd_data = answer (NewTCPServer 100) example_node_env 5 ?n (MTopologyRequest ()), rd_end = EOF\<rparr>)"
  have n: "nd_raft ?n = NewRaftState [] [] \<and> fresh_conn example_node_env 5 ?n" using example_fresh(2) by (simp add: ForceLeader_def NewNode_def)
  have c: "int 0 + 3 \<le> int (Suc 2)" by simp
  from standalone_unreachable [where node = "\<lambda>_ _. ?n" and ne = "\<lambda>_ _. example_node_env" and c = "\<lambda>_ _. 5" and s = "NewTCPServer 100"
      and dials = "\<lambda>_ _. reply_of (NewTCPServer 100) example_node_env 5 ?n (MTopologyRequest ())" and conns = "\<lambda>_ _. ?conn" and seeds = "[[1], [2]]"
      and clock = int and maxWait = 3 and k = 2 and nows = "\<lambda>_. 0" and i = 0, OF _ refl n refl refl c]
  show ?thesis unfolding Let_def by (simp add: NewTCPServer_def)
qed

end
