(* ===== verification/Loadgen.thy ===== *)
theory Loadgen
  imports Bench_Client
begin

text \<open>
  The load generator, \<open>bench/loadgen/main.go\<close>: the set-up from the flags, the workers with their connections,
  the coordinator that hands them tokens, and the accounts. The histograms of the third-party package and
  the arithmetic and printing of floating-point numbers are parameters (\<open>Histogram\<close>, \<open>Float64\<close>); random
  numbers, the clock and the network are arguments. \<open>Loadgen_Report\<close> has the reports.
\<close>

section \<open>Parameters\<close>

text \<open>\<open>fl_show n x\<close> prints \<open>x\<close> with \<open>n\<close> digits after the point.\<close>

record 'f Float64 =
  fl_int :: "int \<Rightarrow> 'f"
  fl_add :: "'f \<Rightarrow> 'f \<Rightarrow> 'f"
  fl_mul :: "'f \<Rightarrow> 'f \<Rightarrow> 'f"
  fl_div :: "'f \<Rightarrow> 'f \<Rightarrow> 'f"
  fl_trunc :: "'f \<Rightarrow> int"
  fl_show :: "nat \<Rightarrow> 'f \<Rightarrow> string"

text \<open>\<open>hs_quantile h q\<close> is \<open>ValueAtQuantile\<close> at \<open>q\<close> tenths of a percent.\<close>

record 'h Histogram =
  hs_New :: 'h
  hs_RecordValue :: "'h \<Rightarrow> int \<Rightarrow> 'h"
  hs_Merge :: "'h \<Rightarrow> 'h \<Rightarrow> 'h"
  hs_quantile :: "'h \<Rightarrow> nat \<Rightarrow> int"
  hs_Max :: "'h \<Rightarrow> int"

section \<open>Set-up\<close>

record 'f Flags =
  fg_addr :: string
  fg_label :: string
  fg_csv :: string
  fg_rate :: int
  fg_duration :: duration
  fg_workers :: int
  fg_readRatio :: 'f
  fg_keys :: int
  fg_valueSize :: int
  fg_hotKeys :: int
  fg_hotRatio :: 'f

definition default_flags :: "'f Float64 \<Rightarrow> 'f Flags" where
  "default_flags F =
     \<lparr>fg_addr = ''localhost:6379'', fg_label = [], fg_csv = [], fg_rate = 5000, fg_duration = 60 * Second, fg_workers = 64,
      fg_readRatio = fl_div F (fl_int F 1) (fl_int F 2), fg_keys = 5000, fg_valueSize = 64, fg_hotKeys = 0,
      fg_hotRatio = fl_div F (fl_int F 4) (fl_int F 5)\<rparr>"

text \<open>\<open>mergeSeeds\<close>: the loop with the map \<open>seen\<close>.\<close>

fun merge_loop :: "bytes list \<Rightarrow> (bytes, bool) gomap \<Rightarrow> bytes list \<Rightarrow> bytes list" where
  "merge_loop [] seen out = out"
| "merge_loop (s # rest) seen out =
     (if gomap_get seen s \<noteq> Some True then merge_loop rest (gomap_set s True seen) (out @ [s])
      else merge_loop rest seen out)"

definition mergeSeeds :: "bytes list \<Rightarrow> bytes list \<Rightarrow> bytes list" where
  "mergeSeeds a b = merge_loop (a @ b) [] []"

definition bench_keys :: "nat \<Rightarrow> bytes list" where
  "bench_keys numKeys = map (\<lambda>i. str (''bench:k:'' @ pad_left (CHR ''0'') 7 (show_nat i))) [0..<numKeys]"

definition bench_value :: "nat \<Rightarrow> bytes" where
  "bench_value n = replicate n (of_char CHR ''x'')"

definition hot_keys :: "int \<Rightarrow> nat \<Rightarrow> int" where
  "hot_keys hotKeys n = (if hotKeys \<ge> int n then 0 else hotKeys)"

definition max_int :: "int \<Rightarrow> int \<Rightarrow> int" where
  "max_int a b = (if a > b then a else b)"

text \<open>The size of a batch and the interval of the ticker; \<open>None\<close> is the panic of a division by zero or of a
  ticker without a positive interval. Go's integer division rounds towards zero.\<close>

definition quot :: "int \<Rightarrow> int \<Rightarrow> int" where
  "quot a b = sgn a * sgn b * (\<bar>a\<bar> div \<bar>b\<bar>)"

definition pace :: "int \<Rightarrow> (int \<times> duration) option" where
  "pace rate =
     (let batchSize = max_int 1 (quot rate 1000)
      in if rate = 0 then None
         else let tickInterval = quot (wrap64 (1000000000 * batchSize)) rate
              in if tickInterval \<le> 0 then None else Some (batchSize, tickInterval))"

text \<open>What \<open>main\<close> has when the load begins. It stops before when no leader is found; \<open>make\<close> panics on a negative
  size, and \<open>pace\<close> as above. \<open>None\<close>: the wait for a leader does not return.\<close>

record Setup =
  su_leaderAddr :: bytes
  su_allSeeds :: "bytes list"
  su_value :: bytes
  su_keys :: "bytes list"
  su_hk :: int
  su_workers :: nat
  su_batchSize :: int
  su_tickInterval :: duration
  su_dials :: nat
  su_out :: string

definition loadgen_setup :: "'f Flags \<Rightarrow> (nat \<Rightarrow> gotime) \<Rightarrow> (nat \<Rightarrow> gotime) \<Rightarrow> (nat \<Rightarrow> bytes \<Rightarrow> opened) \<Rightarrow> (process + Setup) option" where
  "loadgen_setup fg clock nows dials =
     (let seeds = map str (Split (fg_addr fg) (CHR '',''));
          out = ''discovering cluster via '' @ show_list seeds @ '' ...'' @ newline
      in case WaitForLeader clock nows dials seeds (10 * Second) 0 of
           None \<Rightarrow> None
         | Some (Panic, i) \<Rightarrow> Some (Inl Crashed)
         | Some (Err e, i) \<Rightarrow> Some (Inl (Exited 1 (out @ ''error: '' @ BenchError_text e @ newline)))
         | Some (Ok (leaderAddr, peers), i) \<Rightarrow>
             Some (if fg_valueSize fg < 0 \<or> fg_keys fg < 0 \<or> fg_workers fg < 0 then Inl Crashed
                   else case pace (fg_rate fg) of
                     None \<Rightarrow> Inl Crashed
                   | Some (batchSize, tickInterval) \<Rightarrow>
                       Inr \<lparr>su_leaderAddr = leaderAddr, su_allSeeds = mergeSeeds seeds peers,
                            su_value = bench_value (nat (fg_valueSize fg)), su_keys = bench_keys (nat (fg_keys fg)),
                            su_hk = hot_keys (fg_hotKeys fg) (nat (fg_keys fg)), su_workers = nat (fg_workers fg),
                            su_batchSize = batchSize, su_tickInterval = tickInterval, su_dials = i,
                            su_out = out @ ''leader : '' @ text_of leaderAddr @ newline\<rparr>))"

section \<open>Workers\<close>

text \<open>\<open>hot\<close> says whether the random number is below the hot ratio; \<open>intn n\<close> is \<open>rng.Intn(n)\<close>. \<open>None\<close> is the panic of
  an index out of range or of \<open>Intn(0)\<close>.\<close>

definition pickKey :: "bool \<Rightarrow> (nat \<Rightarrow> nat) \<Rightarrow> int \<Rightarrow> bytes list \<Rightarrow> bytes option" where
  "pickKey hot intn hotKeys ks =
     (let i = (if hotKeys > 0 \<and> hot then intn (nat hotKeys)
               else if hotKeys > 0 \<and> int (length ks) > hotKeys then nat hotKeys + intn (length ks - nat hotKeys)
               else intn (length ks))
      in if i < length ks then Some (ks ! i) else None)"

record 'h workerResult =
  wk_writeHist :: 'h
  wk_readHist :: 'h
  wk_writeOps :: int
  wk_readOps :: int
  wk_errors :: int

definition new_result :: "'h Histogram \<Rightarrow> 'h workerResult" where
  "new_result H = \<lparr>wk_writeHist = hs_New H, wk_readHist = hs_New H, wk_writeOps = 0, wk_readOps = 0, wk_errors = 0\<rparr>"

text \<open>A worker: its connection, with the number of the dial that opened it, the connections it has open, the
  dials so far, and its result. The deferred \<open>conn.Close()\<close> is bound to the first connection, \<open>ws_deferred\<close>.\<close>

record 'h Worker =
  ws_conn :: Conn
  ws_id :: nat
  ws_deferred :: nat
  ws_open :: "nat set"
  ws_dials :: nat
  ws_result :: "'h workerResult"

text \<open>The loop of \<open>reconnect\<close>, which ends when a leader is found and can be dialled: \<open>None\<close> if that never happens. The
  result has the new connection, the number of its dial and the number of dials.\<close>

partial_function (option) reconnect_loop :: "(nat \<Rightarrow> gotime) \<Rightarrow> (nat \<Rightarrow> bytes \<Rightarrow> opened) \<Rightarrow> bytes list \<Rightarrow> nat \<Rightarrow>
    (BenchError, Conn \<times> nat \<times> nat) go option" where
  "reconnect_loop nows dials seeds i =
     (case DiscoverLeader nows dials i seeds of
        (Panic, i) \<Rightarrow> Some Panic
      | (Err e, i) \<Rightarrow> reconnect_loop nows dials seeds i
      | (Ok (la, peers), i) \<Rightarrow>
          (case Dial (dials i la) of
             Panic \<Rightarrow> Some Panic
           | Err e \<Rightarrow> reconnect_loop nows dials seeds (i + 1)
           | Ok c \<Rightarrow> Some (Ok (c, i, i + 1))))"

definition reconnect :: "(nat \<Rightarrow> gotime) \<Rightarrow> (nat \<Rightarrow> bytes \<Rightarrow> opened) \<Rightarrow> bytes list \<Rightarrow> 'h Worker \<Rightarrow> (BenchError, 'h Worker) go option" where
  "reconnect nows dials seeds w =
     (let open' = ws_open w - {ws_id w}
      in case reconnect_loop nows dials seeds (ws_dials w) of
           None \<Rightarrow> None
         | Some (Ok (c, k, i)) \<Rightarrow> Some (Ok (w\<lparr>ws_conn := c, ws_id := k, ws_open := insert k open', ws_dials := i\<rparr>))
         | Some (Err e) \<Rightarrow> Some (Err e)
         | Some Panic \<Rightarrow> Some Panic)"

text \<open>The first call, with no connection yet, and the \<open>defer\<close> after it.\<close>

definition worker_start :: "'h Histogram \<Rightarrow> (nat \<Rightarrow> gotime) \<Rightarrow> (nat \<Rightarrow> bytes \<Rightarrow> opened) \<Rightarrow> bytes list \<Rightarrow> nat \<Rightarrow>
    (BenchError, 'h Worker) go option" where
  "worker_start H nows dials seeds i =
     (case reconnect_loop nows dials seeds i of
        None \<Rightarrow> None
      | Some (Ok (c, k, i)) \<Rightarrow>
          Some (Ok \<lparr>ws_conn = c, ws_id = k, ws_deferred = k, ws_open = {k}, ws_dials = i, ws_result = new_result H\<rparr>)
      | Some (Err e) \<Rightarrow> Some (Err e)
      | Some Panic \<Rightarrow> Some Panic)"

text \<open>A token, with what the worker meets while it works on it.\<close>

record Token =
  tk_isWrite :: bool
  tk_hot :: bool
  tk_intn :: "nat \<Rightarrow> nat"
  tk_now :: gotime
  tk_latUs :: int

definition worker_op :: "'h Histogram \<Rightarrow> (nat \<Rightarrow> gotime) \<Rightarrow> (nat \<Rightarrow> bytes \<Rightarrow> opened) \<Rightarrow> Setup \<Rightarrow> Token \<Rightarrow> 'h Worker \<Rightarrow>
    (BenchError, 'h Worker) go option" where
  "worker_op H nows dials su t w =
     (case pickKey (tk_hot t) (tk_intn t) (su_hk su) (su_keys su) of
        None \<Rightarrow> Some Panic
      | Some key \<Rightarrow>
          (let req = (if tk_isWrite t then MSetRequest \<lparr>sr_Key = key, sr_Value = su_value su, sr_TTL = 0\<rparr>
                      else MGetRequest \<lparr>gr_Key = key\<rparr>);
               (resp, conn) = Do (tk_now t) req (5 * Second) (ws_conn w);
               w = w\<lparr>ws_conn := conn\<rparr>;
               r = ws_result w
           in case resp of
                Panic \<Rightarrow> Some Panic
              | Err e \<Rightarrow> reconnect nows dials (su_allSeeds su) (w\<lparr>ws_result := r\<lparr>wk_errors := wk_errors r + 1\<rparr>\<rparr>)
              | Ok (MErrorMessage m) \<Rightarrow> Some (Ok (w\<lparr>ws_result := r\<lparr>wk_errors := wk_errors r + 1\<rparr>\<rparr>))
              | Ok resp \<Rightarrow>
                  Some (Ok (w\<lparr>ws_result :=
                    if tk_isWrite t
                    then r\<lparr>wk_writeHist := hs_RecordValue H (wk_writeHist r) (tk_latUs t), wk_writeOps := wk_writeOps r + 1\<rparr>
                    else r\<lparr>wk_readHist := hs_RecordValue H (wk_readHist r) (tk_latUs t), wk_readOps := wk_readOps r + 1\<rparr>\<rparr>))))"

text \<open>The end of a worker: its deferred calls.\<close>

definition worker_end :: "'h Worker \<Rightarrow> 'h Worker" where
  "worker_end w = w\<lparr>ws_open := ws_open w - {ws_deferred w}\<rparr>"

section \<open>The coordinator\<close>

text \<open>One offer to a channel of capacity \<open>workers * 8\<close>; a token that does not fit is counted as dropped.\<close>

fun offer :: "nat \<Rightarrow> bool \<Rightarrow> bool list \<times> int \<Rightarrow> bool list \<times> int" where
  "offer cap w (ch, dropped) = (if length ch < cap then (ch @ [w], dropped) else (ch, dropped + 1))"

text \<open>The channel, whether it is still open, the tokens dropped, the ticks so far, the offers that the loop of the current tick has still to
  make, and the workers; \<open>lo_done\<close> are those that have ended.\<close>

record 'h LoadState =
  lo_ch :: "bool list"
  lo_open :: bool
  lo_dropped :: int
  lo_ticks :: nat
  lo_left :: nat
  lo_workers :: "nat \<Rightarrow> 'h Worker"
  lo_done :: "nat set"

definition load_start :: "(nat \<Rightarrow> 'h Worker) \<Rightarrow> 'h LoadState" where
  "load_start ws = \<lparr>lo_ch = [], lo_open = True, lo_dropped = 0, lo_ticks = 0, lo_left = 0, lo_workers = ws, lo_done = {}\<rparr>"

text \<open>The goroutines: the coordinator waits for a tick or for the end of the context, offers a batch of tokens one by one after a tick, and closes
  the channel at the end; a worker takes the next token, also between two offers, works on it, and ends when the channel is closed and empty.\<close>

inductive lstep :: "'h Histogram \<Rightarrow> (nat \<Rightarrow> nat \<Rightarrow> gotime) \<Rightarrow> (nat \<Rightarrow> nat \<Rightarrow> bytes \<Rightarrow> opened) \<Rightarrow> Setup \<Rightarrow> 'h LoadState \<Rightarrow> 'h LoadState \<Rightarrow> bool"
  for H nows dials su where
  tick: "lo_open s \<Longrightarrow> lo_left s = 0 \<Longrightarrow> lstep H nows dials su s (s\<lparr>lo_ticks := lo_ticks s + 1, lo_left := nat (su_batchSize su)\<rparr>)"
| offers: "lo_left s = Suc k \<Longrightarrow> offer (su_workers su * 8) w (lo_ch s, lo_dropped s) = (ch, d) \<Longrightarrow>
    lstep H nows dials su s (s\<lparr>lo_left := k, lo_ch := ch, lo_dropped := d\<rparr>)"
| stop: "lo_open s \<Longrightarrow> lo_left s = 0 \<Longrightarrow> lstep H nows dials su s (s\<lparr>lo_open := False\<rparr>)"
| take: "lo_ch s = tk_isWrite t # ch \<Longrightarrow> i < su_workers su \<Longrightarrow> i \<notin> lo_done s \<Longrightarrow>
    worker_op H (nows i) (dials i) su t (lo_workers s i) = Some (Ok w) \<Longrightarrow>
    lstep H nows dials su s (s\<lparr>lo_ch := ch, lo_workers := (lo_workers s)(i := w)\<rparr>)"
| ended: "\<not> lo_open s \<Longrightarrow> lo_ch s = [] \<Longrightarrow> i < su_workers su \<Longrightarrow> i \<notin> lo_done s \<Longrightarrow>
    lstep H nows dials su s (s\<lparr>lo_workers := (lo_workers s)(i := worker_end (lo_workers s i)), lo_done := insert i (lo_done s)\<rparr>)"

text \<open>The merge of the results after \<open>wg.Wait()\<close>.\<close>

definition merge_result :: "'h Histogram \<Rightarrow> 'h workerResult \<Rightarrow> 'h workerResult \<Rightarrow> 'h workerResult" where
  "merge_result H r tot =
     \<lparr>wk_writeHist = hs_Merge H (wk_writeHist tot) (wk_writeHist r), wk_readHist = hs_Merge H (wk_readHist tot) (wk_readHist r),
      wk_writeOps = wk_writeOps tot + wk_writeOps r, wk_readOps = wk_readOps tot + wk_readOps r,
      wk_errors = wk_errors tot + wk_errors r\<rparr>"

definition totals :: "'h Histogram \<Rightarrow> Setup \<Rightarrow> 'h LoadState \<Rightarrow> 'h workerResult" where
  "totals H su s = fold (merge_result H) (map (\<lambda>i. ws_result (lo_workers s i)) [0..<su_workers su]) (new_result H)"

section \<open>Lemmas\<close>

lemma merge_loop_spec:
  "(\<forall>s. gomap_get seen s = Some True \<longleftrightarrow> s \<in> set out) \<Longrightarrow> distinct out \<Longrightarrow>
   distinct (merge_loop xs seen out) \<and> set (merge_loop xs seen out) = set out \<union> set xs \<and>
   (\<exists>more. merge_loop xs seen out = out @ more)"
proof (induction xs seen out rule: merge_loop.induct)
  case (2 s rest seen out)
  show ?case
  proof (cases "gomap_get seen s = Some True")
    case True
    then have "s \<in> set out" using 2(3) by blast
    with True 2(2) [OF _ 2(3,4)] show ?thesis by auto
  next
    case False
    have "\<forall>x. gomap_get (gomap_set s True seen) x = Some True \<longleftrightarrow> x \<in> set (out @ [s])"
      using 2(3) by (simp add: go_map_simps)
    moreover have "distinct (out @ [s])" using 2(3,4) False by simp
    ultimately show ?thesis using 2(1) [OF False] False by auto
  qed
qed simp

text \<open>The seeds come first, every address once.\<close>

lemma mergeSeeds_spec: "distinct (mergeSeeds a b) \<and> set (mergeSeeds a b) = set a \<union> set b"
  using merge_loop_spec [of "[]" "[]" "a @ b"] by (simp add: mergeSeeds_def)

lemma pickKey_in_range:
  assumes "\<And>n. 0 < n \<Longrightarrow> intn n < n" and "ks \<noteq> []" and "hotKeys' = hot_keys hotKeys (length ks)"
  shows "\<exists>k \<in> set ks. pickKey hot intn hotKeys' ks = Some k"
proof -
  define i where "i = (if hotKeys' > 0 \<and> hot then intn (nat hotKeys')
               else if hotKeys' > 0 \<and> int (length ks) > hotKeys' then nat hotKeys' + intn (length ks - nat hotKeys')
               else intn (length ks))"
  have h: "0 < hotKeys' \<Longrightarrow> nat hotKeys' < length ks" using assms(2,3) by (auto simp: hot_keys_def split: if_splits)
  have "i < length ks"
    using assms(1) [of "nat hotKeys'"] assms(1) [of "length ks - nat hotKeys'"] assms(1) [of "length ks"] h assms(2)
    by (auto simp: i_def less_diff_conv)
  then show ?thesis by (auto simp: pickKey_def i_def [symmetric])
qed

text \<open>Every token is counted once.\<close>

definition ops :: "'h workerResult \<Rightarrow> int" where
  "ops r = wk_writeOps r + wk_readOps r + wk_errors r"

lemma reconnect_result: "reconnect nows dials seeds w = Some (Ok w') \<Longrightarrow> ws_result w' = ws_result w \<and> ws_deferred w' = ws_deferred w"
  by (auto simp: reconnect_def Let_def split: option.splits go.splits)

lemma worker_op_counts: "worker_op H nows dials su t w = Some (Ok w') \<Longrightarrow> ops (ws_result w') = ops (ws_result w) + 1"
  by (auto simp: worker_op_def Let_def ops_def dest!: reconnect_result split: option.splits go.splits Message.splits prod.splits if_splits)

lemma offer_counts:
  "length ch \<le> cap \<Longrightarrow> offer cap w (ch, d) = (ch', d') \<Longrightarrow>
   length ch' \<le> cap \<and> int (length ch') + d' = int (length ch) + d + 1"
  by (auto split: if_splits)

lemma totals_ops: "ops (totals H su s) = sum (\<lambda>i. ops (ws_result (lo_workers s i))) {..<su_workers su}"
proof -
  have "ops (fold (merge_result H) rs tot) = ops tot + sum_list (map ops rs)" for rs tot
    by (induction rs arbitrary: tot) (simp_all add: merge_result_def ops_def)
  then show ?thesis
    by (simp add: totals_def new_result_def ops_def comp_def interv_sum_list_conv_sum_set_nat atLeast0LessThan)
qed

definition load_inv :: "Setup \<Rightarrow> 'h LoadState \<Rightarrow> bool" where
  "load_inv su s \<longleftrightarrow> length (lo_ch s) \<le> su_workers su * 8 \<and>
     int (lo_ticks s * nat (su_batchSize su)) = int (lo_left s) + int (length (lo_ch s)) + sum (\<lambda>i. ops (ws_result (lo_workers s i))) {..<su_workers su} + lo_dropped s \<and>
     (\<not> lo_open s \<longrightarrow> lo_left s = 0) \<and> (lo_done s \<noteq> {} \<longrightarrow> \<not> lo_open s \<and> lo_ch s = [])"

lemma sum_upd:
  "i < n \<Longrightarrow> sum (\<lambda>j. f ((g(i := x)) j)) {..<n} = sum (\<lambda>j. f (g j)) {..<n} - f (g i) + (f x :: int)" for n :: nat
  by (subst (1 2) sum.remove [of "{..<n}" i]) (auto intro!: sum.cong)

lemma load_inv_step: "lstep H nows dials su s s' \<Longrightarrow> load_inv su s \<Longrightarrow> load_inv su s'"
proof (induction rule: lstep.induct)
  case (offers s k w ch d)
  then show ?case
    using offer_counts [of "lo_ch s" "su_workers su * 8" w "lo_dropped s" ch d] by (auto simp: load_inv_def simp del: offer.simps)
next
  case (take s t ch i w)
  then show ?case
    using worker_op_counts [OF take(4)] sum_upd [of i "su_workers su" "\<lambda>w. ops (ws_result w)" "lo_workers s" w] by (auto simp: load_inv_def)
next
  case (ended s i)
  then show ?case
    using sum_upd [of i "su_workers su" "\<lambda>w. ops (ws_result w)" "lo_workers s" "worker_end (lo_workers s i)"]
    by (auto simp: load_inv_def worker_end_def)
qed (auto simp: load_inv_def algebra_simps)

text \<open>Every round of \<open>reconnect\<close> dials.\<close>

lemma DiscoverLeader_dials: "DiscoverLeader nows dials i seeds = (res, i') \<Longrightarrow> i \<le> i' \<and> (seeds \<noteq> [] \<longrightarrow> i < i')"
proof (induction nows dials i seeds rule: DiscoverLeader.induct)
  case (2 nows dials i seed seeds)
  then show ?case by (cases "FetchTopology (nows i) (dials i seed)") (auto split: if_splits)
qed simp

lemma DiscoverLeader_finds:
  assumes "seeds \<noteq> []" and "\<And>j seed. i \<le> j \<Longrightarrow> seed \<in> set seeds \<Longrightarrow> \<exists>topo. FetchTopology (nows j) (dials j seed) = Ok topo \<and> tr_LeaderAddr topo \<noteq> []"
  shows "\<exists>la peers. DiscoverLeader nows dials i seeds = (Ok (la, peers), i + 1)"
proof -
  obtain seed seeds' where s: "seeds = seed # seeds'" using assms(1) by (cases seeds) auto
  obtain topo where "FetchTopology (nows i) (dials i seed) = Ok topo" "tr_LeaderAddr topo \<noteq> []" using assms(2) [of i seed] s by auto
  with s show ?thesis by simp
qed

lemma reconnect_loop_returns:
  assumes "\<And>j seed. seed \<in> set seeds \<Longrightarrow> FetchTopology (nows j) (dials j seed) \<noteq> Panic" and "seeds \<noteq> []"
    and "\<And>j seed. k \<le> j \<Longrightarrow> seed \<in> set seeds \<Longrightarrow> \<exists>topo. FetchTopology (nows j) (dials j seed) = Ok topo \<and> tr_LeaderAddr topo \<noteq> []"
    and "\<And>j addr. k \<le> j \<Longrightarrow> \<exists>x. dials j addr = Inr x"
  shows "\<exists>c n i'. reconnect_loop nows dials seeds i = Some (Ok (c, n, i')) \<and> i \<le> n \<and> \<not> cn_closed c"
proof (induction "k - i" arbitrary: i rule: less_induct)
  case less
  obtain res i1 where d: "DiscoverLeader nows dials i seeds = (res, i1)" by force
  note more = DiscoverLeader_dials [OF d]
  show ?case
  proof (cases "k \<le> i")
    case True
    then obtain la peers where "res = Ok (la, peers)" using DiscoverLeader_finds [OF assms(2), of i nows dials] assms(3) d by auto
    moreover obtain x where "dials i1 la = Inr x" using assms(4) [of i1 la] True more by auto
    ultimately show ?thesis using d more by (subst reconnect_loop.simps) (auto simp: Dial_def split: prod.splits)
  next
    case False
    have again: "\<exists>c n i'. reconnect_loop nows dials seeds j = Some (Ok (c, n, i')) \<and> i \<le> n \<and> \<not> cn_closed c" if "i < j" for j
    proof -
      have "k - j < k - i" using False that by simp
      from less [OF this] that show ?thesis by (meson less_imp_le order_trans)
    qed
    have "res \<noteq> Panic" using DiscoverLeader_result [OF d] assms(1) by (auto simp: discovered_def)
    with d more assms(2) again [of i1] again [of "i1 + 1"] show ?thesis
      by (subst reconnect_loop.simps) (auto simp: Dial_def split: go.splits sum.splits prod.splits)
  qed
qed

section \<open>Properties\<close>

text \<open>C32 (invariant): every token is accounted for. However the coordinator and the workers are scheduled, and whatever the
  calls return, once the channel is closed and all workers have ended the operations and errors they report and the dropped tokens
  are together as many as the tokens that the ticks brought, \<open>batchSize\<close> for each.\<close>

theorem load_accounted:
  assumes "(lstep H nows dials su)\<^sup>*\<^sup>* (load_start ws) s" and "\<forall>i. ws_result (ws i) = new_result H"
    and "\<not> lo_open s" and "lo_done s = {..<su_workers su}"
  shows "wk_writeOps (totals H su s) + wk_readOps (totals H su s) + wk_errors (totals H su s) + lo_dropped s =
    int (lo_ticks s * nat (su_batchSize su))"
proof -
  have "load_inv su (load_start ws)" using assms(2) by (simp add: load_inv_def load_start_def new_result_def ops_def)
  with assms(1) have inv: "load_inv su s" by (induction rule: rtranclp_induct) (auto intro: load_inv_step)
  then have "lo_ch s = [] \<and> lo_left s = 0" using assms(3,4) by (cases "su_workers su") (auto simp: load_inv_def)
  with inv totals_ops [of H su s] show ?thesis by (simp add: load_inv_def ops_def)
qed

definition example_hist :: "int list Histogram" where
  "example_hist = \<lparr>hs_New = [], hs_RecordValue = (\<lambda>h v. v # h), hs_Merge = (@), hs_quantile = (\<lambda>h q. 0), hs_Max = (\<lambda>h. 0)\<rparr>"

definition example_setup :: Setup where
  "example_setup = \<lparr>su_leaderAddr = [9], su_allSeeds = [[9]], su_value = [1], su_keys = [[1]], su_hk = 0, su_workers = 1,
     su_batchSize = 1, su_tickInterval = 1000000, su_dials = 1, su_out = []\<rparr>"

theorem load_accounted_witness:
  "\<exists>ws s. (lstep example_hist (\<lambda>_ _. 0) (\<lambda>_ _ _. Inl EOF) example_setup)\<^sup>*\<^sup>* (load_start ws) s \<and> lo_ticks s = 1 \<and>
     (let tot = totals example_hist example_setup s in wk_writeOps tot + wk_readOps tot + wk_errors tot + lo_dropped s = 1)"
proof -
  let ?H = example_hist and ?su = example_setup
  let ?step = "lstep ?H (\<lambda>_ _. 0) (\<lambda>_ _ _. Inl EOF) ?su"
  let ?resp = "MSetResponse \<lparr>ss_Success = True, ss_Message = []\<rparr>" and ?req = "MSetRequest \<lparr>sr_Key = [1], sr_Value = [1], sr_TTL = 0\<rparr>"
  have v: "Frame_valid ?resp" "Frame_valid ?req"
    by (simp_all add: Frame_valid_def EncodeMessage_layout SetResponse_Encode_layout SetRequest_Encode_layout SetResponse_valid_def SetRequest_valid_def)
  obtain f g where fg: "EncodeFrame ?req = Ok f" "EncodeFrame ?resp = Ok g" using v by (metis Frame_validE)
  let ?c = "\<lparr>cn_outs = \<lambda>_. WriteOk, cn_writes = 0, cn_sent = [], cn_reader = \<lparr>rd_data = g @ [], rd_end = EOF\<rparr>, cn_deadline = None, cn_closed = False\<rparr>"
  let ?w = "\<lparr>ws_conn = ?c, ws_id = 0, ws_deferred = 0, ws_open = {0}, ws_dials = 1, ws_result = new_result ?H\<rparr>"
  let ?t = "\<lparr>tk_isWrite = True, tk_hot = False, tk_intn = (\<lambda>_. 0), tk_now = 7, tk_latUs = 300\<rparr>"
  obtain c' where c': "Do 7 ?req (5 * Second) ?c = (Ok ?resp, c')"
    using Do_answered [of ?c ?req f ?resp g "[]" EOF 7 "5 * Second"] fg v by (auto simp: conn_ready_def)
  then obtain w where w: "worker_op ?H (\<lambda>_. 0) (\<lambda>_ _. Inl EOF) ?su ?t ?w = Some (Ok w)"
    by (simp add: worker_op_def pickKey_def example_setup_def Let_def)
  let ?s0 = "load_start (\<lambda>_. ?w)"
  let ?s' = "?s0\<lparr>lo_ticks := 1, lo_left := 1\<rparr>"
  let ?s1 = "?s'\<lparr>lo_left := 0, lo_ch := [True], lo_dropped := 0\<rparr>"
  let ?s2 = "?s1\<lparr>lo_open := False\<rparr>"
  let ?s3 = "?s2\<lparr>lo_ch := [], lo_workers := (\<lambda>_. ?w)(0 := w)\<rparr>"
  let ?s4 = "?s3\<lparr>lo_workers := (lo_workers ?s3)(0 := worker_end (lo_workers ?s3 0)), lo_done := {0}\<rparr>"
  have "?step ?s0 ?s'" using lstep.tick [of ?s0 ?H _ _ ?su] by (simp add: load_start_def example_setup_def)
  moreover have "?step ?s' ?s1" using lstep.offers [of ?s' 0 ?su True "[True]" 0] by (simp add: load_start_def example_setup_def)
  moreover have "?step ?s1 ?s2" by (rule lstep.stop) (simp_all add: load_start_def)
  moreover have "?step ?s2 ?s3" using lstep.take [of ?s2 ?t "[]" 0 ?su ?H "\<lambda>_ _. 0" "\<lambda>_ _ _. Inl EOF" w] w by (simp add: load_start_def example_setup_def)
  moreover have "?step ?s3 ?s4" using lstep.ended [of ?s3 0 ?su] by (simp add: load_start_def example_setup_def)
  ultimately have run: "?step\<^sup>*\<^sup>* ?s0 ?s4" by (meson converse_rtranclp_into_rtranclp rtranclp.rtrancl_refl)
  moreover have "lo_ticks ?s4 = 1" "\<not> lo_open ?s4" "su_batchSize ?su = 1" "lo_done ?s4 = {..<su_workers ?su}" by (auto simp: example_setup_def)
  ultimately show ?thesis
    using load_accounted [OF run] unfolding Let_def by (intro exI [of _ "\<lambda>_. ?w"] exI [of _ ?s4]) simp
qed

text \<open>The pace. A positive rate that does not overflow gives batches whose rate differs from the target by
  less than one nanosecond per tick, and a rate of at least a thousand a tick between half a millisecond and a
  millisecond: 1999 operations per second tick 1999 times a second, not at most 1000 times. A rate that
  is not positive makes the process panic.\<close>

lemma pace_bounds:
  "(rate \<le> 0 \<longrightarrow> pace rate = None) \<and>
   (0 < rate \<and> rate < 9 * 10 ^ 12 \<longrightarrow>
     (\<exists>b t. pace rate = Some (b, t) \<and> 1 \<le> b \<and> t * rate \<le> b * 10 ^ 9 \<and> b * 10 ^ 9 < (t + 1) * rate \<and>
       (if rate < 1000 then b = 1 else b = rate div 1000 \<and> 500000 \<le> t \<and> t \<le> 1000000))) \<and>
   pace 1999 = Some (1, 500250)"
proof (intro conjI impI)
  assume r: "rate \<le> 0"
  have "\<bar>rate\<bar> div 1000 \<ge> 0" "10 ^ 9 div \<bar>rate\<bar> \<ge> 0" using r by (simp_all add: pos_imp_zdiv_nonneg_iff div_int_pos_iff)
  with r show "pace rate = None" by (cases "rate = 0") (simp_all add: pace_def max_int_def quot_def sgn_if wrap64_id Let_def)
next
  assume r: "0 < rate \<and> rate < 9 * 10 ^ 12"
  define b where "b = max_int 1 (rate div 1000)"
  have b: "1 \<le> b" "b < 9 * 10 ^ 9" "(if rate < 1000 then b = 1 else b = rate div 1000)"
    using r by (auto simp: b_def max_int_def div_less_iff_less_mult)
  define t where "t = 10 ^ 9 * b div rate"
  have "10 ^ 9 * b = t * rate + 10 ^ 9 * b mod rate" unfolding t_def by (rule div_mult_mod_eq [symmetric])
  moreover have "0 \<le> 10 ^ 9 * b mod rate" "10 ^ 9 * b mod rate < rate" using r by simp_all
  ultimately have t: "t * rate \<le> b * 10 ^ 9" "b * 10 ^ 9 < (t + 1) * rate" by (simp_all add: distrib_right)
  have lim: "500000 \<le> t \<and> t \<le> 1000000" if "\<not> rate < 1000"
  proof -
    have bd: "b = rate div 1000" "1000 * b \<le> rate" "rate < 1000 * b + 1000" using b(3) that by auto
    have "500000 * rate div rate \<le> t" using bd b(1) r unfolding t_def by (intro zdiv_mono1) auto
    moreover have "t \<le> 1000000 * rate div rate" using bd r unfolding t_def by (intro zdiv_mono1) auto
    ultimately show ?thesis using r by simp
  qed
  have "1 * rate div rate \<le> t" using b r unfolding t_def by (intro zdiv_mono1) (auto split: if_splits)
  then have "0 < t" using r by simp
  moreover have "quot rate 1000 = rate div 1000" "wrap64 (1000000000 * b) = 10 ^ 9 * b"
    using r b(1,2) by (simp_all add: quot_def wrap64_id)
  ultimately have "pace rate = Some (b, t)"
    using r b(1) unfolding pace_def Let_def b_def [symmetric] t_def by (simp add: quot_def b_def)
  with b t lim show "\<exists>b t. pace rate = Some (b, t) \<and> 1 \<le> b \<and> t * rate \<le> b * 10 ^ 9 \<and> b * 10 ^ 9 < (t + 1) * rate \<and>
       (if rate < 1000 then b = 1 else b = rate div 1000 \<and> 500000 \<le> t \<and> t \<le> 1000000)" by auto
next
  show "pace 1999 = Some (1, 500250)" by (simp add: pace_def max_int_def quot_def wrap64_id)
qed

text \<open>A worker gets a connection again. When from some dial on every seed names a leader and every dial
  succeeds, \<open>reconnect\<close> returns, whatever failed before; the old connection is closed and the new one is
  open. Only the connection a worker started with is closed when it ends: after a reconnection the last one
  stays open.\<close>

lemma worker_reconnects:
  assumes "\<And>j seed. seed \<in> set seeds \<Longrightarrow> FetchTopology (nows j) (dials j seed) \<noteq> Panic" and "seeds \<noteq> []"
    and "\<And>j seed. k \<le> j \<Longrightarrow> seed \<in> set seeds \<Longrightarrow> \<exists>topo. FetchTopology (nows j) (dials j seed) = Ok topo \<and> tr_LeaderAddr topo \<noteq> []"
    and "\<And>j addr. k \<le> j \<Longrightarrow> \<exists>x. dials j addr = Inr x"
    and "ws_open w = {ws_id w}" and "ws_id w < ws_dials w" and "ws_deferred w \<le> ws_id w"
  shows "\<exists>w'. reconnect nows dials seeds w = Some (Ok w') \<and> \<not> cn_closed (ws_conn w') \<and> ws_open w' = {ws_id w'} \<and>
    ws_result w' = ws_result w \<and> ws_open (worker_end w') = {ws_id w'}"
proof -
  obtain c n i where "reconnect_loop nows dials seeds (ws_dials w) = Some (Ok (c, n, i))" "ws_dials w \<le> n" "\<not> cn_closed c"
    using reconnect_loop_returns [where nows = nows and dials = dials and k = k and i = "ws_dials w", OF assms(1-4)] by blast
  with assms(5-7) show ?thesis by (simp add: reconnect_def worker_end_def)
qed

end
