(* ===== verification/Loadgen_Report.thy ===== *)
theory Loadgen_Report
  imports Loadgen
begin

text \<open>
  The reports of the load generator, \<open>bench/loadgen/main.go\<close>: the text of the summary and the row that is
  appended to a CSV file, with the part of \<open>encoding/csv\<close> that writes it. Files are their contents, \<open>None\<close> where
  there is none; the outcomes of the calls to the operating system are arguments.
\<close>

section \<open>Helpers\<close>

definition orDash :: "string \<Rightarrow> string" where
  "orDash s = (if s = [] then em_dash else s)"

text \<open>\<open>strings.LastIndex(path, "/")\<close> and the directory before it.\<close>

fun LastIndex :: "string \<Rightarrow> char \<Rightarrow> int" where
  "LastIndex [] c = - 1"
| "LastIndex (x # xs) c = (let i = LastIndex xs c in if i \<ge> 0 then i + 1 else if x = c then 0 else - 1)"

definition dirOf :: "string \<Rightarrow> string" where
  "dirOf path = (let i = LastIndex path (CHR ''/'') in if i < 0 then ''.'' else take (nat i) path)"

definition pct :: "'f Float64 \<Rightarrow> int \<Rightarrow> int \<Rightarrow> 'f" where
  "pct F num den = (if den = 0 then fl_int F 0 else fl_div F (fl_int F num) (fl_int F den))"

text \<open>\<open>Duration.Seconds\<close>.\<close>

definition Seconds :: "'f Float64 \<Rightarrow> duration \<Rightarrow> 'f" where
  "Seconds F d = fl_add F (fl_int F (quot d Second)) (fl_div F (fl_int F (d - Second * quot d Second)) (fl_int F Second))"

definition printHist :: "'h Histogram \<Rightarrow> string \<Rightarrow> 'h \<Rightarrow> int \<Rightarrow> string" where
  "printHist H label h n =
     (if n = 0 then label @ '': no operations'' @ newline
      else let d7 = (\<lambda>v. pad_left (CHR '' '') 7 (show_int v))
           in label @ ''  ['' @ show_int n @ '' ops]'' @ newline @
              ''  p50='' @ d7 (hs_quantile H h 500) @ ''  p95='' @ d7 (hs_quantile H h 950) @ ''  p99='' @ d7 (hs_quantile H h 990) @
              ''  p999='' @ d7 (hs_quantile H h 999) @ ''  max='' @ d7 (hs_Max H h) @ newline)"

section \<open>The CSV file\<close>

definition csvHeader :: "string list" where
  "csvHeader =
     [''label'', ''timestamp'', ''target_rate'', ''actual_rate'', ''duration_s'', ''workers'', ''read_ratio_pct'', ''value_bytes'',
      ''key_count'', ''hot_keys'', ''hot_ratio_pct'', ''write_ops'', ''read_ops'', ''errors'', ''dropped_tokens'',
      ''wp50_us'', ''wp95_us'', ''wp99_us'', ''wp999_us'', ''wmax_us'', ''rp50_us'', ''rp95_us'', ''rp99_us'', ''rp999_us'', ''rmax_us'']"

record 'f csvRow =
  cr_Label :: string
  cr_Timestamp :: string
  cr_TargetRate :: int
  cr_ActualRate :: int
  cr_DurationSec :: 'f
  cr_Workers :: int
  cr_ReadRatioPct :: 'f
  cr_HotRatioPct :: 'f
  cr_ValueBytes :: int
  cr_KeyCount :: int
  cr_HotKeys :: int
  cr_WriteOps :: int
  cr_ReadOps :: int
  cr_Errors :: int
  cr_Dropped :: int
  cr_W :: "int \<times> int \<times> int \<times> int \<times> int"
  cr_R :: "int \<times> int \<times> int \<times> int \<times> int"

definition toRecord :: "'f Float64 \<Rightarrow> 'f csvRow \<Rightarrow> string list" where
  "toRecord F row =
     (let (wp50, wp95, wp99, wp999, wmax) = cr_W row; (rp50, rp95, rp99, rp999, rmax) = cr_R row
      in [cr_Label row, cr_Timestamp row, show_int (cr_TargetRate row), show_int (cr_ActualRate row), fl_show F 1 (cr_DurationSec row),
          show_int (cr_Workers row), fl_show F 1 (cr_ReadRatioPct row), show_int (cr_ValueBytes row), show_int (cr_KeyCount row),
          show_int (cr_HotKeys row), fl_show F 1 (cr_HotRatioPct row), show_int (cr_WriteOps row), show_int (cr_ReadOps row),
          show_int (cr_Errors row), show_int (cr_Dropped row),
          show_int wp50, show_int wp95, show_int wp99, show_int wp999, show_int wmax,
          show_int rp50, show_int rp95, show_int rp99, show_int rp999, show_int rmax])"

text \<open>\<open>csv.Writer\<close> with its defaults, on ASCII text: when a field is quoted, how, and a record with its newline.\<close>

definition fieldNeedsQuotes :: "string \<Rightarrow> bool" where
  "fieldNeedsQuotes f \<longleftrightarrow> f \<noteq> [] \<and>
     (f = [CHR 0x5C, CHR ''.''] \<or> list_ex (\<lambda>c. c \<in> {CHR 0x0A, CHR 0x0D, CHR 0x22, CHR '',''}) f \<or> is_space (hd f))"

definition csv_field :: "string \<Rightarrow> string" where
  "csv_field f =
     (if fieldNeedsQuotes f then [CHR 0x22] @ concat (map (\<lambda>c. if c = CHR 0x22 then [c, c] else [c]) f) @ [CHR 0x22] else f)"

fun csv_fields :: "string list \<Rightarrow> string" where
  "csv_fields [] = []"
| "csv_fields [f] = csv_field f"
| "csv_fields (f # fs) = csv_field f @ CHR '','' # csv_fields fs"

definition csv_Write :: "string list \<Rightarrow> string" where
  "csv_Write rec = csv_fields rec @ newline"

text \<open>\<open>appendCSV\<close>: \<open>notExist\<close> is what \<open>os.IsNotExist\<close> says of the error of \<open>Stat\<close>, \<open>mkdirAll\<close> and \<open>openErr\<close> the errors of those calls;
  the buffered writer hands its text to the file, of which \<open>out\<close> is the outcome.\<close>

definition appendCSV :: "bool \<Rightarrow> (string \<Rightarrow> IOError option) \<Rightarrow> IOError option \<Rightarrow> write_outcome \<Rightarrow> string \<Rightarrow> string list \<Rightarrow> string option \<Rightarrow>
    IOError option \<times> string option" where
  "appendCSV notExist mkdirAll openErr out path rec file =
     (let needHeader = notExist
      in case mkdirAll (dirOf path) of
           Some e \<Rightarrow> (Some e, file)
         | None \<Rightarrow>
             (case openErr of
                Some e \<Rightarrow> (Some e, file)
              | None \<Rightarrow>
                  (let old = (case file of None \<Rightarrow> [] | Some s \<Rightarrow> s);
                       text' = (if needHeader then csv_Write csvHeader else []) @ csv_Write rec
                   in (write_error out, Some (old @ (case out of WriteOk \<Rightarrow> text' | WriteErr n e \<Rightarrow> take n text'))))))"

section \<open>The summary\<close>

definition summary_line :: "string \<Rightarrow> string \<Rightarrow> string" where
  "summary_line name val = pad_right 24 name @ '' '' @ val @ newline"

text \<open>What \<open>main\<close> prints when the workers have ended, and the row; \<open>elapsed\<close> and \<open>timestamp\<close> come from the clock.\<close>

definition actualRate :: "'f Float64 \<Rightarrow> 'h workerResult \<Rightarrow> duration \<Rightarrow> 'f" where
  "actualRate F tot elapsed = fl_div F (fl_int F (wk_writeOps tot + wk_readOps tot)) (Seconds F elapsed)"

definition loadgen_summary :: "'f Float64 \<Rightarrow> 'h Histogram \<Rightarrow> 'f Flags \<Rightarrow> bytes \<Rightarrow> 'h workerResult \<Rightarrow> int \<Rightarrow> duration \<Rightarrow> string" where
  "loadgen_summary F H fg leaderAddr tot droppedTokens elapsed =
     (let totalOps = wk_writeOps tot + wk_readOps tot;
          totalErrors = wk_errors tot;
          heading = ''Load Generator Results'' @ (if fg_label fg \<noteq> [] then '' '' @ em_dash @ '' '' @ fg_label fg else [])
      in newline @ ''=== '' @ heading @ '' ==='' @ newline @
         summary_line ''Scenario:'' (orDash (fg_label fg)) @
         summary_line ''Target node:'' (text_of leaderAddr) @
         summary_line ''Duration:'' (fl_show F 1 (Seconds F elapsed) @ ''s'') @
         summary_line ''Workers:'' (show_int (fg_workers fg)) @
         summary_line ''Target rate:'' (show_int (fg_rate fg) @ '' ops/s'') @
         summary_line ''Actual rate:'' (fl_show F 0 (actualRate F tot elapsed) @ '' ops/s  ('' @ show_int totalOps @ '' total)'') @
         summary_line ''Errors:'' (show_int totalErrors @ '' ('' @
           fl_show F 3 (fl_mul F (fl_int F 100) (pct F totalErrors (totalOps + totalErrors))) @ ''%)'') @
         summary_line ''Dropped tokens:'' (show_int droppedTokens) @
         summary_line ''Read ratio:'' (fl_show F 1 (fl_mul F (fg_readRatio fg) (fl_int F 100)) @ ''%'') @
         summary_line ''Value size:'' (show_int (fg_valueSize fg) @ '' bytes'') @
         newline @
         printHist H (''Write latency ('' @ [CHR 0xC2, CHR 0xB5] @ ''s)'') (wk_writeHist tot) (wk_writeOps tot) @
         printHist H (''Read  latency ('' @ [CHR 0xC2, CHR 0xB5] @ ''s)'') (wk_readHist tot) (wk_readOps tot))"

definition quantiles :: "'h Histogram \<Rightarrow> 'h \<Rightarrow> int \<times> int \<times> int \<times> int \<times> int" where
  "quantiles H h = (hs_quantile H h 500, hs_quantile H h 950, hs_quantile H h 990, hs_quantile H h 999, hs_Max H h)"

definition loadgen_row :: "'f Float64 \<Rightarrow> 'h Histogram \<Rightarrow> 'f Flags \<Rightarrow> int \<Rightarrow> 'h workerResult \<Rightarrow> int \<Rightarrow> duration \<Rightarrow> string \<Rightarrow> 'f csvRow" where
  "loadgen_row F H fg hk tot droppedTokens elapsed timestamp =
     \<lparr>cr_Label = fg_label fg, cr_Timestamp = timestamp, cr_TargetRate = fg_rate fg,
      cr_ActualRate = fl_trunc F (actualRate F tot elapsed), cr_DurationSec = Seconds F elapsed, cr_Workers = fg_workers fg,
      cr_ReadRatioPct = fl_mul F (fg_readRatio fg) (fl_int F 100), cr_HotRatioPct = fl_mul F (fg_hotRatio fg) (fl_int F 100),
      cr_ValueBytes = fg_valueSize fg, cr_KeyCount = fg_keys fg, cr_HotKeys = hk,
      cr_WriteOps = wk_writeOps tot, cr_ReadOps = wk_readOps tot, cr_Errors = wk_errors tot, cr_Dropped = droppedTokens,
      cr_W = quantiles H (wk_writeHist tot), cr_R = quantiles H (wk_readHist tot)\<rparr>"

text \<open>The end of \<open>main\<close>: the text it prints and the CSV file; it exits with status 0 also when the row cannot be written.\<close>

definition loadgen_end :: "'f Float64 \<Rightarrow> 'h Histogram \<Rightarrow> 'f Flags \<Rightarrow> Setup \<Rightarrow> 'h LoadState \<Rightarrow> duration \<Rightarrow> string \<Rightarrow>
    bool \<Rightarrow> (string \<Rightarrow> IOError option) \<Rightarrow> IOError option \<Rightarrow> write_outcome \<Rightarrow> string option \<Rightarrow> process \<times> string option" where
  "loadgen_end F H fg su s elapsed timestamp notExist mkdirAll openErr out file =
     (let tot = totals H su s;
          text' = su_out su @ loadgen_summary F H fg (su_leaderAddr su) tot (lo_dropped s) elapsed
      in if fg_csv fg = [] then (Exited 0 text', file)
         else let rec = toRecord F (loadgen_row F H fg (su_hk su) tot (lo_dropped s) elapsed timestamp)
              in case appendCSV notExist mkdirAll openErr out (fg_csv fg) rec file of
                   (Some e, file) \<Rightarrow> (Exited 0 (text' @ ''csv write error: '' @ ProtoError_text (IO e) @ newline), file)
                 | (None, file) \<Rightarrow>
                     (Exited 0 (text' @ newline @ ''CSV row appended '' @ [CHR 0xE2, CHR 0x86, CHR 0x92] @ '' '' @ fg_csv fg @ newline), file))"

section \<open>Reading CSV\<close>

text \<open>A reader of comma-separated values, as RFC 4180 describes them: where in a field it is, the field, the record
  and the records so far. A text that is not well formed is \<open>None\<close>.\<close>

datatype csv_state = FieldStart | InPlain | InQuoted | AfterQuote

fun csv_read :: "csv_state \<Rightarrow> string \<Rightarrow> string list \<Rightarrow> string list list \<Rightarrow> string \<Rightarrow> string list list option" where
  "csv_read st f rec recs [] = (if st = FieldStart \<and> rec = [] then Some recs else None)"
| "csv_read st f rec recs (c # cs) =
     (if st = InQuoted
      then (if c = CHR 0x22 then csv_read AfterQuote f rec recs cs else csv_read InQuoted (f @ [c]) rec recs cs)
      else if c = CHR '','' then csv_read FieldStart [] (rec @ [f]) recs cs
      else if c = CHR 0x0A then csv_read FieldStart [] [] (recs @ [rec @ [f]]) cs
      else if c = CHR 0x22
      then (if st = FieldStart then csv_read InQuoted [] rec recs cs
            else if st = AfterQuote then csv_read InQuoted (f @ [c]) rec recs cs
            else None)
      else if st = AfterQuote then None
      else csv_read InPlain (f @ [c]) rec recs cs)"

lemma csv_read_plain:
  "\<not> list_ex (\<lambda>c. c \<in> {CHR 0x0A, CHR 0x0D, CHR 0x22, CHR '',''}) xs \<Longrightarrow> st \<in> {FieldStart, InPlain} \<Longrightarrow>
   csv_read st f rec recs (xs @ rest) = csv_read (if xs = [] then st else InPlain) (f @ xs) rec recs rest"
  by (induction xs arbitrary: st f) auto

lemma csv_read_quoted:
  "csv_read InQuoted f rec recs (concat (map (\<lambda>c. if c = CHR 0x22 then [c, c] else [c]) xs) @ rest) = csv_read InQuoted (f @ xs) rec recs rest"
  by (induction xs arbitrary: f) auto

lemma csv_read_field:
  assumes "c \<in> {CHR '','', CHR 0x0A}"
  shows "csv_read FieldStart [] rec recs (csv_field f @ c # rest) =
    (if c = CHR '','' then csv_read FieldStart [] (rec @ [f]) recs rest else csv_read FieldStart [] [] (recs @ [rec @ [f]]) rest)"
proof (cases "fieldNeedsQuotes f")
  case True
  then have "csv_read FieldStart [] rec recs (csv_field f @ c # rest) = csv_read InQuoted f rec recs (CHR 0x22 # c # rest)"
    using csv_read_quoted [of "[]" rec recs f "CHR 0x22 # c # rest"] by (simp add: csv_field_def)
  with assms show ?thesis by auto
next
  case False
  then have "\<not> list_ex (\<lambda>c. c \<in> {CHR 0x0A, CHR 0x0D, CHR 0x22, CHR '',''}) f" by (cases f) (auto simp: fieldNeedsQuotes_def)
  from csv_read_plain [OF this, of FieldStart "[]" rec recs "c # rest"] False
  have eq: "csv_read FieldStart [] rec recs (csv_field f @ c # rest) = csv_read (if f = [] then FieldStart else InPlain) f rec recs (c # rest)"
    by (simp only: csv_field_def if_False append_Nil insert_iff simp_thms)
  show ?thesis unfolding eq using assms by auto
qed

lemma csv_read_fields:
  "fs \<noteq> [] \<Longrightarrow> csv_read FieldStart [] rec recs (csv_Write fs @ rest) = csv_read FieldStart [] [] (recs @ [rec @ fs]) rest"
proof (induction fs arbitrary: rec rule: csv_fields.induct)
  case (2 f)
  then show ?case using csv_read_field [of "CHR 0x0A" rec recs f rest] by (simp add: csv_Write_def newline_def)
next
  case (3 f g fs)
  then show ?case using csv_read_field [of "CHR '',''" rec recs f] by (simp add: csv_Write_def)
qed simp

lemma csv_read_records:
  "list_all (\<lambda>r. r \<noteq> []) rs \<Longrightarrow> csv_read FieldStart [] [] recs (concat (map csv_Write rs)) = Some (recs @ rs)"
  by (induction rs arbitrary: recs) (simp_all add: csv_read_fields)

section \<open>Properties\<close>

text \<open>The file after several runs, each of which sees whether it exists.\<close>

fun append_all :: "(string \<Rightarrow> IOError option) \<Rightarrow> string \<Rightarrow> string list list \<Rightarrow> string option \<Rightarrow> string option" where
  "append_all mkdirAll path [] file = file"
| "append_all mkdirAll path (r # rs) file = append_all mkdirAll path rs (snd (appendCSV (file = None) mkdirAll None WriteOk path r file))"

lemma append_all_file:
  "mkdirAll (dirOf path) = None \<Longrightarrow> append_all mkdirAll path rs (Some t) = Some (t @ concat (map csv_Write rs))"
  by (induction rs arbitrary: t) (simp_all add: appendCSV_def)

text \<open>C33 (roundtrip): the CSV file. A reader of the file to which any number of runs have appended their rows finds the header
  once and then every row, field by field, whatever the labels contain, and every row has a field for each
  column of the header. A path in the root directory is refused, since \<open>dirOf\<close> makes its directory empty.\<close>

theorem csv_reads_back:
  assumes "mkdirAll (dirOf path) = None" and "rows \<noteq> []"
  shows "(\<exists>txt. append_all mkdirAll path (map (toRecord F) rows) None = Some txt \<and>
      csv_read FieldStart [] [] [] txt = Some (csvHeader # map (toRecord F) rows)) \<and>
    list_all (\<lambda>r. length r = length csvHeader) (map (toRecord F) rows) \<and>
    (mkdirAll [] = Some e \<longrightarrow> CHR ''/'' \<notin> set name \<longrightarrow> appendCSV notExist mkdirAll openErr out (CHR ''/'' # name) rec file = (Some e, file))"
proof (intro conjI impI)
  let ?rs = "map (toRecord F) rows"
  have "append_all mkdirAll path ?rs None = Some (concat (map csv_Write (csvHeader # ?rs)))"
    using assms append_all_file [where mkdirAll = mkdirAll and path = path, OF assms(1)] by (cases rows) (simp_all add: appendCSV_def)
  moreover have "list_all (\<lambda>r. r \<noteq> []) (csvHeader # ?rs)"
    by (auto simp: csvHeader_def toRecord_def list_all_iff split: prod.splits)
  ultimately show "\<exists>txt. append_all mkdirAll path ?rs None = Some txt \<and> csv_read FieldStart [] [] [] txt = Some (csvHeader # ?rs)"
    using csv_read_records [of "csvHeader # ?rs" "[]"] by auto
  show "list_all (\<lambda>r. length r = length csvHeader) ?rs"
    by (auto simp: csvHeader_def toRecord_def list_all_iff split: prod.splits)
next
  assume "mkdirAll [] = Some e" and n: "CHR ''/'' \<notin> set name"
  moreover have "LastIndex name (CHR ''/'') = - 1" using n by (induction name) (auto simp: Let_def)
  ultimately show "appendCSV notExist mkdirAll openErr out (CHR ''/'' # name) rec file = (Some e, file)"
    by (simp add: appendCSV_def dirOf_def Let_def)
qed

definition example_float :: "int Float64" where
  "example_float = \<lparr>fl_int = id, fl_add = (+), fl_mul = (*), fl_div = (div), fl_trunc = id, fl_show = (\<lambda>n x. show_int x)\<rparr>"

definition example_row :: "string \<Rightarrow> int csvRow" where
  "example_row label = loadgen_row example_float example_hist (default_flags example_float\<lparr>fg_label := label\<rparr>) 0 (new_result example_hist) 0 1000000000 ''2026-01-01 00:00:00''"

theorem csv_reads_back_witness:
  "\<exists>txt. append_all (\<lambda>d. if d = [] then Some EOF else None) ''results/r.csv'' (map (toRecord example_float) [example_row ''a,b'', example_row []]) None = Some txt \<and>
     csv_read FieldStart [] [] [] txt = Some (csvHeader # map (toRecord example_float) [example_row ''a,b'', example_row []])"
proof -
  have "(if dirOf ''results/r.csv'' = [] then Some EOF else None) = None" by (simp add: dirOf_def)
  from csv_reads_back [where mkdirAll = "\<lambda>d. if d = [] then Some EOF else None" and path = "''results/r.csv''" and F = example_float
        and rows = "[example_row ''a,b'', example_row []]", OF this] show ?thesis by blast
qed

end
