(* ===== verification/Process.thy ===== *)
theory Process
  imports Client
begin

text \<open>
  The server process: \<open>Start\<close> of \<open>server/tcp.go\<close> and \<open>main.go\<close>. What listening and accepting give are arguments, like
  the contents of the log file; \<open>log.Fatalf\<close> prints and exits with status 1 without running the deferred \<open>Close\<close>
  of the store.
\<close>

section \<open>Listening\<close>

datatype accepted = Accepted conn Reader | AcceptError IOError

text \<open>The loop of \<open>Start\<close>, which never returns: what it has printed and the connections it has started a goroutine
  for, after the given results of \<open>Accept\<close>.\<close>

fun accept_loop :: "accepted list \<Rightarrow> string \<times> (conn \<times> Reader) list" where
  "accept_loop [] = ([], [])"
| "accept_loop (Accepted c r # as) = (let (out, cs) = accept_loop as in (out, (c, r) # cs))"
| "accept_loop (AcceptError e # as) =
     (let (out, cs) = accept_loop as in (''accept error: '' @ ProtoError_text (IO e) @ newline @ out, cs))"

definition Start :: "string \<Rightarrow> IOError option \<Rightarrow> accepted list \<Rightarrow> IOError + string \<times> (conn \<times> Reader) list" where
  "Start address listenErr accepts =
     (case listenErr of
        Some e \<Rightarrow> Inl e
      | None \<Rightarrow> (let (out, cs) = accept_loop accepts in Inr (''node listening on '' @ address @ newline @ out, cs)))"

section \<open>main\<close>

text \<open>The goroutines that the two methods \<open>Start\<close> of \<open>cluster/raft.go\<close> and \<open>cluster/node.go\<close> start: the loop \<open>run\<close> of
  raft, and \<open>RunFollower\<close> under the address of the node.\<close>

datatype goroutine = GoRun | GoRunFollower bytes

definition Raft_Start :: "goroutine list" where
  "Raft_Start = [GoRun]"

definition Node_Start :: "Node \<Rightarrow> goroutine list" where
  "Node_Start n = Raft_Start @ [GoRunFollower (rf_nodeAddr (nd_raft n))]"

text \<open>Where the process is: it has exited, has panicked, or serves connections with a node.\<close>

record Serving =
  sv_node :: Node
  sv_server :: TCPServer
  sv_started :: "goroutine list"
  sv_conns :: "(conn \<times> Reader) list"
  sv_out :: string

datatype proc_status = Ended process | Running Serving

definition mode_line :: "Config \<Rightarrow> string" where
  "mode_line cfg =
     (let rest = ''  port='' @ sc_Port (cf_Server cfg) @ ''  wal='' @ tc_WALPath (cf_Store cfg) @
            ''  eviction='' @ tc_EvictionPolicy (cf_Store cfg) @ ''  max_memory='' @ FormatMemoryBytes (tc_MaxMemoryBytes (cf_Store cfg)) @ newline
      in if cc_NodeAddr (cf_Cluster cfg) = [] \<or> length (cc_Peers (cf_Cluster cfg)) = 0 then ''mode=standalone'' @ rest
         else ''mode=cluster  node='' @ cc_NodeAddr (cf_Cluster cfg) @ ''  peers=['' @ Join (cc_Peers (cf_Cluster cfg)) @ '']'' @ rest)"

definition keva_main :: "(string \<Rightarrow> duration option) \<Rightarrow> (string \<Rightarrow> string) \<Rightarrow> bytes map_order \<Rightarrow> gotime \<Rightarrow> log_file \<Rightarrow> IOError + bytes \<Rightarrow>
    IOError option \<Rightarrow> accepted list \<Rightarrow> proc_status" where
  "keva_main parseDuration env ord now file walFile listenErr accepts =
     (let cfg = Load parseDuration env
      in case NewKVStore ord now file walFile (main_walOpts cfg) (main_storeOpts cfg) of
           Panic \<Rightarrow> Ended Crashed
         | Err e \<Rightarrow> Ended (Exited 1 (''failed to start store: '' @ ProtoError_text (IO e) @ newline))
         | Ok db \<Rightarrow>
             (let node = main_node cfg db;
                  started = (if cc_NodeAddr (cf_Cluster cfg) = [] \<or> length (cc_Peers (cf_Cluster cfg)) = 0 then [] else Node_Start node)
              in case Start (sc_Port (cf_Server cfg)) listenErr accepts of
                   Inl e \<Rightarrow> Ended (Exited 1 (mode_line cfg @ ''network error: '' @ ProtoError_text (IO e) @ newline))
                 | Inr (out, cs) \<Rightarrow>
                     Running \<lparr>sv_node = node, sv_server = NewTCPServer (sc_MaxPayloadBytes (cf_Server cfg)), sv_started = started,
                       sv_conns = cs, sv_out = mode_line cfg @ out\<rparr>))"

section \<open>Lemmas\<close>

text \<open>The answer to a GET at time \<open>t\<close>, from what is stored for the key.\<close>

definition get_answer :: "gotime \<Rightarrow> (bytes \<times> gotime) option \<Rightarrow> Message" where
  "get_answer t x =
     MGetResponse (case x of
       Some (v, e) \<Rightarrow> (if t > e then \<lparr>gs_Found = False, gs_Value = []\<rparr> else \<lparr>gs_Found = True, gs_Value = v\<rparr>)
     | None \<Rightarrow> \<lparr>gs_Found = False, gs_Value = []\<rparr>)"

lemma Dispatch_get_view:
  assumes "node_inv n"
  shows "\<exists>db. Dispatch the_handlers (MGetRequest \<lparr>gr_Key = k\<rparr>) (node_store ne) n =
    Returns (Inr (get_answer (ne_now ne) (store_view (nd_db n) k))) (n\<lparr>nd_db := db\<rparr>)"
  using Node_Get_returns [OF assms, of "ne_now ne" k]
  by (auto simp: node_store_def get_answer_def store_view_def read_result_def split: option.splits)

lemma remote_get:
  assumes "node_inv n" and "fresh_conn ne c n" and "length k < 65534" and "within_limit (ts_maxPayloadBytes s) (MGetRequest \<lparr>gr_Key = k\<rparr>)"
    and "Frame_valid (get_answer (ne_now ne) (store_view (nd_db n) k))"
  shows "sendToNode (reply_of s ne c n (MGetRequest \<lparr>gr_Key = k\<rparr>)) (MGetRequest \<lparr>gr_Key = k\<rparr>) =
    Ok (get_answer (ne_now ne) (store_view (nd_db n) k))"
proof -
  obtain db where d: "Dispatch the_handlers (MGetRequest \<lparr>gr_Key = k\<rparr>) (node_store ne) n =
      Returns (Inr (get_answer (ne_now ne) (store_view (nd_db n) k))) (n\<lparr>nd_db := db\<rparr>)"
    using Dispatch_get_view [OF assms(1)] by blast
  have "Frame_valid (MGetRequest \<lparr>gr_Key = k\<rparr>)"
    using assms(3) by (simp add: Frame_valid_def EncodeMessage_layout GetRequest_Encode_layout GetRequest_valid_def)
  moreover have "fresh_conn ne c (n\<lparr>nd_db := db\<rparr>)" using assms(2) by (simp add: fresh_conn_def)
  ultimately show ?thesis using command_call(1) [OF _ _ assms(4) d assms(5)] by simp
qed

fun accepted_conns :: "accepted list \<Rightarrow> (conn \<times> Reader) list" where
  "accepted_conns [] = []"
| "accepted_conns (Accepted c r # as) = (c, r) # accepted_conns as"
| "accepted_conns (AcceptError e # as) = accepted_conns as"

lemma accept_loop_conns: "snd (accept_loop as) = accepted_conns as"
  by (induction as rule: accept_loop.induct) (auto split: prod.splits)

lemma main_node_facts:
  assumes "config_ok cfg" and "kv_inv db"
  shows "node_inv (main_node cfg db)" "nd_db (main_node cfg db) = db" "\<not> IsLeader (main_node cfg db)"
    "nd_leader (main_node cfg db) \<noteq> None \<longleftrightarrow> cc_NodeAddr (cf_Cluster cfg) = [] \<or> cc_Peers (cf_Cluster cfg) = []"
    "ne_conns ne c = WriteOk \<Longrightarrow> fresh_conn ne c (main_node cfg db)"
    "cc_NodeAddr (cf_Cluster cfg) \<noteq> [] \<Longrightarrow> cc_Peers (cf_Cluster cfg) \<noteq> [] \<Longrightarrow> Node_Start (main_node cfg db) = [GoRun, GoRunFollower (str (cc_NodeAddr (cf_Cluster cfg)))]"
  using assms
  by (auto simp: main_node_def Let_def node_inv_def config_ok_def NewNode_def ForceLeader_def newLeader_def IsLeader_def GetRole_def
      NewRaftState_def fresh_conn_def Node_Start_def Raft_Start_def)

text \<open>The process that starts on a log that was written completely.\<close>

lemma keva_main_starts:
  assumes "cfg = Load parseDuration env" and "tc_ShardCount (cf_Store cfg) < 2 ^ 32" and "list_all rec_ok rs"
  obtains sv db where "keva_main parseDuration env ord t (file_of (log_bytes rs)) (Inr (log_bytes rs)) None accepts = Running sv"
    "NewKVStore ord t (file_of (log_bytes rs)) (Inr (log_bytes rs)) (main_walOpts cfg) (main_storeOpts cfg) = Ok db"
    "kv_inv db" "store_view db = live t (log_view rs)" "kv_wal db = open_state (log_bytes rs) (main_walOpts cfg)"
    "map sh_budget (kv_shards db) = replicate (nat (so_ShardCount (main_storeOpts cfg))) (opts_budget (main_storeOpts cfg))"
    "node_inv (sv_node sv)" "nd_db (sv_node sv) = db" "nd_defaultTTL (sv_node sv) = tc_DefaultTTL (cf_Store cfg)"
    "nd_net (sv_node sv) = \<lparr>net_sent = (\<lambda>_. []), net_closed = {}\<rparr>" "sv_server sv = NewTCPServer (sc_MaxPayloadBytes (cf_Server cfg))"
proof -
  have ok: "config_ok cfg" using assms(1) Load_ok by simp
  have "opts_ok (main_storeOpts cfg)" "wal_opts_ok (main_walOpts cfg)"
    using ok assms(2) by (auto simp: opts_ok_def main_storeOpts_def config_ok_def ByName_def wal_opts_ok_def main_walOpts_def)
  then obtain db where db: "NewKVStore ord t (file_of (log_bytes rs)) (Inr (log_bytes rs)) (main_walOpts cfg) (main_storeOpts cfg) = Ok db"
    "kv_inv db" "store_view db = live t (log_view rs)" "kv_wal db = open_state (log_bytes rs) (main_walOpts cfg)"
    "map sh_budget (kv_shards db) = replicate (nat (so_ShardCount (main_storeOpts cfg))) (opts_budget (main_storeOpts cfg))"
    using assms(3) by (rule NewKVStore_log)
  obtain out cs where a: "accept_loop accepts = (out, cs)" by (cases "accept_loop accepts")
  have n: "node_inv (main_node cfg db)" "nd_db (main_node cfg db) = db"
    using main_node_facts [OF ok] db(2) by simp_all
  have m: "nd_defaultTTL (main_node cfg db) = tc_DefaultTTL (cf_Store cfg)" "nd_net (main_node cfg db) = \<lparr>net_sent = (\<lambda>_. []), net_closed = {}\<rparr>"
    by (simp_all add: main_node_def NewNode_def ForceLeader_def Let_def)
  obtain sv where "keva_main parseDuration env ord t (file_of (log_bytes rs)) (Inr (log_bytes rs)) None accepts = Running sv"
    "sv_node sv = main_node cfg db" "sv_server sv = NewTCPServer (sc_MaxPayloadBytes (cf_Server cfg))"
    using db(1) a by (simp add: keva_main_def assms(1) [symmetric] Start_def Let_def)
  with that [of sv db] db n m show ?thesis by simp
qed

section \<open>Properties\<close>

text \<open>C8 (roundtrip): the process starts and serves what its log holds. Whatever the environment contains, on a log that was
  written completely, the process serves every connection it accepts with a well-formed node: without a node address or
  peers one that can take writes as a leader, with both a follower whose goroutines have been started. A client
  that sends a GET over a connection of its own gets the entry that the log has last for the key, or nothing when that
  has expired. A process that cannot listen exits with status 1.\<close>

theorem main_serves_log:
  assumes "cfg = Load parseDuration env" and "tc_ShardCount (cf_Store cfg) < 2 ^ 32" and "list_all rec_ok rs"
  shows "\<exists>sv. (\<forall>listenErr. keva_main parseDuration env ord now (file_of (log_bytes rs)) (Inr (log_bytes rs)) listenErr accepts =
      (case listenErr of
         None \<Rightarrow> Running sv
       | Some e \<Rightarrow> Ended (Exited 1 (mode_line cfg @ ''network error: '' @ ProtoError_text (IO e) @ newline)))) \<and>
    sv_conns sv = accepted_conns accepts \<and> node_inv (sv_node sv) \<and> \<not> IsLeader (sv_node sv) \<and>
    (if cc_NodeAddr (cf_Cluster cfg) \<noteq> [] \<and> cc_Peers (cf_Cluster cfg) \<noteq> []
     then nd_leader (sv_node sv) = None \<and> sv_started sv = [GoRun, GoRunFollower (str (cc_NodeAddr (cf_Cluster cfg)))]
     else nd_leader (sv_node sv) \<noteq> None \<and> sv_started sv = []) \<and>
    (\<forall>k ne c. length k < 65534 \<and> ne_conns ne c = WriteOk \<and> within_limit (sc_MaxPayloadBytes (cf_Server cfg)) (MGetRequest \<lparr>gr_Key = k\<rparr>) \<and>
      Frame_valid (get_answer (ne_now ne) (live now (log_view rs) k)) \<longrightarrow>
      sendToNode (reply_of (sv_server sv) ne c (sv_node sv) (MGetRequest \<lparr>gr_Key = k\<rparr>)) (MGetRequest \<lparr>gr_Key = k\<rparr>) =
        Ok (get_answer (ne_now ne) (live now (log_view rs) k)))"
proof -
  have ok: "config_ok cfg" using assms(1) Load_ok by simp
  have "opts_ok (main_storeOpts cfg)"
    using ok assms(2) by (auto simp: opts_ok_def main_storeOpts_def config_ok_def ByName_def)
  moreover have "wal_opts_ok (main_walOpts cfg)"
    using ok by (simp add: wal_opts_ok_def main_walOpts_def config_ok_def)
  ultimately obtain kv where kv: "NewKVStore ord now (file_of (log_bytes rs)) (Inr (log_bytes rs)) (main_walOpts cfg) (main_storeOpts cfg) = Ok kv"
    "kv_inv kv" "store_view kv = live now (log_view rs)"
    using assms(3) by (rule NewKVStore_log)
  note n = main_node_facts [OF ok kv(2)]
  obtain out cs where a: "accept_loop accepts = (out, cs)" "cs = accepted_conns accepts"
    using accept_loop_conns [of accepts] by (cases "accept_loop accepts") auto
  let ?sv = "\<lparr>sv_node = main_node cfg kv, sv_server = NewTCPServer (sc_MaxPayloadBytes (cf_Server cfg)),
    sv_started = (if cc_NodeAddr (cf_Cluster cfg) = [] \<or> length (cc_Peers (cf_Cluster cfg)) = 0 then [] else Node_Start (main_node cfg kv)), sv_conns = cs,
    sv_out = mode_line cfg @ ''node listening on '' @ sc_Port (cf_Server cfg) @ newline @ out\<rparr>"
  have "keva_main parseDuration env ord now (file_of (log_bytes rs)) (Inr (log_bytes rs)) listenErr accepts =
      (case listenErr of
         None \<Rightarrow> Running ?sv
       | Some e \<Rightarrow> Ended (Exited 1 (mode_line cfg @ ''network error: '' @ ProtoError_text (IO e) @ newline)))" for listenErr
    using kv(1) a(1) unfolding keva_main_def assms(1) [symmetric] Let_def Start_def by (cases listenErr) simp_all
  moreover have "sendToNode (reply_of (sv_server ?sv) ne c (sv_node ?sv) (MGetRequest \<lparr>gr_Key = k\<rparr>)) (MGetRequest \<lparr>gr_Key = k\<rparr>) =
        Ok (get_answer (ne_now ne) (live now (log_view rs) k))"
    if "length k < 65534 \<and> ne_conns ne c = WriteOk \<and> within_limit (sc_MaxPayloadBytes (cf_Server cfg)) (MGetRequest \<lparr>gr_Key = k\<rparr>) \<and>
      Frame_valid (get_answer (ne_now ne) (live now (log_view rs) k))" for k ne c
    using remote_get [of "main_node cfg kv" ne c k "NewTCPServer (sc_MaxPayloadBytes (cf_Server cfg))"] that n kv(3)
    by (simp add: NewTCPServer_def)
  ultimately show ?thesis
    using n a(2) by (intro exI [of _ ?sv]) auto
qed

theorem main_serves_log_witness:
  "let rs = [set_record [1] [2] 100]; getq = MGetRequest \<lparr>gr_Key = [1]\<rparr> in
   \<exists>sv. keva_main (\<lambda>_. None) (\<lambda>_. []) (\<lambda>_ _. 0) 5 (file_of (log_bytes rs)) (Inr (log_bytes rs)) None [AcceptError EOF] = Running sv \<and>
     sendToNode (reply_of (sv_server sv) example_node_env 5 (sv_node sv) getq) getq = Ok (MGetResponse \<lparr>gs_Found = True, gs_Value = [2]\<rparr>)"
proof -
  let ?rs = "[set_record [1] [2] 100]" and ?cfg = "Load (\<lambda>_. None) (\<lambda>_. [])" and ?get = "MGetRequest \<lparr>gr_Key = [1]\<rparr>"
  have c: "tc_ShardCount (cf_Store ?cfg) < 2 ^ 32" "sc_MaxPayloadBytes (cf_Server ?cfg) = sc_MaxPayloadBytes (cf_Server Default)"
    by (simp_all add: Load_def on_env_def Default_def)
  have rs: "list_all rec_ok ?rs" by (simp add: rec_ok_def Record_valid_def set_record_def nano_range_def)
  have v: "live 5 (log_view ?rs) [1] = Some ([2], 100)"
    by (simp add: live_def log_view_def log_apply_def set_record_def)
  then have a: "get_answer (ne_now example_node_env) (live 5 (log_view ?rs) [1]) = MGetResponse \<lparr>gs_Found = True, gs_Value = [2]\<rparr>"
    by (simp add: get_answer_def example_node_env_def)
  have "EncodeMessage ?get = Ok [OpGet, 0, 1, 1]"
    by (simp add: EncodeMessage_layout GetRequest_Encode_layout PutUint16_def be_put_numeral)
  then have w: "within_limit (sc_MaxPayloadBytes (cf_Server ?cfg)) ?get"
    unfolding c(2) by (simp add: within_limit_def Default_def)
  have f: "Frame_valid (MGetResponse \<lparr>gs_Found = True, gs_Value = [2]\<rparr>)"
    by (simp add: Frame_valid_def EncodeMessage_layout GetResponse_Encode_layout GetResponse_valid_def)
  have ne: "ne_conns example_node_env 5 = WriteOk" by (simp add: example_node_env_def)
  from main_serves_log [OF refl c(1) rs, of "\<lambda>_ _. 0" 5 "[AcceptError EOF]"] obtain sv where
    "keva_main (\<lambda>_. None) (\<lambda>_. []) (\<lambda>_ _. 0) 5 (file_of (log_bytes ?rs)) (Inr (log_bytes ?rs)) None [AcceptError EOF] = Running sv"
    and get: "\<forall>k ne c. length k < 65534 \<and> ne_conns ne c = WriteOk \<and> within_limit (sc_MaxPayloadBytes (cf_Server ?cfg)) (MGetRequest \<lparr>gr_Key = k\<rparr>) \<and>
      Frame_valid (get_answer (ne_now ne) (live 5 (log_view ?rs) k)) \<longrightarrow>
      sendToNode (reply_of (sv_server sv) ne c (sv_node sv) (MGetRequest \<lparr>gr_Key = k\<rparr>)) (MGetRequest \<lparr>gr_Key = k\<rparr>) =
        Ok (get_answer (ne_now ne) (live 5 (log_view ?rs) k))"
    by auto
  with get [rule_format, of "[1]" example_node_env 5] a f w ne show ?thesis unfolding Let_def by auto
qed

end
