(* ===== verification/System.thy ===== *)
theory System
  imports Process
begin

text \<open>
  Whole processes together: clients, the server process, its store and its log. The requests of clients come over one
  connection each, through the encoders, the frames, the server, the engine, the node and the store.

  Shown: a process that is killed and started again answers as if it had run on, in the mode \<open>always\<close>, and as if it had run up to
  some moment not long ago, in the mode \<open>interval\<close>.
\<close>

section \<open>What happens to a process\<close>

text \<open>A request of a client over a connection of its own, a round of the goroutine that sweeps expired keys, and a step of the
  goroutine that writes the log in the mode \<open>interval\<close>.\<close>

datatype event = Request NodeEnv conn Message | Sweeps "bytes map_order" gotime | Flushes wal_event

fun happen :: "TCPServer \<Rightarrow> event \<Rightarrow> Node \<Rightarrow> Node" where
  "happen s (Request ne c msg) n = node_after s ne c n msg"
| "happen s (Sweeps ord now) n = n\<lparr>nd_db := sweep ord now (nd_db n)\<rparr>"
| "happen s (Flushes ev) n =
     (case wal_exec ev (kv_wal (nd_db n)) of
        None \<Rightarrow> n
      | Some w \<Rightarrow> n\<lparr>nd_db := (nd_db n)\<lparr>kv_wal := w\<rparr>\<rparr>)"

section \<open>Lemmas\<close>

text \<open>What an event does to the map of keys that the clients have in mind.\<close>

fun effect :: "duration \<Rightarrow> event \<Rightarrow> view \<Rightarrow> view" where
  "effect ttl (Request ne c (MSetRequest r)) v =
     v(sr_Key r \<mapsto> (sr_Value r, ne_now ne + (if sint (sr_TTL r) \<le> 0 then ttl else sint (sr_TTL r))))"
| "effect ttl (Request ne c (MDeleteRequest d)) v = v(dr_Key d := None)"
| "effect ttl _ v = v"

text \<open>The expiry that a write would get fits the log and the messages.\<close>

fun expiry_fits :: "duration \<Rightarrow> gotime \<Rightarrow> Message \<Rightarrow> bool" where
  "expiry_fits ttl now (MSetRequest r) \<longleftrightarrow> nano_range (now + (if sint (sr_TTL r) \<le> 0 then ttl else sint (sr_TTL r)))"
| "expiry_fits ttl now _ \<longleftrightarrow> True"

text \<open>A command that a frame and the limit of the server take, while the log of the node can be written.\<close>

definition request_ok :: "TCPServer \<Rightarrow> duration \<Rightarrow> NodeEnv \<Rightarrow> Message \<Rightarrow> bool" where
  "request_ok s ttl ne msg \<longleftrightarrow> is_command msg \<and> Frame_valid msg \<and> within_limit (ts_maxPayloadBytes s) msg \<and>
     file_works (ne_env ne) \<and> expiry_fits ttl (ne_now ne) msg"

lemma node_after_command:
  assumes "is_command msg" and "Frame_valid msg" and "within_limit (ts_maxPayloadBytes s) msg"
    and "Dispatch the_handlers msg (node_store ne) n = Returns (Inr resp) n'"
  shows "node_after s ne c n msg = close_conn c (snd (writeMessage ne c resp n'))"
proof -
  have op: "OpCode msg \<noteq> OpReplicationJoin" "OpCode msg \<noteq> OpHeartbeat" "OpCode msg \<noteq> OpVoteRequest" "OpCode msg \<noteq> OpTopologyRequest"
    using assms(1) by (cases msg; simp add: opcode_defs)+
  obtain f where f: "EncodeFrame msg = Ok f" using assms(2) by (rule Frame_validE) blast
  have "dispatchClient ne c msg n = Returns (Inr ()) (snd (writeMessage ne c resp n'))"
    using assms(4) op(4) by (simp add: dispatchClient_def dispatchToEngine_def)
  from handleConnection_one [OF assms(2,3) f op(1-3) this] show ?thesis by (simp add: node_after_def f)
qed

lemma command_sizes:
  "Frame_valid (MSetRequest r) \<Longrightarrow> length (sr_Key r) < 65522 \<and> length (sr_Key r) + length (sr_Value r) + 15 < 4294967296"
  "Frame_valid (MDeleteRequest d) \<Longrightarrow> length (dr_Key d) < 65536"
  by (auto simp: Frame_valid_def EncodeMessage_layout SetRequest_valid_def DeleteRequest_valid_def SetRequest_Encode_layout)

text \<open>What a client reads depends on the live entries of an earlier time only.\<close>

lemma get_answer_live: "t < now \<Longrightarrow> get_answer now (live t v k) = get_answer now (v k)"
  by (auto simp: get_answer_def live_def split: option.splits)

lemma get_answer_cong: "live t v = live t v' \<Longrightarrow> t < now \<Longrightarrow> get_answer now (v k) = get_answer now (v' k)"
  using get_answer_live [of t now v k] get_answer_live [of t now v' k] by simp

text \<open>Every \<open>GET\<close> after time \<open>t\<close>, over a connection of its own, is answered from \<open>v\<close>, where the key, the limit of the server and
  the answer allow frames.\<close>

definition answers_gets :: "TCPServer \<Rightarrow> Node \<Rightarrow> gotime \<Rightarrow> view \<Rightarrow> bool" where
  "answers_gets s n t v \<longleftrightarrow>
     (\<forall>k ne c. t < ne_now ne \<and> fresh_conn ne c n \<and> length k < 65534 \<and> within_limit (ts_maxPayloadBytes s) (MGetRequest \<lparr>gr_Key = k\<rparr>) \<and>
       Frame_valid (get_answer (ne_now ne) (v k)) \<longrightarrow>
       sendToNode (reply_of s ne c n (MGetRequest \<lparr>gr_Key = k\<rparr>)) (MGetRequest \<lparr>gr_Key = k\<rparr>) = Ok (get_answer (ne_now ne) (v k)))"

lemma answers_gets_live:
  assumes "node_inv n" and "live t (store_view (nd_db n)) = live t v"
  shows "answers_gets s n t v"
  unfolding answers_gets_def using remote_get [OF assms(1)] get_answer_cong [OF assms(2)] by simp

subsection \<open>Durability\<close>

text \<open>The log has what the store has, and both have the entries of \<open>v\<close> that live at time \<open>t\<close>.\<close>

definition durable :: "duration \<Rightarrow> gotime \<Rightarrow> view \<Rightarrow> Node \<Rightarrow> bool" where
  "durable ttl t v n \<longleftrightarrow> node_inv n \<and> nd_defaultTTL n = ttl \<and> log_agrees t (nd_db n) \<and> live t (store_view (nd_db n)) = live t v"

lemma durable_output: "durable ttl t v (close_conn c (snd (writeMessage ne c m n))) = durable ttl t v n"
  by (simp add: durable_def node_inv_def)

lemma Node_Set_keeps_TTL: "Node_Set ne key val ttl n = Returns r n' \<Longrightarrow> nd_defaultTTL n' = nd_defaultTTL n"
  by (cases "SetWithExpiry (ne_env ne) key val (Node_Set_expiry ne ttl n) (nd_db n)")
    (auto simp: Node_Set_def Node_Set_broadcast_def Let_def split: sum.splits option.splits)

lemma Node_Delete_keeps_TTL: "Node_Delete ne key n = Returns r n' \<Longrightarrow> nd_defaultTTL n' = nd_defaultTTL n"
  by (cases "Delete (ne_env ne) key (nd_db n)") (auto simp: Node_Delete_def Node_Delete_broadcast_def split: sum.splits option.splits)

lemma durable_set:
  assumes "durable ttl t v n" and "file_works (ne_env ne)" and "length key < 65536" and "length val < 4294967296"
    and "nano_range (Node_Set_expiry ne d n)"
  shows "\<exists>n'. Node_Set ne key val d n = Returns (Inr ()) n' \<and> durable ttl t (v(key \<mapsto> (val, Node_Set_expiry ne d n))) n'"
proof -
  let ?e = "Node_Set_expiry ne d n"
  have n: "node_inv n" "nd_defaultTTL n = ttl" "log_agrees t (nd_db n)" "live t (store_view (nd_db n)) = live t v"
    using assms(1) by (simp_all add: durable_def)
  obtain db where db: "SetWithExpiry (ne_env ne) key val ?e (nd_db n) = Returns (Inr ()) db" "log_agrees t db"
    using log_agrees_set [OF n(3), of t "ne_env ne" key val ?e] assms(2-5) by (auto simp: file_works_def)
  have v: "store_view db = (store_view (nd_db n))(key \<mapsto> (val, ?e))"
    using SetWithExpiry_view [OF _ _ db(1)] n(3) by (simp add: log_agrees_def)
  obtain n' where n': "Node_Set ne key val d n = Returns (Inr ()) n'" "nd_db n' = db" "node_inv n'"
    using Node_Set_returns [OF n(1) db(1)] by blast
  with db(2) v n(2) Node_Set_keeps_TTL [OF n'(1)] n(4) show ?thesis by (simp add: durable_def)
qed

lemma durable_delete:
  assumes "durable ttl t v n" and "file_works (ne_env ne)" and "length key < 65536"
  shows "\<exists>r n'. Node_Delete ne key n = Returns r n' \<and> durable ttl t (v(key := None)) n'"
proof -
  have n: "node_inv n" "nd_defaultTTL n = ttl" "log_agrees t (nd_db n)" "live t (store_view (nd_db n)) = live t v"
    using assms(1) by (simp_all add: durable_def)
  obtain r db where db: "Delete (ne_env ne) key (nd_db n) = Returns r db" "log_agrees t db" "store_view db = (store_view (nd_db n))(key := None)"
    using log_agrees_delete [OF n(3), of t "ne_env ne" key] assms(2,3) by (auto simp: file_works_def)
  obtain n' where n': "Node_Delete ne key n = Returns r n'" "nd_db n' = db" "node_inv n'"
    using Node_Delete_returns [OF n(1) db(1)] by blast
  with db(2,3) n(2) Node_Delete_keeps_TTL [OF n'(1)] n(4) show ?thesis by (simp add: durable_def)
qed

lemma durable_get:
  assumes "durable ttl t v n"
  shows "\<exists>r n'. Node_Get now key n = Returns r n' \<and> (\<forall>e. r = Inl e \<longrightarrow> e = ErrKeyNotFound) \<and> durable ttl t v n'"
proof -
  have n: "node_inv n" "log_agrees t (nd_db n)" using assms by (simp_all add: durable_def)
  obtain r db where g: "Get now key (nd_db n) = Returns r db" "log_agrees t db"
    using log_agrees_get [OF n(2)] by blast
  have "\<forall>e. r = Inl e \<longrightarrow> e = ErrKeyNotFound"
    using g(1) Get_result [of "nd_db n" now key] n(1) by (auto simp: node_inv_def read_result_def split: option.splits if_splits)
  moreover have "store_view db = store_view (nd_db n)"
    using Get_store [OF _ g(1)] n(1) by (simp add: node_inv_def store_view_def [abs_def])
  then have "durable ttl t v (n\<lparr>nd_db := db\<rparr>)" using assms g(2) by (simp add: durable_def node_inv_def log_agrees_def)
  ultimately show ?thesis using g(1) by (auto simp: Node_Get_def)
qed

lemma durable_command:
  assumes "durable ttl t v n" and "request_ok s ttl ne msg"
  shows "\<exists>resp n'. Dispatch the_handlers msg (node_store ne) n = Returns (Inr resp) n' \<and> durable ttl t (effect ttl (Request ne c msg) v) n'"
proof -
  have r: "is_command msg" "file_works (ne_env ne)" "expiry_fits ttl (ne_now ne) msg" "Frame_valid msg" "nd_defaultTTL n = ttl"
    using assms by (simp_all add: request_ok_def durable_def)
  then consider (set) q where "msg = MSetRequest q" | (delete) d where "msg = MDeleteRequest d" | (get) g where "msg = MGetRequest g"
    by (cases msg) simp_all
  then show ?thesis
  proof cases
    case set
    have e: "Node_Set_expiry ne (sint (sr_TTL q)) n = ne_now ne + (if sint (sr_TTL q) \<le> 0 then ttl else sint (sr_TTL q))"
      using r(5) by (simp add: Node_Set_expiry_def Let_def)
    have "length (sr_Key q) < 65536" "length (sr_Value q) < 4294967296" "nano_range (Node_Set_expiry ne (sint (sr_TTL q)) n)"
      using r(3,4) set command_sizes(1) [of q] by (simp_all add: e)
    from durable_set [OF assms(1) r(2) this] set show ?thesis unfolding e by (auto simp: node_store_def)
  next
    case delete
    with durable_delete [OF assms(1) r(2), of "dr_Key d"] command_sizes(2) [of d] r(4) obtain res n' where
      "Node_Delete ne (dr_Key d) n = Returns res n'" "durable ttl t (v(dr_Key d := None)) n'" by auto
    with delete show ?thesis by (cases res) (simp_all add: node_store_def)
  next
    case get
    obtain res n' where "Node_Get (ne_now ne) (gr_Key g) n = Returns res n'" "\<forall>e. res = Inl e \<longrightarrow> e = ErrKeyNotFound" "durable ttl t v n'"
      using durable_get [OF assms(1)] by blast
    with get show ?thesis by (cases res) (simp_all add: node_store_def)
  qed
qed

text \<open>Sweeps do not come after the time of the restart; there is no flusher in the mode \<open>always\<close>.\<close>

fun happening_ok :: "TCPServer \<Rightarrow> duration \<Rightarrow> gotime \<Rightarrow> event \<Rightarrow> bool" where
  "happening_ok s ttl t (Request ne c msg) \<longleftrightarrow> request_ok s ttl ne msg"
| "happening_ok s ttl t (Sweeps ord now) \<longleftrightarrow> now \<le> t"
| "happening_ok s ttl t (Flushes ev) \<longleftrightarrow> False"

lemma durable_event:
  assumes "durable ttl t v n" and "happening_ok s ttl t e"
  shows "durable ttl t (effect ttl e v) (happen s e n)"
proof (cases e)
  case (Request ne c msg)
  with assms(2) have r: "request_ok s ttl ne msg" by simp
  with durable_command [OF assms(1)] obtain resp n' where
    "Dispatch the_handlers msg (node_store ne) n = Returns (Inr resp) n'" "durable ttl t (effect ttl (Request ne c msg) v) n'"
    by blast
  with r Request show ?thesis by (simp add: node_after_command request_ok_def durable_output)
next
  case (Sweeps ord now)
  have n: "kv_inv (nd_db n)" "log_agrees t (nd_db n)" using assms(1) by (simp_all add: durable_def node_inv_def)
  have "live t (store_view (sweep ord now (nd_db n))) = live t (store_view (nd_db n))"
    using sweep_spec [OF n(1), of ord now] assms(2) Sweeps by (auto simp: store_view_def live_def fun_eq_iff split: option.splits)
  with Sweeps assms log_agrees_sweep [OF n(2), of now ord] show ?thesis
    by (simp add: durable_def node_inv_def log_agrees_def)
qed (use assms(2) in simp)

lemma durable_events:
  "durable ttl t v n \<Longrightarrow> list_all (happening_ok s ttl t) es \<Longrightarrow> durable ttl t (fold (effect ttl) es v) (fold (happen s) es n)"
  by (induction es arbitrary: v n) (simp_all add: durable_event)

text \<open>The process on a log that was written completely, in the mode \<open>always\<close> and without a memory cap.\<close>

lemma keva_main_durable:
  assumes "cfg = Load parseDuration env" and "tc_ShardCount (cf_Store cfg) < 2 ^ 32" and "tc_MaxMemoryBytes (cf_Store cfg) \<le> 0"
    and "wc_Mode (cf_WAL cfg) = SyncAlways" and "list_all rec_ok rs"
  obtains sv where "keva_main parseDuration env ord t (file_of (log_bytes rs)) (Inr (log_bytes rs)) None accepts = Running sv"
    "durable (tc_DefaultTTL (cf_Store cfg)) t (log_view rs) (sv_node sv)" "store_view (nd_db (sv_node sv)) = live t (log_view rs)"
    "sv_server sv = NewTCPServer (sc_MaxPayloadBytes (cf_Server cfg))" "nd_net (sv_node sv) = \<lparr>net_sent = (\<lambda>_. []), net_closed = {}\<rparr>"
proof -
  obtain sv db where sv: "keva_main parseDuration env ord t (file_of (log_bytes rs)) (Inr (log_bytes rs)) None accepts = Running sv"
    "NewKVStore ord t (file_of (log_bytes rs)) (Inr (log_bytes rs)) (main_walOpts cfg) (main_storeOpts cfg) = Ok db"
    "store_view db = live t (log_view rs)" "node_inv (sv_node sv)" "nd_db (sv_node sv) = db" "nd_defaultTTL (sv_node sv) = tc_DefaultTTL (cf_Store cfg)"
    "nd_net (sv_node sv) = \<lparr>net_sent = (\<lambda>_. []), net_closed = {}\<rparr>" "sv_server sv = NewTCPServer (sc_MaxPayloadBytes (cf_Server cfg))"
    using assms(1,2,5) by (rule keva_main_starts)
  have "opts_ok (main_storeOpts cfg)"
    using Load_ok assms(1,2) by (auto simp: opts_ok_def main_storeOpts_def config_ok_def ByName_def)
  then obtain db' where "NewKVStore ord t (file_of (log_bytes rs)) (Inr (log_bytes rs)) (main_walOpts cfg) (main_storeOpts cfg) = Ok db'" "log_agrees t db'"
    by (rule log_agrees_restart [OF _ _ assms(5), of "main_storeOpts cfg" "main_walOpts cfg"])
      (use assms(3,4) in \<open>simp_all add: main_walOpts_def main_storeOpts_def\<close>)
  with that [of sv] sv show ?thesis by (simp add: durable_def live_live)
qed

lemma durable_mono: "durable ttl t v n \<Longrightarrow> t \<le> t' \<Longrightarrow> durable ttl t' v n"
  using live_live [of t t'] log_agrees_mono unfolding durable_def by metis

section \<open>Properties\<close>

text \<open>C2 (roundtrip): a restart is invisible. A process in the mode \<open>always\<close> without a memory cap is started on a log, in whatever environment
  otherwise, serves any commands of clients, one after the other, and sweeps expired keys any number of times, is killed at any moment
  between them, and is started again later on the file it leaves; no write or sync of the log fails. A time to live that a client sends
  with a \<open>SET\<close> counts when it is positive, else the default one. Then all of the file was on stable storage, the process starts, and every \<open>GET\<close>
  that comes later still is answered alike by the new process and by the old one, had it run on: from the map that the log
  and the commands describe.\<close>

theorem restart_invisible:
  assumes "cfg = Load parseDuration env" and "tc_ShardCount (cf_Store cfg) < 2 ^ 32" and "tc_MaxMemoryBytes (cf_Store cfg) \<le> 0"
    and "wc_Mode (cf_WAL cfg) = SyncAlways" and "list_all rec_ok rs" and "t0 \<le> t"
    and "list_all (happening_ok (NewTCPServer (sc_MaxPayloadBytes (cf_Server cfg))) (tc_DefaultTTL (cf_Store cfg)) t) es"
  shows "\<exists>sv n sv'. keva_main parseDuration env ord t0 (file_of (log_bytes rs)) (Inr (log_bytes rs)) None accepts = Running sv \<and>
    n = fold (happen (sv_server sv)) es (sv_node sv) \<and> w_synced (kv_wal (nd_db n)) = length (w_disk (kv_wal (nd_db n))) \<and>
    keva_main parseDuration env ord' t (file_of (w_disk (kv_wal (nd_db n)))) (Inr (w_disk (kv_wal (nd_db n)))) None accepts' = Running sv' \<and>
    (\<forall>ne c. ne_conns ne c = WriteOk \<longrightarrow> fresh_conn ne c (sv_node sv')) \<and>
    answers_gets (sv_server sv) n t (fold (effect (tc_DefaultTTL (cf_Store cfg))) es (log_view rs)) \<and>
    answers_gets (sv_server sv') (sv_node sv') t (fold (effect (tc_DefaultTTL (cf_Store cfg))) es (log_view rs))"
proof -
  let ?s = "NewTCPServer (sc_MaxPayloadBytes (cf_Server cfg))" and ?ttl = "tc_DefaultTTL (cf_Store cfg)"
  let ?v = "fold (effect ?ttl) es (log_view rs)"
  obtain sv where sv: "keva_main parseDuration env ord t0 (file_of (log_bytes rs)) (Inr (log_bytes rs)) None accepts = Running sv"
    "durable ?ttl t0 (log_view rs) (sv_node sv)" "sv_server sv = ?s"
    using assms(1-5) by (rule keva_main_durable)
  let ?n = "fold (happen (sv_server sv)) es (sv_node sv)"
  from sv(2) assms(6) have "durable ?ttl t (log_view rs) (sv_node sv)" by (rule durable_mono)
  then have n: "node_inv ?n" "log_agrees t (nd_db ?n)" "live t (store_view (nd_db ?n)) = live t ?v"
    using durable_events [OF _ assms(7)] sv(3) by (simp_all add: durable_def)
  then obtain rs' where rs': "w_disk (kv_wal (nd_db ?n)) = log_bytes rs'" "list_all rec_ok rs'"
    "live t (store_view (nd_db ?n)) = live t (log_view rs')" "w_synced (kv_wal (nd_db ?n)) = length (w_disk (kv_wal (nd_db ?n)))"
    by (auto simp: log_agrees_def)
  obtain sv' where sv': "keva_main parseDuration env ord' t (file_of (log_bytes rs')) (Inr (log_bytes rs')) None accepts' = Running sv'"
    "durable ?ttl t (log_view rs') (sv_node sv')" "sv_server sv' = ?s" "nd_net (sv_node sv') = \<lparr>net_sent = (\<lambda>_. []), net_closed = {}\<rparr>"
    using assms(1-4) rs'(2) by (rule keva_main_durable)
  have i: "node_inv (sv_node sv')" "live t (store_view (nd_db (sv_node sv'))) = live t ?v"
    using sv'(2) n(3) rs'(3) by (simp_all add: durable_def)
  have "fresh_conn ne c (sv_node sv')" if "ne_conns ne c = WriteOk" for ne c using that sv'(4) by (simp add: fresh_conn_def)
  with sv(1) sv'(1) rs'(1,4) answers_gets_live [OF n(1,3)] answers_gets_live [OF i] show ?thesis
    by - (rule exI [of _ sv], rule exI [of _ ?n], rule exI [of _ sv'], simp)
qed

theorem restart_invisible_witness:
  "let env = (\<lambda>x. if x = ''KV_WAL_MODE'' then ''always'' else []); set = MSetRequest \<lparr>sr_Key = [1], sr_Value = [2], sr_TTL = 0\<rparr>;
       get = MGetRequest \<lparr>gr_Key = [1]\<rparr>; ne = example_node_env\<lparr>ne_now := 30\<rparr> in
   \<exists>sv n sv'. keva_main (\<lambda>_. None) env (\<lambda>_ _. 0) 5 (file_of (log_bytes [])) (Inr (log_bytes [])) None [] = Running sv \<and>
     n = happen (sv_server sv) (Sweeps (\<lambda>_ _. 0) 15) (happen (sv_server sv) (Request example_node_env 5 set) (sv_node sv)) \<and>
     keva_main (\<lambda>_. None) env (\<lambda>_ _. 0) 20 (file_of (w_disk (kv_wal (nd_db n)))) (Inr (w_disk (kv_wal (nd_db n)))) None [] = Running sv' \<and>
     sendToNode (reply_of (sv_server sv') ne 6 (sv_node sv') get) get = Ok (MGetResponse \<lparr>gs_Found = True, gs_Value = [2]\<rparr>)"
proof -
  let ?env = "\<lambda>x. if x = ''KV_WAL_MODE'' then ''always'' else []" and ?set = "MSetRequest \<lparr>sr_Key = [1], sr_Value = [2], sr_TTL = 0\<rparr>"
  let ?get = "MGetRequest \<lparr>gr_Key = [1]\<rparr>" and ?cfg = "Load (\<lambda>_. None) ?env" and ?ne = "example_node_env\<lparr>ne_now := 30\<rparr>"
  let ?es = "[Request example_node_env 5 ?set, Sweeps (\<lambda>_ _. 0) 15]"
  have c: "tc_ShardCount (cf_Store ?cfg) < 2 ^ 32" "tc_MaxMemoryBytes (cf_Store ?cfg) \<le> 0" "wc_Mode (cf_WAL ?cfg) = SyncAlways"
    "sc_MaxPayloadBytes (cf_Server ?cfg) = 10 * 1024 * 1024" "tc_DefaultTTL (cf_Store ?cfg) = 900000000000"
    by (simp_all add: Load_def on_env_def Default_def set_WAL_def SyncAlways_def)
  have m: "EncodeMessage ?get = Ok [OpGet, 0, 1, 1]" "EncodeMessage ?set = Ok (OpSet # 0 # 1 # PutUint32 1 @ PutUint64 0 @ [1, 2])"
    by (simp_all add: EncodeMessage_layout GetRequest_Encode_layout SetRequest_Encode_layout PutUint16_def be_put_numeral)
  have ok: "list_all (happening_ok (NewTCPServer (sc_MaxPayloadBytes (cf_Server ?cfg))) (tc_DefaultTTL (cf_Store ?cfg)) 20) ?es"
    unfolding c(4,5)
    by (simp add: request_ok_def Frame_valid_def m(2) SetRequest_valid_def within_limit_def NewTCPServer_def file_works_def
        example_node_env_def example_env_def nano_range_def)
  have v: "fold (effect (tc_DefaultTTL (cf_Store ?cfg))) ?es (log_view []) [1] = Some ([2], 900000000007)"
    unfolding c(5) by (simp add: example_node_env_def)
  have a: "get_answer 30 (Some ([2], 900000000007)) = MGetResponse \<lparr>gs_Found = True, gs_Value = [2]\<rparr>" by (simp add: get_answer_def)
  have w: "within_limit (sc_MaxPayloadBytes (cf_Server ?cfg)) ?get" unfolding c(4) by (simp add: within_limit_def m(1))
  have f: "Frame_valid (MGetResponse \<lparr>gs_Found = True, gs_Value = [2]\<rparr>)"
    by (simp add: Frame_valid_def EncodeMessage_layout GetResponse_Encode_layout GetResponse_valid_def)
  have le: "(5 :: int) \<le> 20" and rs: "list_all rec_ok []" by simp_all
  from restart_invisible [OF refl c(1-3) rs le ok, of "\<lambda>_ _. 0" "[]" "\<lambda>_ _. 0" "[]"] obtain sv n sv' where
    r: "keva_main (\<lambda>_. None) ?env (\<lambda>_ _. 0) 5 (file_of (log_bytes [])) (Inr (log_bytes [])) None [] = Running sv"
      "n = fold (happen (sv_server sv)) ?es (sv_node sv)"
      "keva_main (\<lambda>_. None) ?env (\<lambda>_ _. 0) 20 (file_of (w_disk (kv_wal (nd_db n)))) (Inr (w_disk (kv_wal (nd_db n)))) None [] = Running sv'"
      "answers_gets (sv_server sv') (sv_node sv') 20 (fold (effect (tc_DefaultTTL (cf_Store ?cfg))) ?es (log_view []))"
      "fresh_conn ?ne 6 (sv_node sv')"
    by (elim exE conjE) (simp add: example_node_env_def)
  have s: "ts_maxPayloadBytes (sv_server sv') = sc_MaxPayloadBytes (cf_Server ?cfg)"
    using r(3) by (auto simp: keva_main_def Let_def NewTCPServer_def split: go.splits sum.splits)
  have "sendToNode (reply_of (sv_server sv') ?ne 6 (sv_node sv') ?get) ?get = Ok (MGetResponse \<lparr>gs_Found = True, gs_Value = [2]\<rparr>)"
    using r(4) [unfolded answers_gets_def, rule_format, of ?ne 6 "[1]"] r(5) v a w f s by simp
  with r show ?thesis unfolding Let_def by auto
qed

end
