(* ===== verification/System_Interval.thy ===== *)
theory System_Interval
  imports System
begin

text \<open>
  Restarts in the mode \<open>interval\<close>, the default: the store acknowledges writes that the flusher has not written yet. Shown: a process
  that is killed, between the steps of the flusher or in the middle of a flush, and started again answers as if it had been killed a bounded
  number of writes earlier.
\<close>

section \<open>The records of a run\<close>

text \<open>What an event adds to the log.\<close>

fun event_records :: "duration \<Rightarrow> event \<Rightarrow> Record list" where
  "event_records ttl (Request ne c (MSetRequest r)) =
     [set_record (sr_Key r) (sr_Value r) (ne_now ne + (if sint (sr_TTL r) \<le> 0 then ttl else sint (sr_TTL r)))]"
| "event_records ttl (Request ne c (MDeleteRequest d)) = [delete_record (dr_Key d)]"
| "event_records ttl _ = []"

lemma event_records_effect: "fold log_apply (event_records ttl e) v = effect ttl e v"
  by (cases "(ttl, e, v)" rule: effect.cases)
    (simp_all add: log_apply_def set_record_def delete_record_def WAL_OpSet_def WAL_OpDelete_def)

lemma run_records_effect: "fold log_apply (concat (map (event_records ttl) es)) v = fold (effect ttl) es v"
  by (induction es arbitrary: v) (simp_all add: event_records_effect)

text \<open>The steps of the flusher, while the operating system reports no error.\<close>

fun flushing :: "wal_event \<Rightarrow> bool" where
  "flushing (Recv outs sy) \<longleftrightarrow> event_ok (Recv outs sy)"
| "flushing (Tick outs sy) \<longleftrightarrow> event_ok (Tick outs sy)"
| "flushing _ \<longleftrightarrow> False"

fun interval_ok :: "TCPServer \<Rightarrow> duration \<Rightarrow> gotime \<Rightarrow> event \<Rightarrow> bool" where
  "interval_ok s ttl t (Request ne c msg) \<longleftrightarrow> request_ok s ttl ne msg"
| "interval_ok s ttl t (Sweeps ord now) \<longleftrightarrow> now \<le> t"
| "interval_ok s ttl t (Flushes ev) \<longleftrightarrow> flushing ev"

text \<open>No command of the run waits for the flusher.\<close>

fun answered :: "TCPServer \<Rightarrow> event list \<Rightarrow> Node \<Rightarrow> bool" where
  "answered s [] n \<longleftrightarrow> True"
| "answered s (e # es) n \<longleftrightarrow>
     (case e of Request ne c msg \<Rightarrow> Dispatch the_handlers msg (node_store ne) n \<noteq> Blocks | _ \<Rightarrow> True) \<and> answered s es (happen s e n)"

text \<open>A flush that is going on. It began with a tick, or the flusher received a record first. Commands that come while it goes on queue their
  records in the channel; \<open>i\<close> of its writes have returned.\<close>

definition flush_begins :: "bool \<Rightarrow> Node \<Rightarrow> Node" where
  "flush_begins received n =
     (case w_writeCh (kv_wal (nd_db n)) of
        [] \<Rightarrow> n
      | d # q \<Rightarrow>
          (if received \<and> w_flusher (kv_wal (nd_db n))
           then n\<lparr>nd_db := (nd_db n)\<lparr>kv_wal := (kv_wal (nd_db n))\<lparr>w_writeCh := q, w_batch := w_batch (kv_wal (nd_db n)) @ [d]\<rparr>\<rparr>\<rparr> else n))"

definition file_in_flush :: "nat \<Rightarrow> Node \<Rightarrow> bytes" where
  "file_in_flush i n = (let w = kv_wal (nd_db n) in w_disk (write_batch (\<lambda>_. WriteOk) 0 (take i (w_batch w)) w))"

section \<open>Lemmas\<close>

text \<open>How much can be waiting: \<open>m\<close> records at the flusher, two batches in the channel.\<close>

definition window :: "int \<Rightarrow> WAL \<Rightarrow> bool" where
  "window m w \<longleftrightarrow> w_Mode w = SyncInterval \<and> 0 < w_MaxBatchSize w \<and> int (length (w_batch w)) \<le> m \<and> int (length (w_writeCh w)) \<le> w_MaxBatchSize w * 2"

lemma window_inv_window: "window_inv w \<longleftrightarrow> window (w_MaxBatchSize w - 1) w"
  by (auto simp: window_inv_def window_def)

lemma window_append: "window m w \<Longrightarrow> append out sy r w = Some (err, w') \<Longrightarrow> window m w'"
  by (auto simp: append_def window_def Let_def split: if_splits)

text \<open>The records \<open>apps\<close> are on disk or wait for it, and the store holds what they make of the log at the start.\<close>

definition journaled :: "int \<Rightarrow> Options \<Rightarrow> duration \<Rightarrow> gotime \<Rightarrow> Record list \<Rightarrow> Record list \<Rightarrow> Node \<Rightarrow> bool" where
  "journaled m opts ttl t rs apps n \<longleftrightarrow> node_inv n \<and> nd_defaultTTL n = ttl \<and> unlimited (nd_db n) \<and>
     live t (store_view (nd_db n)) = live t (fold log_apply apps (log_view rs)) \<and> list_all rec_ok apps \<and>
     log_inv (log_bytes rs) apps (kv_wal (nd_db n)) \<and> window m (kv_wal (nd_db n)) \<and> w_options (kv_wal (nd_db n)) = opts"

lemma journaled_output: "journaled m opts ttl t rs apps (close_conn c (snd (writeMessage ne c msg n))) = journaled m opts ttl t rs apps n"
  by (simp add: journaled_def node_inv_def)

text \<open>A log that takes a record, or a call that blocks.\<close>

lemma interval_append:
  assumes "log_inv base apps w" and "window m w" and "append out sy r w \<noteq> None"
  obtains w' where "append out sy r w = Some (None, w')" "log_inv base (apps @ [r]) w'" "window m w'" "w_options w' = w_options w"
proof -
  obtain w' where w': "append out sy r w = Some (None, w')"
    using assms(1,3) by (auto simp: append_def log_inv_def Let_def split: if_splits)
  with log_inv_append [OF assms(1)] window_append [OF assms(2)] append_options show ?thesis
    by (intro that [OF w']) auto
qed

lemma journaled_stored:
  assumes "journaled m opts ttl t rs apps n" and "append out sy r (kv_wal (nd_db n)) = Some (None, w)" and "rec_ok r"
    and "kv_inv db" and "unlimited db" and "kv_wal db = w" and "store_view db = log_apply r (store_view (nd_db n))"
    and "nd_db n' = db" and "node_inv n'" and "nd_defaultTTL n' = nd_defaultTTL n"
  shows "journaled m opts ttl t rs (apps @ [r]) n'"
proof -
  have l: "log_inv (log_bytes rs) apps (kv_wal (nd_db n))" "window m (kv_wal (nd_db n))" using assms(1) by (simp_all add: journaled_def)
  obtain w' where "append out sy r (kv_wal (nd_db n)) = Some (None, w')" "log_inv (log_bytes rs) (apps @ [r]) w'" "window m w'"
    "w_options w' = w_options (kv_wal (nd_db n))"
    using interval_append [OF l, of out sy r] assms(2) by blast
  then show ?thesis
    using assms by (simp add: journaled_def live_log_apply_cong [of t "store_view (nd_db n)"])
qed

lemma journaled_set:
  assumes "journaled m opts ttl t rs apps n" and "length key < 65536" and "length val < 4294967296" and "nano_range (Node_Set_expiry ne d n)"
    and "Node_Set ne key val d n \<noteq> Blocks"
  shows "\<exists>n'. Node_Set ne key val d n = Returns (Inr ()) n' \<and> journaled m opts ttl t rs (apps @ [set_record key val (Node_Set_expiry ne d n)]) n'"
proof -
  let ?e = "Node_Set_expiry ne d n" and ?r = "set_record key val (Node_Set_expiry ne d n)"
  have n: "node_inv n" "kv_inv (nd_db n)" "unlimited (nd_db n)" "w_Mode (kv_wal (nd_db n)) = SyncInterval"
    using assms(1) by (auto simp: journaled_def node_inv_def log_inv_def)
  have "append (env_write (ne_env ne)) (env_sync (ne_env ne)) ?r (kv_wal (nd_db n)) \<noteq> None"
    using assms(5) by (rule contrapos_nn) (simp add: Node_Set_def SetWithExpiry_def AppendSet_def)
  then obtain w where w: "append (env_write (ne_env ne)) (env_sync (ne_env ne)) ?r (kv_wal (nd_db n)) = Some (None, w)"
    using n(4) by (auto simp: append_def Let_def split: if_splits)
  then obtain db where db: "SetWithExpiry (ne_env ne) key val ?e (nd_db n) = Returns (Inr ()) db" "kv_wal db = w" "unlimited db"
    using SetWithExpiry_unlimited [OF n(2,3), of "ne_env ne" key val ?e w] by (auto simp: AppendSet_def)
  have v: "store_view db = log_apply ?r (store_view (nd_db n))"
    using SetWithExpiry_view [OF n(2,3) db(1)] by (simp add: log_apply_def set_record_def)
  have r: "rec_ok ?r" using assms(2-4) by (simp add: rec_ok_def Record_valid_def set_record_def)
  obtain n' where n': "Node_Set ne key val d n = Returns (Inr ()) n'" "nd_db n' = db" "node_inv n'"
    using Node_Set_returns [OF n(1) db(1)] by blast
  show ?thesis
    using journaled_stored [OF assms(1) w r SetWithExpiry_inv [OF n(2) db(1)] db(3,2) v n'(2,3) Node_Set_keeps_TTL [OF n'(1)]] n'(1) by blast
qed

lemma journaled_delete:
  assumes "journaled m opts ttl t rs apps n" and "length key < 65536" and "Node_Delete ne key n \<noteq> Blocks"
  shows "\<exists>res n'. Node_Delete ne key n = Returns res n' \<and> journaled m opts ttl t rs (apps @ [delete_record key]) n'"
proof -
  let ?r = "delete_record key"
  have n: "node_inv n" "kv_inv (nd_db n)" "unlimited (nd_db n)" "w_Mode (kv_wal (nd_db n)) = SyncInterval"
    using assms(1) by (auto simp: journaled_def node_inv_def log_inv_def)
  have "append (env_write (ne_env ne)) (env_sync (ne_env ne)) ?r (kv_wal (nd_db n)) \<noteq> None"
    using assms(3) by (rule contrapos_nn) (simp add: Node_Delete_def Delete_def AppendDelete_def)
  then obtain w where w: "append (env_write (ne_env ne)) (env_sync (ne_env ne)) ?r (kv_wal (nd_db n)) = Some (None, w)"
    using n(4) by (auto simp: append_def Let_def split: if_splits)
  let ?res = "if contents (nd_db n) key = None then Inl ErrKeyNotFound else Inr ()"
  obtain db where db: "Delete (ne_env ne) key (nd_db n) = Returns ?res db" "kv_wal db = w" "unlimited db" "contents db = (contents (nd_db n))(key := None)"
    using Delete_logged [OF n(2), of "ne_env ne" key w] w n(3) by (auto simp: AppendDelete_def)
  have v: "store_view db = log_apply ?r (store_view (nd_db n))"
    using store_view_upd [OF db(4)] by (simp add: log_apply_def delete_record_def WAL_OpSet_def WAL_OpDelete_def)
  have r: "rec_ok ?r" using assms(2) by (simp add: rec_ok_def Record_valid_def delete_record_def WAL_OpSet_def WAL_OpDelete_def)
  obtain n' where n': "Node_Delete ne key n = Returns ?res n'" "nd_db n' = db" "node_inv n'"
    using Node_Delete_returns [OF n(1) db(1)] by blast
  show ?thesis
    using journaled_stored [OF assms(1) w r Delete_inv [OF n(2) db(1)] db(3,2) v n'(2,3) Node_Delete_keeps_TTL [OF n'(1)]] n'(1) by blast
qed

lemma journaled_get:
  assumes "journaled m opts ttl t rs apps n"
  shows "\<exists>res n'. Node_Get now key n = Returns res n' \<and> (\<forall>e. res = Inl e \<longrightarrow> e = ErrKeyNotFound) \<and> journaled m opts ttl t rs apps n'"
proof -
  have n: "kv_inv (nd_db n)" "unlimited (nd_db n)" using assms by (simp_all add: journaled_def node_inv_def)
  obtain db where g: "Get now key (nd_db n) = Returns (read_result now (contents (nd_db n) key)) db"
    using Get_result [OF n(1)] by blast
  have "journaled m opts ttl t rs apps (n\<lparr>nd_db := db\<rparr>)"
    using Get_store [OF n(1) g] Get_unlimited [OF n g] assms by (simp add: journaled_def node_inv_def store_view_def [abs_def])
  with g show ?thesis
    by (auto simp: Node_Get_def read_result_def split: option.splits if_splits)
qed

lemma journaled_command:
  assumes "journaled m opts ttl t rs apps n" and "request_ok s ttl ne msg" and "Dispatch the_handlers msg (node_store ne) n \<noteq> Blocks"
  shows "\<exists>resp n'. Dispatch the_handlers msg (node_store ne) n = Returns (Inr resp) n' \<and>
    journaled m opts ttl t rs (apps @ event_records ttl (Request ne c msg)) n'"
proof -
  have r: "is_command msg" "expiry_fits ttl (ne_now ne) msg" "Frame_valid msg" "nd_defaultTTL n = ttl"
    using assms by (simp_all add: request_ok_def journaled_def)
  then consider (set) q where "msg = MSetRequest q" | (delete) q where "msg = MDeleteRequest q" | (get) q where "msg = MGetRequest q"
    by (cases msg) simp_all
  then show ?thesis
  proof cases
    case set
    have e: "Node_Set_expiry ne (sint (sr_TTL q)) n = ne_now ne + (if sint (sr_TTL q) \<le> 0 then ttl else sint (sr_TTL q))"
      using r(4) by (simp add: Node_Set_expiry_def Let_def)
    have "length (sr_Key q) < 65536" "length (sr_Value q) < 4294967296" "nano_range (Node_Set_expiry ne (sint (sr_TTL q)) n)"
      "Node_Set ne (sr_Key q) (sr_Value q) (sint (sr_TTL q)) n \<noteq> Blocks"
      using r(2,3) set command_sizes(1) [of q] assms(3) by (auto simp: e node_store_def Let_def)
    from journaled_set [OF assms(1) this] set show ?thesis unfolding e by (auto simp: node_store_def)
  next
    case delete
    have "length (dr_Key q) < 65536" "Node_Delete ne (dr_Key q) n \<noteq> Blocks"
      using r(3) delete command_sizes(2) [of q] assms(3) by (auto simp: node_store_def)
    from journaled_delete [OF assms(1) this] obtain res n' where
      "Node_Delete ne (dr_Key q) n = Returns res n'" "journaled m opts ttl t rs (apps @ [delete_record (dr_Key q)]) n'" by blast
    with delete show ?thesis by (cases res) (simp_all add: node_store_def)
  next
    case get
    obtain res n' where "Node_Get (ne_now ne) (gr_Key q) n = Returns res n'" "\<forall>e. res = Inl e \<longrightarrow> e = ErrKeyNotFound" "journaled m opts ttl t rs apps n'"
      using journaled_get [OF assms(1)] by blast
    with get show ?thesis by (cases res) (simp_all add: node_store_def)
  qed
qed

lemma journaled_event:
  assumes "journaled m opts ttl t rs apps n" and "interval_ok s ttl t e"
    and "case e of Request ne c msg \<Rightarrow> Dispatch the_handlers msg (node_store ne) n \<noteq> Blocks | _ \<Rightarrow> True"
    and "\<And>ev. e = Flushes ev \<Longrightarrow> m = o_MaxBatchSize opts - 1"
  shows "journaled m opts ttl t rs (apps @ event_records ttl e) (happen s e n)"
proof (cases e)
  case (Request ne c msg)
  with assms(2,3) have r: "request_ok s ttl ne msg" "Dispatch the_handlers msg (node_store ne) n \<noteq> Blocks" by simp_all
  from journaled_command [OF assms(1) r] obtain resp n' where
    "Dispatch the_handlers msg (node_store ne) n = Returns (Inr resp) n'" "journaled m opts ttl t rs (apps @ event_records ttl (Request ne c msg)) n'"
    by blast
  with r(1) Request show ?thesis by (simp add: node_after_command request_ok_def journaled_output)
next
  case (Sweeps ord now)
  have k: "kv_inv (nd_db n)" "unlimited (nd_db n)" using assms(1) by (simp_all add: journaled_def node_inv_def)
  note sw = sweep_spec [OF k(1), of ord now]
  have "live t (store_view (sweep ord now (nd_db n))) = live t (store_view (nd_db n))"
    using sw assms(2) Sweeps by (auto simp: store_view_def live_def fun_eq_iff split: option.splits)
  moreover have "unlimited (sweep ord now (nd_db n))" using sw k(2) unfolding unlimited_budgets by metis
  ultimately show ?thesis
    using sw assms(1) Sweeps by (simp add: journaled_def node_inv_def)
next
  case (Flushes ev)
  show ?thesis
  proof (cases "wal_exec ev (kv_wal (nd_db n))")
    case None
    with Flushes assms(1) show ?thesis by simp
  next
    case (Some w)
    have ev: "event_ok ev" "appended [ev] = []" using assms(2) Flushes by (cases ev; simp)+
    have "window_inv (kv_wal (nd_db n))" using assms(1) assms(4) [OF Flushes] by (simp add: journaled_def window_inv_window)
    from window_inv_exec [OF this Some] have "window m w"
      using assms(1) assms(4) [OF Flushes] wal_exec_options [OF Some] by (simp add: journaled_def window_inv_window)
    with ev log_inv_exec [OF _ ev(1) Some] wal_exec_options [OF Some] assms(1) Some Flushes show ?thesis
      by (auto simp: journaled_def node_inv_def unlimited_def store_view_def [abs_def])
  qed
qed

lemma journaled_events:
  "journaled m opts ttl t rs apps n \<Longrightarrow> list_all (interval_ok s ttl t) es \<Longrightarrow> answered s es n \<Longrightarrow>
   (\<And>ev. Flushes ev \<in> set es \<Longrightarrow> m = o_MaxBatchSize opts - 1) \<Longrightarrow>
   journaled m opts ttl t rs (apps @ concat (map (event_records ttl) es)) (fold (happen s) es n)"
proof (induction es arbitrary: apps n)
  case (Cons e es)
  have "journaled m opts ttl t rs (apps @ event_records ttl e) (happen s e n)"
    using Cons.prems(2,3) Cons.prems(4) by (intro journaled_event [OF Cons.prems(1)]) auto
  moreover have "list_all (interval_ok s ttl t) es" "answered s es (happen s e n)" using Cons.prems(2,3) by simp_all
  ultimately have "journaled m opts ttl t rs ((apps @ event_records ttl e) @ concat (map (event_records ttl) es)) (fold (happen s) es (happen s e n))"
    using Cons.prems(4) by (intro Cons.IH) auto
  then show ?case by simp
qed simp

lemma happening_interval: "happening_ok s ttl t e \<Longrightarrow> interval_ok s ttl t e"
  by (cases e) simp_all

lemma journaled_flush_begins:
  assumes "journaled (o_MaxBatchSize opts - 1) opts ttl t rs apps n"
  shows "journaled (o_MaxBatchSize opts - (if received then 0 else 1)) opts ttl t rs apps (flush_begins received n)"
proof (cases "w_writeCh (kv_wal (nd_db n)) = [] \<or> \<not> received \<or> \<not> w_flusher (kv_wal (nd_db n))")
  case True
  then have "flush_begins received n = n" by (auto simp: flush_begins_def split: list.split)
  with assms show ?thesis by (auto simp: journaled_def window_def)
next
  case False
  then obtain d q where q: "w_writeCh (kv_wal (nd_db n)) = d # q" by (cases "w_writeCh (kv_wal (nd_db n))") simp_all
  let ?w = "(kv_wal (nd_db n))\<lparr>w_writeCh := q, w_batch := w_batch (kv_wal (nd_db n)) @ [d]\<rparr>"
  have b: "flush_begins received n = n\<lparr>nd_db := (nd_db n)\<lparr>kv_wal := ?w\<rparr>\<rparr>" using False q by (simp add: flush_begins_def)
  have n: "log_inv (log_bytes rs) apps (kv_wal (nd_db n))" "window (o_MaxBatchSize opts - 1) (kv_wal (nd_db n))" "w_options (kv_wal (nd_db n)) = opts"
    using assms by (simp_all add: journaled_def)
  have "log_inv (log_bytes rs) apps ?w" using n(1) False q by (simp add: log_inv_def pending_def)
  moreover have "window (o_MaxBatchSize opts) ?w" using n(2,3) q by (simp add: window_def)
  ultimately show ?thesis
    using assms False unfolding b by (simp add: journaled_def node_inv_def unlimited_def store_view_def [abs_def])
qed

text \<open>The file in the middle of a flush: the records up to the last one written, and how many are missing.\<close>

lemma log_inv_file:
  assumes "log_inv base apps (kv_wal (nd_db n))"
  obtains k where "k \<le> length apps" "file_in_flush i n = base @ log_bytes (take k apps)" "length apps - k \<le> length (pending (kv_wal (nd_db n)))"
proof -
  let ?w = "kv_wal (nd_db n)"
  obtain k where k: "k \<le> length apps" "w_disk ?w = base @ log_bytes (take k apps)" "w_batch ?w @ w_writeCh ?w = map encode (drop k apps)"
    using assms by (auto simp: log_inv_def pending_def)
  let ?j = "min i (length (w_batch ?w))"
  have "take i (w_batch ?w) = take ?j (w_batch ?w @ w_writeCh ?w)" by (simp add: min_def)
  then have b: "take i (w_batch ?w) = map encode (take ?j (drop k apps))" unfolding k(3) by (simp add: take_map)
  have l: "length (w_batch ?w) + length (w_writeCh ?w) = length apps - k" using arg_cong [OF k(3), of length] by simp
  have "file_in_flush i n = w_disk ?w @ concat (take i (w_batch ?w))"
  proof (cases "w_flusher ?w")
    case True
    with assms show ?thesis by (simp add: file_in_flush_def Let_def log_inv_def write_batch_ok)
  next
    case False
    with assms show ?thesis by (simp add: file_in_flush_def Let_def log_inv_def)
  qed
  then have "file_in_flush i n = base @ log_bytes (take (k + ?j) apps)"
    unfolding k(2) b by (simp add: log_bytes_def take_add)
  moreover have "k + ?j \<le> length apps" using k(1) l by auto
  moreover have "length apps - (k + ?j) \<le> length (pending ?w)" using l by (simp add: pending_def)
  ultimately show ?thesis using that by blast
qed

lemma keva_main_journaled:
  assumes "cfg = Load parseDuration env" and "tc_ShardCount (cf_Store cfg) < 2 ^ 32" and "tc_MaxMemoryBytes (cf_Store cfg) \<le> 0"
    and "wc_Mode (cf_WAL cfg) = SyncInterval" and "list_all rec_ok rs" and "t0 \<le> t"
    and "keva_main parseDuration env ord t0 (file_of (log_bytes rs)) (Inr (log_bytes rs)) None accepts = Running sv"
  shows "journaled (wc_MaxBatchSize (cf_WAL cfg) - 1) (main_walOpts cfg) (tc_DefaultTTL (cf_Store cfg)) t rs [] (sv_node sv)" and "kv_wal (nd_db (sv_node sv)) = open_state (log_bytes rs) (main_walOpts cfg)"
    and "sv_server sv = NewTCPServer (sc_MaxPayloadBytes (cf_Server cfg))"
proof -
  obtain sv' db where sv': "keva_main parseDuration env ord t0 (file_of (log_bytes rs)) (Inr (log_bytes rs)) None accepts = Running sv'"
    "store_view db = live t0 (log_view rs)" "kv_wal db = open_state (log_bytes rs) (main_walOpts cfg)"
    "map sh_budget (kv_shards db) = replicate (nat (so_ShardCount (main_storeOpts cfg))) (opts_budget (main_storeOpts cfg))"
    "node_inv (sv_node sv')" "nd_db (sv_node sv') = db" "nd_defaultTTL (sv_node sv') = tc_DefaultTTL (cf_Store cfg)"
    "sv_server sv' = NewTCPServer (sc_MaxPayloadBytes (cf_Server cfg))"
    using assms(1,2,5) by (rule keva_main_starts)
  have u: "unlimited db"
    unfolding unlimited_budgets sv'(4) using assms(3) by (simp add: opts_budget_def main_storeOpts_def)
  have o: "o_Mode (main_walOpts cfg) = SyncInterval" "0 < o_MaxBatchSize (main_walOpts cfg)"
    using assms(1,4) Load_ok by (simp_all add: main_walOpts_def config_ok_def)
  then have "window_inv (open_state (log_bytes rs) (main_walOpts cfg))" "w_options (open_state (log_bytes rs) (main_walOpts cfg)) = main_walOpts cfg"
    by (simp_all add: open_state_def window_inv_def)
  with sv' u o(1) assms(6,7) log_inv_open [OF o(1)] live_live [OF assms(6)]
  show "journaled (wc_MaxBatchSize (cf_WAL cfg) - 1) (main_walOpts cfg) (tc_DefaultTTL (cf_Store cfg)) t rs [] (sv_node sv)" "kv_wal (nd_db (sv_node sv)) = open_state (log_bytes rs) (main_walOpts cfg)"
    "sv_server sv = NewTCPServer (sc_MaxPayloadBytes (cf_Server cfg))"
    by (simp_all add: journaled_def window_inv_window, simp add: main_walOpts_def)
qed

section \<open>Properties\<close>

text \<open>C3 (roundtrip): what a restart loses in the mode \<open>interval\<close>. A process without a memory cap is started on a log, in whatever environment
  otherwise, answers any commands of clients, one after the other, while the flusher writes the log in its own time. Then a flush begins, with
  a tick or with a record the flusher received, more commands are answered while it goes on, and the process is killed after any number of its
  writes, none included, but not inside the write of a single record. It is started again later on the file it leaves. No write of the
  log fails. Then it starts, and where the old process would answer every later \<open>GET\<close> from the map that the log
  and all the commands describe, the new one answers from the map that the log and all but the last of the writes and deletes describe;
  of those, at most \<open>3*MaxBatchSize-1\<close> are missing, one more when the flusher had just received a record.\<close>

theorem restart_loses_tail:
  assumes "cfg = Load parseDuration env" and "tc_ShardCount (cf_Store cfg) < 2 ^ 32" and "tc_MaxMemoryBytes (cf_Store cfg) \<le> 0"
    and "wc_Mode (cf_WAL cfg) = SyncInterval" and "list_all rec_ok rs" and "t0 \<le> t"
    and "keva_main parseDuration env ord t0 (file_of (log_bytes rs)) (Inr (log_bytes rs)) None accepts = Running sv"
    and "list_all (interval_ok (sv_server sv) (tc_DefaultTTL (cf_Store cfg)) t) es" and "answered (sv_server sv) es (sv_node sv)"
    and "begun = flush_begins received (fold (happen (sv_server sv)) es (sv_node sv))"
    and "list_all (happening_ok (sv_server sv) (tc_DefaultTTL (cf_Store cfg)) t) es'" and "answered (sv_server sv) es' begun"
  shows "\<exists>n ws k sv'. n = fold (happen (sv_server sv)) es' begun \<and> ws = concat (map (event_records (tc_DefaultTTL (cf_Store cfg))) (es @ es')) \<and>
    k \<le> length ws \<and> int (length ws - k) \<le> 3 * wc_MaxBatchSize (cf_WAL cfg) - (if received then 0 else 1) \<and>
    keva_main parseDuration env ord' t (file_of (file_in_flush i n)) (Inr (file_in_flush i n)) None accepts' = Running sv' \<and>
    (\<forall>ne c. ne_conns ne c = WriteOk \<longrightarrow> fresh_conn ne c (sv_node sv')) \<and>
    answers_gets (sv_server sv) n t (fold (effect (tc_DefaultTTL (cf_Store cfg))) (es @ es') (log_view rs)) \<and>
    answers_gets (sv_server sv') (sv_node sv') t (fold log_apply (take k ws) (log_view rs))"
proof -
  let ?ttl = "tc_DefaultTTL (cf_Store cfg)" and ?n = "fold (happen (sv_server sv)) es' begun" and ?M = "wc_MaxBatchSize (cf_WAL cfg)"
  let ?ws = "concat (map (event_records ?ttl) (es @ es'))" and ?m = "?M - (if received then 0 else 1)"
  have M: "o_MaxBatchSize (main_walOpts cfg) = ?M" by (simp add: main_walOpts_def)
  have "journaled (?M - 1) (main_walOpts cfg) ?ttl t rs (concat (map (event_records ?ttl) es)) (fold (happen (sv_server sv)) es (sv_node sv))"
    using journaled_events [OF keva_main_journaled(1) [OF assms(1-7)] assms(8,9)] M by simp
  with journaled_flush_begins [of "main_walOpts cfg"] have "journaled ?m (main_walOpts cfg) ?ttl t rs (concat (map (event_records ?ttl) es)) begun"
    unfolding M assms(10) by blast
  then have "journaled ?m (main_walOpts cfg) ?ttl t rs (concat (map (event_records ?ttl) es) @ concat (map (event_records ?ttl) es')) ?n"
  proof (rule journaled_events)
    show "list_all (interval_ok (sv_server sv) ?ttl t) es'" using assms(11) by (auto simp: list_all_iff happening_interval)
    show "?m = o_MaxBatchSize (main_walOpts cfg) - 1" if "Flushes ev \<in> set es'" for ev using assms(11) that by (auto simp: list_all_iff)
  qed (rule assms(12))
  then have j: "journaled ?m (main_walOpts cfg) ?ttl t rs ?ws ?n" by simp
  then have n: "node_inv ?n" "live t (store_view (nd_db ?n)) = live t (fold (effect ?ttl) (es @ es') (log_view rs))" "list_all rec_ok ?ws"
    "window ?m (kv_wal (nd_db ?n))" "w_options (kv_wal (nd_db ?n)) = main_walOpts cfg" "log_inv (log_bytes rs) ?ws (kv_wal (nd_db ?n))"
    using run_records_effect [of ?ttl "es @ es'" "log_view rs"] by (simp_all add: journaled_def del: concat_append map_append)
  obtain k where k: "k \<le> length ?ws" "file_in_flush i ?n = log_bytes (rs @ take k ?ws)" "length ?ws - k \<le> length (pending (kv_wal (nd_db ?n)))"
    using n(6) by (rule log_inv_file [of _ _ _ i]) auto
  have b: "int (length ?ws - k) \<le> 3 * ?M - (if received then 0 else 1)"
    using n(4,5) k(3) M by (auto simp: window_def pending_def simp del: concat_append map_append)
  have "list_all rec_ok (rs @ take k ?ws)" using assms(5) n(3) unfolding list_all_iff by (metis Un_iff in_set_takeD set_append)
  with assms(1,2) obtain sv' db where sv': "keva_main parseDuration env ord' t (file_of (log_bytes (rs @ take k ?ws))) (Inr (log_bytes (rs @ take k ?ws))) None accepts' = Running sv'"
    "store_view db = live t (log_view (rs @ take k ?ws))" "node_inv (sv_node sv')" "nd_db (sv_node sv') = db"
    "nd_net (sv_node sv') = \<lparr>net_sent = (\<lambda>_. []), net_closed = {}\<rparr>"
    by (rule keva_main_starts)
  have v: "live t (store_view (nd_db (sv_node sv'))) = live t (fold log_apply (take k ?ws) (log_view rs))"
    using sv'(2,4) by (simp add: live_live log_view_def)
  have "fresh_conn ne c (sv_node sv')" if "ne_conns ne c = WriteOk" for ne c using that sv'(5) by (simp add: fresh_conn_def)
  with k(1) b sv'(1) [folded k(2)] answers_gets_live [OF n(1,2)] answers_gets_live [OF sv'(3) v] show ?thesis by blast
qed

text \<open>A command on a node whose log has room does not wait.\<close>

lemma set_not_blocked:
  assumes "node_inv n" and "replica_ready 1 (nd_db n)" and "file_works (ne_env ne)"
  shows "Dispatch the_handlers (MSetRequest q) (node_store ne) n \<noteq> Blocks"
proof -
  obtain db where "SetWithExpiry (ne_env ne) (sr_Key q) (sr_Value q) (Node_Set_expiry ne (sint (sr_TTL q)) n) (nd_db n) = Returns (Inr ()) db"
    by (rule ready_Set [of 0 "nd_db n" "ne_env ne"]) (use assms(2,3) in simp_all)
  from Node_Set_returns [OF assms(1) this] show ?thesis by (auto simp: node_store_def)
qed

lemma set_keeps_room:
  assumes "node_inv n" and "replica_ready (Suc k) (nd_db n)" and "request_ok s ttl ne (MSetRequest q)"
  shows "replica_ready k (nd_db (happen s (Request ne c (MSetRequest q)) n))"
proof -
  have f: "file_works (ne_env ne)" using assms(3) by (simp add: request_ok_def)
  obtain db where db: "SetWithExpiry (ne_env ne) (sr_Key q) (sr_Value q) (Node_Set_expiry ne (sint (sr_TTL q)) n) (nd_db n) = Returns (Inr ()) db" "replica_ready k db"
    using assms(2) f by (rule ready_Set)
  from Node_Set_returns [OF assms(1) db(1)] obtain n' where "Node_Set ne (sr_Key q) (sr_Value q) (sint (sr_TTL q)) n = Returns (Inr ()) n'" "nd_db n' = db" by blast
  with db(2) assms(3) show ?thesis by (simp add: node_after_command request_ok_def node_store_def)
qed

lemma begun_keeps_room: "replica_ready k (nd_db n) \<Longrightarrow> replica_ready k (nd_db (flush_begins received n))"
  by (auto simp: flush_begins_def replica_ready_def unlimited_def log_room_def split: list.split)

lemma begun_inv: "node_inv n \<Longrightarrow> node_inv (flush_begins received n)"
  by (auto simp: flush_begins_def node_inv_def split: list.split)

theorem restart_loses_tail_witness:
  "let set = MSetRequest \<lparr>sr_Key = [1], sr_Value = [2], sr_TTL = 0\<rparr>; set' = MSetRequest \<lparr>sr_Key = [3], sr_Value = [4], sr_TTL = 0\<rparr>;
       ws = [set_record [1] [2] 900000000007, set_record [3] [4] 900000000007] in
   \<exists>sv n k sv'. keva_main (\<lambda>_. None) (\<lambda>_. []) (\<lambda>_ _. 0) 5 (file_of (log_bytes [])) (Inr (log_bytes [])) None [] = Running sv \<and>
     n = happen (sv_server sv) (Request example_node_env 6 set') (flush_begins True (happen (sv_server sv) (Request example_node_env 5 set) (sv_node sv))) \<and>
     k \<le> (2 :: nat) \<and>
     keva_main (\<lambda>_. None) (\<lambda>_. []) (\<lambda>_ _. 0) 20 (file_of (file_in_flush 1 n)) (Inr (file_in_flush 1 n)) None [] = Running sv' \<and>
     answers_gets (sv_server sv) n 20 [[1] \<mapsto> ([2], 900000000007), [3] \<mapsto> ([4], 900000000007)] \<and>
     answers_gets (sv_server sv') (sv_node sv') 20 (fold log_apply (take k ws) (log_view []))"
proof -
  let ?q = "\<lparr>sr_Key = [1], sr_Value = [2], sr_TTL = 0\<rparr>" and ?q' = "\<lparr>sr_Key = [3], sr_Value = [4], sr_TTL = 0\<rparr>" and ?cfg = "Load (\<lambda>_. None) (\<lambda>_. [])"
  let ?es = "[Request example_node_env 5 (MSetRequest ?q)]" and ?es' = "[Request example_node_env 6 (MSetRequest ?q')]"
  have c: "tc_ShardCount (cf_Store ?cfg) < 2 ^ 32" "tc_MaxMemoryBytes (cf_Store ?cfg) \<le> 0" "wc_Mode (cf_WAL ?cfg) = SyncInterval"
    "sc_MaxPayloadBytes (cf_Server ?cfg) = 10 * 1024 * 1024" "tc_DefaultTTL (cf_Store ?cfg) = 900000000000" "o_MaxBatchSize (main_walOpts ?cfg) = 1000"
    by (simp_all add: Load_def on_env_def Default_def SyncInterval_def main_walOpts_def)
  have le: "(5 :: int) \<le> 20" and rs: "list_all rec_ok []" by simp_all
  obtain sv where sv: "keva_main (\<lambda>_. None) (\<lambda>_. []) (\<lambda>_ _. 0) 5 (file_of (log_bytes [])) (Inr (log_bytes [])) None [] = Running sv"
    using refl c(1) rs by (rule keva_main_starts)
  note j = keva_main_journaled [OF refl c(1-3) rs le sv]
  have f: "file_works (ne_env example_node_env)" by (rule example_ready(3))
  have i: "node_inv (sv_node sv)" "kv_inv (nd_db (sv_node sv))" "unlimited (nd_db (sv_node sv))" using j(1) by (simp_all add: journaled_def node_inv_def)
  have "log_room 2 (kv_wal (nd_db (sv_node sv)))"
    unfolding j(2) using c(3,6) by (simp add: open_state_def log_room_def main_walOpts_def)
  with i have r: "replica_ready 2 (nd_db (sv_node sv))" by (simp add: replica_ready_def)
  have "EncodeMessage (MSetRequest \<lparr>sr_Key = [a], sr_Value = [b], sr_TTL = 0\<rparr>) = Ok (OpSet # 0 # 1 # PutUint32 1 @ PutUint64 0 @ [a, b])" for a b
    by (simp add: EncodeMessage_layout SetRequest_Encode_layout PutUint16_def be_put_numeral)
  then have q: "request_ok (sv_server sv) 900000000000 example_node_env (MSetRequest \<lparr>sr_Key = [a], sr_Value = [b], sr_TTL = 0\<rparr>)" for a b
    unfolding j(3) c(4) using f
    by (simp add: request_ok_def Frame_valid_def SetRequest_valid_def within_limit_def NewTCPServer_def example_node_env_def nano_range_def)
  then have ok: "list_all (interval_ok (sv_server sv) (tc_DefaultTTL (cf_Store ?cfg)) 20) ?es"
    "list_all (happening_ok (sv_server sv) (tc_DefaultTTL (cf_Store ?cfg)) 20) ?es'"
    unfolding c(5) by simp_all
  let ?b = "flush_begins True (fold (happen (sv_server sv)) ?es (sv_node sv))"
  have r1: "replica_ready 1 (nd_db (sv_node sv))" using r by (simp add: replica_ready_def log_room_def split: if_splits)
  have a: "answered (sv_server sv) ?es (sv_node sv)" using set_not_blocked [OF i(1) r1 f, of ?q] by simp
  have M: "journaled 999 (main_walOpts ?cfg) 900000000000 20 [] [] (sv_node sv)" using j(1) c(5,6) by (simp add: main_walOpts_def)
  have "journaled 999 (main_walOpts ?cfg) 900000000000 20 [] ([] @ concat (map (event_records 900000000000) ?es)) (fold (happen (sv_server sv)) ?es (sv_node sv))"
    by (rule journaled_events [OF M ok(1) [unfolded c(5)] a]) simp
  then have bi: "node_inv ?b" unfolding journaled_def by (intro begun_inv) (elim conjE)
  have "replica_ready 1 (nd_db ?b)" using begun_keeps_room [OF set_keeps_room [OF i(1) r [unfolded numeral_2_eq_2] q [of 1 2]]] by simp
  then have a': "answered (sv_server sv) ?es' ?b" using set_not_blocked [OF bi _ f, of ?q'] by simp
  have v: "fold (effect (tc_DefaultTTL (cf_Store ?cfg))) (?es @ ?es') (log_view []) = [[1] \<mapsto> ([2], 900000000007), [3] \<mapsto> ([4], 900000000007)]"
    "concat (map (event_records (tc_DefaultTTL (cf_Store ?cfg))) (?es @ ?es')) = [set_record [1] [2] 900000000007, set_record [3] [4] 900000000007]"
    unfolding c(5) by (simp_all add: example_node_env_def)
  from restart_loses_tail [OF refl c(1-3) rs le sv ok(1) a refl ok(2) a', of "\<lambda>_ _. 0" 1 "[]", unfolded v] obtain n ws k sv' where
    n: "n = fold (happen (sv_server sv)) ?es' ?b" "ws = [set_record [1] [2] 900000000007, set_record [3] [4] 900000000007]" "k \<le> length ws"
    "keva_main (\<lambda>_. None) (\<lambda>_. []) (\<lambda>_ _. 0) 20 (file_of (file_in_flush 1 n)) (Inr (file_in_flush 1 n)) None [] = Running sv'"
    "answers_gets (sv_server sv) n 20 [[1] \<mapsto> ([2], 900000000007), [3] \<mapsto> ([4], 900000000007)]"
    "answers_gets (sv_server sv') (sv_node sv') 20 (fold log_apply (take k ws) (log_view []))"
    by (elim exE conjE) (rule that; assumption)
  have k: "k \<le> 2" using n(2,3) by simp
  have n1: "n = happen (sv_server sv) (Request example_node_env 6 (MSetRequest ?q')) (flush_begins True (happen (sv_server sv) (Request example_node_env 5 (MSetRequest ?q)) (sv_node sv)))"
    using n(1) by (simp only: fold_simps)
  show ?thesis
    unfolding Let_def by (intro exI conjI, rule sv, rule n1, rule k, rule n(4), rule n(5), rule n(6) [unfolded n(2)])
qed

end
