(* ===== verification/System_Replica.thy ===== *)
theory System_Replica
  imports System
begin

text \<open>
  A leader and its replica, each with clients of its own. Shown: a client that reads at a replica gets what the leader has, and a node
  that does not lead takes writes that nobody else hears of.
\<close>

section \<open>Lemmas\<close>

text \<open>A follower that joins: its request adds its connection to the leader's table.\<close>

lemma join_leading:
  assumes "node_inv n" and "unlimited (nd_db n)" and "IsLeader n" and "nd_leader n = Some l" and "c \<notin> net_closed (nd_net n)"
    and "c \<notin> snd ` set (ld_followers l)" and "Frame_valid (MReplicationJoin \<lparr>rj_NodeAddr = addr\<rparr>)"
    and "within_limit (ts_maxPayloadBytes s) (MReplicationJoin \<lparr>rj_NodeAddr = addr\<rparr>)"
  shows "node_after s ne c n (MReplicationJoin \<lparr>rj_NodeAddr = addr\<rparr>) = n\<lparr>nd_leader := Some (AddFollower addr c l)\<rparr>"
    and "leading addr c (n\<lparr>nd_leader := Some (AddFollower addr c l)\<rparr>)"
proof -
  let ?j = "MReplicationJoin \<lparr>rj_NodeAddr = addr\<rparr>"
  obtain f where f: "EncodeFrame ?j = Ok f" using assms(7) by (rule Frame_validE) blast
  have "handleConnection s (\<lambda>_. ne) c \<lparr>rd_data = f, rd_end = EOF\<rparr> n = Returns (Inr ()) (n\<lparr>nd_leader := Some (AddFollower addr c l)\<rparr>)"
    using readMessage_frame [OF assms(7,8) f, of ne c "[]" EOF n] assms(3,4)
    by (simp add: handleConnection_def handleReplicationPeer_def Node_Leader_def opcode_defs)
  then show "node_after s ne c n ?j = n\<lparr>nd_leader := Some (AddFollower addr c l)\<rparr>" by (simp add: node_after_def f)
  have w: "gomap_wf (ld_followers l)" using assms(1,4) by (simp add: node_inv_def)
  have u: "a = addr" if "gomap_get (gomap_set addr c (ld_followers l)) a = Some c" for a
  proof (rule ccontr)
    assume "a \<noteq> addr"
    with that have "gomap_get (ld_followers l) a = Some c" by (simp add: go_map_simps)
    then have "(a, c) \<in> set (ld_followers l)" using gomap_get_Some_iff [OF w] by simp
    with assms(6) show False by force
  qed
  have "subscribed addr c (AddFollower addr c l) (nd_net n)"
    unfolding subscribed_def using w assms(5) by (intro conjI allI impI u) (simp_all add: AddFollower_def go_map_simps)
  moreover have "gomap_wf (ld_followers (AddFollower addr c l))" using w by (simp add: AddFollower_def)
  ultimately show "leading addr c (n\<lparr>nd_leader := Some (AddFollower addr c l)\<rparr>)"
    using assms(1,2) by (simp add: leading_def node_inv_def)
qed

text \<open>A request to the leader whose change the followers can be sent, over a connection that is not the follower's.\<close>

fun sync_fits :: "Message \<Rightarrow> bool" where
  "sync_fits (MSetRequest r) \<longleftrightarrow> length (sr_Key r) + length (sr_Value r) + 24 < 4294967296"
| "sync_fits _ \<longleftrightarrow> True"

fun replicated :: "TCPServer \<Rightarrow> duration \<Rightarrow> conn \<Rightarrow> event \<Rightarrow> bool" where
  "replicated s ttl c (Request ne d msg) \<longleftrightarrow> request_ok s ttl ne msg \<and> sync_fits msg \<and> d \<noteq> c \<and> ne_conns ne c = WriteOk"
| "replicated s ttl c _ \<longleftrightarrow> False"

lemma streamed_output:
  assumes "streamed addr c n ms n'" and "d \<noteq> c"
  shows "streamed addr c n ms (close_conn d (snd (writeMessage ne d m n')))"
proof -
  let ?n = "close_conn d (snd (writeMessage ne d m n'))"
  have "net_sent (nd_net ?n) c = net_sent (nd_net n') c" "c \<in> net_closed (nd_net ?n) \<longleftrightarrow> c \<in> net_closed (nd_net n')"
    using assms(2) by (simp_all add: close_conn_def conn_close_def writeMessage_def Let_def split: prod.splits)
  then show ?thesis
    using assms(1) by (simp add: streamed_def leading_def node_inv_def subscribed_def split: option.splits)
qed

lemma command_streamed:
  assumes "leading addr c n" and "replica_ready (Suc j) (nd_db n)" and "replicated s (nd_defaultTTL n) c (Request ne d msg)"
  shows "\<exists>resp n' ms. Dispatch the_handlers msg (node_store ne) n = Returns (Inr resp) n' \<and> length ms \<le> 1 \<and> streamed addr c n ms n' \<and>
    replica_ready j (nd_db n') \<and> store_view (nd_db n') = effect (nd_defaultTTL n) (Request ne d msg) (store_view (nd_db n))"
proof -
  have i: "node_inv n" "kv_inv (nd_db n)" "unlimited (nd_db n)" using assms(1) by (simp_all add: leading_def node_inv_def)
  have r: "is_command msg" "file_works (ne_env ne)" "expiry_fits (nd_defaultTTL n) (ne_now ne) msg" "Frame_valid msg" "sync_fits msg" "ne_conns ne c = WriteOk"
    using assms(3) by (simp_all add: request_ok_def)
  then consider (set) q where "msg = MSetRequest q" | (delete) q where "msg = MDeleteRequest q" | (get) q where "msg = MGetRequest q"
    by (cases msg) simp_all
  then show ?thesis
  proof cases
    case set
    let ?e = "Node_Set_expiry ne (sint (sr_TTL q)) n"
    obtain db where db: "SetWithExpiry (ne_env ne) (sr_Key q) (sr_Value q) ?e (nd_db n) = Returns (Inr ()) db" "replica_ready j db"
      "store_view db = (store_view (nd_db n))(sr_Key q \<mapsto> (sr_Value q, ?e))"
      using assms(2) r(2) by (rule ready_Set)
    obtain n' where n': "Node_Set ne (sr_Key q) (sr_Value q) (sint (sr_TTL q)) n = Returns (Inr ()) n'" "nd_db n' = db"
      using Node_Set_returns [OF i(1) db(1)] by blast
    moreover have "write_fits (nd_defaultTTL n) (ne, WSet (sr_Key q) (sr_Value q) (sint (sr_TTL q)))"
      using r(3-5) set command_sizes(1) [of q] by auto
    from Node_Set_streamed [OF assms(1) r(6) this n'(1)] obtain ms where "length ms \<le> 1" "streamed addr c n ms n'" by blast
    ultimately show ?thesis
      using set db(2,3) by (auto simp: node_store_def Node_Set_expiry_def Let_def)
  next
    case delete
    let ?res = "if contents (nd_db n) (dr_Key q) = None then Inl ErrKeyNotFound else Inr ()"
    obtain db where db: "Delete (ne_env ne) (dr_Key q) (nd_db n) = Returns ?res db" "replica_ready j db"
      "store_view db = (store_view (nd_db n))(dr_Key q := None)"
      using assms(2) r(2) by (rule ready_Delete)
    obtain n' where n': "Node_Delete ne (dr_Key q) n = Returns ?res n'" "nd_db n' = db"
      using Node_Delete_returns [OF i(1) db(1)] by blast
    moreover have "write_fits (nd_defaultTTL n) (ne, WDelete (dr_Key q))"
      using r(4) delete command_sizes(2) [of q] by simp
    from Node_Delete_streamed [OF assms(1) r(6) this n'(1)] obtain ms where "length ms \<le> 1" "streamed addr c n ms n'" by blast
    ultimately show ?thesis
      using delete db(2,3) by (auto simp: node_store_def)
  next
    case get
    obtain db where g: "Get (ne_now ne) (gr_Key q) (nd_db n) = Returns (read_result (ne_now ne) (contents (nd_db n) (gr_Key q))) db"
      using Get_result [OF i(2)] by blast
    note st = Get_store [OF i(2) g] Get_unlimited [OF i(2,3) g]
    then have "store_view db = store_view (nd_db n)" by (simp add: store_view_def [abs_def])
    moreover have "replica_ready j db" using st assms(2) log_room_mono [of "Suc j" "kv_wal (nd_db n)" j] by (simp add: replica_ready_def)
    moreover have "streamed addr c n [] (n\<lparr>nd_db := db\<rparr>)"
      using streamed_nothing [OF assms(1)] st calculation(1) by simp
    moreover have "\<exists>resp. Dispatch the_handlers msg (node_store ne) n = Returns (Inr resp) (n\<lparr>nd_db := db\<rparr>)"
      using get g by (auto simp: node_store_def Node_Get_def read_result_def split: option.splits)
    ultimately show ?thesis
      using get by (fastforce intro: exI [of _ "[]"])
  qed
qed

lemma requests_streamed:
  assumes "leading addr c n" and "replica_ready (length es) (nd_db n)" and "list_all (replicated s (nd_defaultTTL n) c) es"
  shows "\<exists>ms. length ms \<le> length es \<and> streamed addr c n ms (fold (happen s) es n) \<and>
    store_view (nd_db (fold (happen s) es n)) = fold (effect (nd_defaultTTL n)) es (store_view (nd_db n))"
  using assms
proof (induction es arbitrary: n)
  case Nil
  then show ?case by (simp add: streamed_def)
next
  case (Cons e es)
  then obtain ne d msg where e: "e = Request ne d msg" by (cases e) simp_all
  with Cons.prems command_streamed [OF Cons.prems(1), of "length es" s ne d msg] obtain resp n1 m where
    1: "Dispatch the_handlers msg (node_store ne) n = Returns (Inr resp) n1" "length m \<le> 1" "streamed addr c n m n1" "replica_ready (length es) (nd_db n1)"
      "store_view (nd_db n1) = effect (nd_defaultTTL n) (Request ne d msg) (store_view (nd_db n))"
    by auto
  let ?n = "close_conn d (snd (writeMessage ne d resp n1))"
  have h: "happen s e n = ?n" and d: "d \<noteq> c" using 1(1) e Cons.prems(3) by (simp_all add: node_after_command request_ok_def)
  have s1: "streamed addr c n m ?n" using 1(3) d by (rule streamed_output)
  then have "leading addr c ?n" "nd_defaultTTL ?n = nd_defaultTTL n" unfolding streamed_def by blast+
  with Cons.IH [of ?n] Cons.prems(3) 1(4) obtain ms where
    "length ms \<le> length es" "streamed addr c ?n ms (fold (happen s) es ?n)"
      "store_view (nd_db (fold (happen s) es ?n)) = fold (effect (nd_defaultTTL n)) es (store_view (nd_db ?n))"
    by auto
  with streamed_trans [OF s1] h 1(2,5) e show ?case
    by (intro exI [of _ "m @ ms"]) auto
qed

text \<open>A leader and a follower, and a request, for the witnesses.\<close>

definition example_set :: SetRequest where
  "example_set = \<lparr>sr_Key = [1], sr_Value = [2], sr_TTL = 0\<rparr>"

definition example_elected :: Node where
  "example_elected = (NewNode (example_store 0 NoEvict SyncNone) 100 [8] [[8], [9]])
     \<lparr>nd_raft := (NewRaftState [8] [[8], [9]])\<lparr>rf_role := RoleLeader, rf_leaderAddr := [8]\<rparr>, nd_leader := Some newLeader\<rparr>"

definition example_follower :: Node where
  "example_follower = (NewNode (example_store 0 NoEvict SyncNone) 100 [9] [[8], [9]])
     \<lparr>nd_raft := (NewRaftState [9] [[8], [9]])\<lparr>rf_leaderAddr := [8]\<rparr>\<rparr>"

lemma example_nodes:
  "node_inv example_elected" "IsLeader example_elected" "nd_leader example_elected = Some newLeader" "nd_defaultTTL example_elected = 100"
  "nd_net example_elected = \<lparr>net_sent = (\<lambda>_. []), net_closed = {}\<rparr>" "nd_db example_elected = example_store 0 NoEvict SyncNone"
  "node_inv example_follower" "nd_leader example_follower = None" "nd_defaultTTL example_follower = 100"
  "nd_net example_follower = \<lparr>net_sent = (\<lambda>_. []), net_closed = {}\<rparr>" "nd_db example_follower = example_store 0 NoEvict SyncNone"
  "RunFollower_target (nd_raft example_follower) [9] = Some [8]" "replica_ready 1 (example_store 0 NoEvict SyncNone)"
  using example_ready(1) log_room_mono [of 2 _ 1]
  by (simp_all add: example_elected_def example_follower_def NewNode_def node_inv_def example_store_inv IsLeader_def GetRole_def newLeader_def
      gomap_wf_def RunFollower_target_def GetLeaderAddr_def NewRaftState_def replica_ready_def)

lemma example_set_ok: "request_ok (NewTCPServer 100) 100 example_node_env (MSetRequest example_set)"
proof -
  have "EncodeMessage (MSetRequest example_set) = Ok (OpSet # 0 # 1 # PutUint32 1 @ PutUint64 0 @ [1, 2])"
    by (simp add: example_set_def EncodeMessage_layout SetRequest_Encode_layout PutUint16_def be_put_numeral)
  then show ?thesis
    by (simp add: request_ok_def Frame_valid_def within_limit_def NewTCPServer_def example_set_def SetRequest_valid_def file_works_def
        example_node_env_def example_env_def nano_range_def)
qed

section \<open>Properties\<close>

text \<open>C7 (refinement): reads at a replica. A follower with the leader's keys, values and expiries joins the leader over its connection; the
  leader serves any commands of clients; the follower runs a round of \<open>RunFollower\<close> on what has arrived. Then both processes answer every
  \<open>GET\<close>, over the wire, from the same map: what the leader had, changed by the commands in their order. The commands run one
  after the other and no sweep runs meanwhile; both stores are without
  a memory cap, their logs can be written, and the connection between the two does not fail.\<close>

theorem replica_read:
  assumes "node_inv n" and "IsLeader n" and "nd_leader n = Some l" and "c \<notin> net_closed (nd_net n)" and "net_sent (nd_net n) c = []"
    and "c \<notin> snd ` set (ld_followers l)" and "Frame_valid (MReplicationJoin \<lparr>rj_NodeAddr = addr\<rparr>)"
    and "within_limit (ts_maxPayloadBytes s) (MReplicationJoin \<lparr>rj_NodeAddr = addr\<rparr>)"
    and "replica_ready (length es) (nd_db n)" and "list_all (replicated s (nd_defaultTTL n) c) es"
    and "node_inv m" and "replica_ready (length es) (nd_db m)" and "store_view (nd_db m) = store_view (nd_db n)"
    and "RunFollower_target (nd_raft m) addr = Some leaderAddr" and "\<And>j. file_works (envs j)"
  shows "\<exists>n' db v. n' = fold (happen s) es (node_after s ne c n (MReplicationJoin \<lparr>rj_NodeAddr = addr\<rparr>)) \<and>
    RunFollower addr [\<lparr>fr_raft = nd_raft m, fr_dial = None, fr_joined = WriteOk, fr_envs = envs, fr_outs = outs,
      fr_reader = \<lparr>rd_data = net_sent (nd_net n') c, rd_end = EOF\<rparr>\<rparr>] (nd_db m) = Returns (Inr ()) db \<and>
    v = fold (effect (nd_defaultTTL n)) es (store_view (nd_db n)) \<and>
    (\<forall>t. answers_gets s n' t v \<and> answers_gets s' (m\<lparr>nd_db := db\<rparr>) t v)"
proof -
  let ?n = "n\<lparr>nd_leader := Some (AddFollower addr c l)\<rparr>" and ?v = "fold (effect (nd_defaultTTL n)) es (store_view (nd_db n))"
  have u: "unlimited (nd_db n)" using assms(9) by (simp add: replica_ready_def)
  note join = join_leading [OF assms(1) u assms(2-4,6-8)]
  let ?n' = "fold (happen s) es ?n"
  obtain ms where ms: "length ms \<le> length es" "streamed addr c ?n ms ?n'" "store_view (nd_db ?n') = ?v"
    using requests_streamed [OF join(2), of es s] assms(9,10) by auto
  then obtain fs where fs: "map (\<lambda>m. EncodeFrame (MReplicationSync m)) ms = map Ok fs" "net_sent (nd_net ?n') c = concat fs"
    "store_view (nd_db ?n') = fold log_apply (map sync_record ms) (store_view (nd_db n))"
    "list_all (\<lambda>m. Frame_valid (MReplicationSync m)) ms" "node_inv ?n'"
    using assms(5) by (auto simp: streamed_def leading_def)
  obtain f where f: "EncodeFrame (MReplicationJoin \<lparr>rj_NodeAddr = addr\<rparr>) = Ok f" using assms(7) by (rule Frame_validE) blast
  have "replica_ready (length ms) (nd_db m)" using assms(12) ms(1) log_room_mono by (auto simp: replica_ready_def)
  from sync_loop_frames [where envs = envs and outs = outs and i = 0 and sent = f, OF fs(4,1) this assms(15)] obtain db sent' where
    d: "sync_loop envs outs 0 \<lparr>rd_data = concat fs, rd_end = EOF\<rparr> (nd_db m) f = Returns (Inl (IO EOF)) (db, sent')" "kv_inv db"
      "store_view db = fold log_apply (map sync_record ms) (store_view (nd_db m))" by blast
  have "RunFollower addr [\<lparr>fr_raft = nd_raft m, fr_dial = None, fr_joined = WriteOk, fr_envs = envs, fr_outs = outs,
      fr_reader = \<lparr>rd_data = net_sent (nd_net ?n') c, rd_end = EOF\<rparr>\<rparr>] (nd_db m) = Returns (Inr ()) db"
    using assms(14) f d(1) fs(2) by (simp add: syncWithLeader_def WriteFrame_def)
  moreover have "answers_gets s ?n' t ?v" "answers_gets s' (m\<lparr>nd_db := db\<rparr>) t ?v" for t
    using answers_gets_live [OF fs(5), of t ?v s] answers_gets_live [of "m\<lparr>nd_db := db\<rparr>" t ?v s'] node_inv_db [OF assms(11) d(2)] ms(3) fs(3) d(3) assms(13)
    by simp_all
  ultimately show ?thesis
    by (intro exI [of _ ?n'] exI [of _ db] exI [of _ ?v]) (simp add: join(1))
qed

theorem replica_read_witness:
  "let n = fold (happen (NewTCPServer 100)) [Request example_node_env 6 (MSetRequest example_set)]
             (node_after (NewTCPServer 100) example_node_env 5 example_elected (MReplicationJoin \<lparr>rj_NodeAddr = [9]\<rparr>));
       get = MGetRequest \<lparr>gr_Key = [1]\<rparr> in
   \<exists>db. RunFollower [9] [\<lparr>fr_raft = nd_raft example_follower, fr_dial = None, fr_joined = WriteOk, fr_envs = (\<lambda>_. example_env), fr_outs = (\<lambda>_. WriteOk),
      fr_reader = \<lparr>rd_data = net_sent (nd_net n) 5, rd_end = EOF\<rparr>\<rparr>] (nd_db example_follower) = Returns (Inr ()) db \<and>
     sendToNode (reply_of (NewTCPServer 50) example_node_env 7 (example_follower\<lparr>nd_db := db\<rparr>) get) get =
       Ok (MGetResponse \<lparr>gs_Found = True, gs_Value = [2]\<rparr>)"
proof -
  let ?es = "[Request example_node_env 6 (MSetRequest example_set)]" and ?j = "MReplicationJoin \<lparr>rj_NodeAddr = [9]\<rparr>"
  let ?get = "MGetRequest \<lparr>gr_Key = [1]\<rparr>"
  have j: "EncodeMessage ?j = Ok [OpReplicationJoin, 0, 1, 9]" "EncodeMessage ?get = Ok [OpGet, 0, 1, 1]"
    by (simp_all add: EncodeMessage_layout ReplicationJoin_Encode_layout GetRequest_Encode_layout PutUint16_def be_put_numeral)
  have fj: "Frame_valid ?j" "within_limit (ts_maxPayloadBytes (NewTCPServer 100)) ?j" "within_limit (ts_maxPayloadBytes (NewTCPServer 50)) ?get"
    by (simp_all add: Frame_valid_def within_limit_def j ReplicationJoin_valid_def NewTCPServer_def)
  have es: "replica_ready (length ?es) (nd_db example_elected)" "replica_ready (length ?es) (nd_db example_follower)"
    "list_all (replicated (NewTCPServer 100) (nd_defaultTTL example_elected) 5) ?es"
    using example_set_ok example_nodes(13) by (simp_all add: example_nodes) (simp_all add: example_set_def example_node_env_def)
  have v: "get_answer (ne_now example_node_env) (fold (effect (nd_defaultTTL example_elected)) ?es (store_view (nd_db example_elected)) [1]) =
      MGetResponse \<lparr>gs_Found = True, gs_Value = [2]\<rparr>"
    by (simp add: example_nodes example_set_def get_answer_def example_node_env_def)
  have f: "Frame_valid (MGetResponse \<lparr>gs_Found = True, gs_Value = [2]\<rparr>)"
    by (simp add: Frame_valid_def EncodeMessage_layout GetResponse_Encode_layout GetResponse_valid_def)
  have net: "(5 :: nat) \<notin> net_closed (nd_net example_elected)" "net_sent (nd_net example_elected) 5 = []" "(5 :: nat) \<notin> snd ` set (ld_followers newLeader)"
    "store_view (nd_db example_follower) = store_view (nd_db example_elected)"
    by (simp_all add: example_nodes newLeader_def)
  from replica_read [OF example_nodes(1-3) net(1-3) fj(1,2) es(1,3) example_nodes(7) es(2) net(4) example_nodes(12) example_ready(2),
      of example_node_env "\<lambda>_. WriteOk" "NewTCPServer 50"] obtain n' db where
    n': "n' = fold (happen (NewTCPServer 100)) ?es (node_after (NewTCPServer 100) example_node_env 5 example_elected ?j)"
    "RunFollower [9] [\<lparr>fr_raft = nd_raft example_follower, fr_dial = None, fr_joined = WriteOk, fr_envs = (\<lambda>_. example_env), fr_outs = (\<lambda>_. WriteOk),
      fr_reader = \<lparr>rd_data = net_sent (nd_net n') 5, rd_end = EOF\<rparr>\<rparr>] (nd_db example_follower) = Returns (Inr ()) db"
    "answers_gets (NewTCPServer 50) (example_follower\<lparr>nd_db := db\<rparr>) 0 (fold (effect (nd_defaultTTL example_elected)) ?es (store_view (nd_db example_elected)))"
    by blast
  have "fresh_conn example_node_env 7 (example_follower\<lparr>nd_db := db\<rparr>)" by (simp add: fresh_conn_def example_nodes example_node_env_def)
  moreover have "0 < ne_now example_node_env" by (simp add: example_node_env_def)
  ultimately have "sendToNode (reply_of (NewTCPServer 50) example_node_env 7 (example_follower\<lparr>nd_db := db\<rparr>) ?get) ?get =
      Ok (MGetResponse \<lparr>gs_Found = True, gs_Value = [2]\<rparr>)"
    using n'(3) [unfolded answers_gets_def, rule_format, of example_node_env 7 "[1]"] v f fj(3) by simp
  with n'(1,2) show ?thesis unfolding Let_def by blast
qed

text \<open>C30 (safety): a follower that joins does not catch up. When the leader has taken in the join, nothing has been sent to the
  follower. Whatever the leader writes after it, a key that is not
  written again keeps the entry it had on each side, so a follower that missed a change, because it was away
  or new, never gets it.\<close>

theorem join_does_not_catch_up:
  assumes "node_inv n" and "unlimited (nd_db n)" and "IsLeader n" and "nd_leader n = Some l" and "c \<notin> net_closed (nd_net n)"
    and "net_sent (nd_net n) c = []" and "c \<notin> snd ` set (ld_followers l)" and "Frame_valid (MReplicationJoin \<lparr>rj_NodeAddr = addr\<rparr>)"
    and "within_limit (ts_maxPayloadBytes s) (MReplicationJoin \<lparr>rj_NodeAddr = addr\<rparr>)"
    and "n0 = node_after s ne c n (MReplicationJoin \<lparr>rj_NodeAddr = addr\<rparr>)"
    and "list_all (\<lambda>(ne, w). ne_conns ne c = WriteOk) ws" and "list_all (write_fits (nd_defaultTTL n)) ws" and "run_writes ws n0 = Some n'"
    and "replica_ready (length ws) db" and "\<And>j. file_works (envs j)" and "RunFollower_target raft addr = Some leaderAddr"
  shows "net_sent (nd_net n0) c = [] \<and>
    (\<exists>db'. RunFollower addr [\<lparr>fr_raft = raft, fr_dial = None, fr_joined = WriteOk, fr_envs = envs, fr_outs = outs,
        fr_reader = \<lparr>rd_data = net_sent (nd_net n') c, rd_end = EOF\<rparr>\<rparr>] db = Returns (Inr ()) db' \<and>
      (\<forall>k. k \<notin> (\<lambda>(ne, w). write_key w) ` set ws \<longrightarrow>
         store_view db' k = store_view db k \<and> store_view (nd_db n') k = store_view (nd_db n) k))"
proof -
  note join = join_leading [OF assms(1-5,7-9)]
  have n0: "n0 = n\<lparr>nd_leader := Some (AddFollower addr c l)\<rparr>" using assms(10) join(1) by simp
  have f: "net_sent (nd_net n0) c = []" "leading addr c n0" "nd_defaultTTL n0 = nd_defaultTTL n" "nd_db n0 = nd_db n"
    using assms(6) join(2) by (simp_all add: n0)
  from stream_brings_writes_only [OF f(2,1) assms(11) _ assms(13-16), where outs = outs] assms(12) f show ?thesis by simp
qed

text \<open>The leader has the key 3, which the follower that joins does not have and does not get.\<close>

theorem join_does_not_catch_up_witness:
  "\<exists>kv n' db'. store_view kv [3] = Some ([4], 107) \<and>
     run_writes [(example_node_env, WSet [1] [2] 0)]
       (node_after (NewTCPServer 100) example_node_env 5 (example_elected\<lparr>nd_db := kv\<rparr>) (MReplicationJoin \<lparr>rj_NodeAddr = [9]\<rparr>)) = Some n' \<and>
     RunFollower [9] [\<lparr>fr_raft = nd_raft example_follower, fr_dial = None, fr_joined = WriteOk, fr_envs = (\<lambda>_. example_env),
         fr_outs = (\<lambda>_. WriteOk), fr_reader = \<lparr>rd_data = net_sent (nd_net n') 5, rd_end = EOF\<rparr>\<rparr>] (nd_db example_follower) =
       Returns (Inr ()) db' \<and>
     store_view (nd_db n') [3] = Some ([4], 107) \<and> store_view db' [3] = None"
proof -
  let ?db = "example_store 0 NoEvict SyncNone" and ?j = "MReplicationJoin \<lparr>rj_NodeAddr = [9]\<rparr>"
  let ?ws = "[(example_node_env, WSet [1] [2] 0)]"
  have e: "store_view ?db k = None" for k
    by (auto simp: store_view_def contents_def example_store_def nth_Cons' numeral_2_eq_2 split: option.splits dest!: getShard_less)
  obtain kv where kv: "SetWithExpiry (ne_env example_node_env) [3] [4] 107 ?db = Returns (Inr ()) kv" "replica_ready (Suc 0) kv"
    "store_view kv = (store_view ?db)([3] \<mapsto> ([4], 107))"
    using example_ready(1) ready_Set [OF _ example_ready(3), of "Suc 0" ?db] by (metis numeral_2_eq_2)
  let ?n = "example_elected\<lparr>nd_db := kv\<rparr>"
  have i: "node_inv ?n" "unlimited (nd_db ?n)" "IsLeader ?n" "nd_leader ?n = Some newLeader" "nd_net ?n = nd_net example_elected"
    using kv(2) node_inv_db [OF example_nodes(1)] example_nodes(2,3) by (simp_all add: replica_ready_def IsLeader_def)
  have j: "EncodeMessage ?j = Ok [OpReplicationJoin, 0, 1, 9]"
    by (simp add: EncodeMessage_layout ReplicationJoin_Encode_layout PutUint16_def be_put_numeral)
  have fj: "Frame_valid ?j" "within_limit (ts_maxPayloadBytes (NewTCPServer 100)) ?j"
    by (simp_all add: Frame_valid_def within_limit_def j ReplicationJoin_valid_def NewTCPServer_def)
  have net: "(5 :: nat) \<notin> net_closed (nd_net ?n)" "net_sent (nd_net ?n) 5 = []" "(5 :: nat) \<notin> snd ` set (ld_followers newLeader)"
    by (simp_all add: i(5) example_nodes newLeader_def)
  let ?after = "node_after (NewTCPServer 100) example_node_env 5 ?n ?j"
  have n0: "?after = ?n\<lparr>nd_leader := Some (AddFollower [9] 5 newLeader)\<rparr>" "leading [9] 5 ?after"
    using join_leading [OF i(1-4) net(1,3) fj] by simp_all
  have s: "SetWithExpiry (ne_env example_node_env) [1] [2] x (nd_db ?after) = Returns (Inr ()) db1 \<Longrightarrow>
      \<exists>n1. Node_Set example_node_env [1] [2] 0 ?after = Returns (Inr ()) n1" if "x = Node_Set_expiry example_node_env 0 ?after" for x db1
    using that Node_Set_returns [of ?after example_node_env "[1]" "[2]" 0 "Inr ()" db1] n0(2) by (auto simp: leading_def)
  obtain db1 where "SetWithExpiry (ne_env example_node_env) [1] [2] (Node_Set_expiry example_node_env 0 ?after) (nd_db ?after) = Returns (Inr ()) db1"
    unfolding n0(1) by (rule ready_Set [OF kv(2) example_ready(3), of "[1]" "[2]" "Node_Set_expiry example_node_env 0 ?after"]) (simp add: n0(1))
  from s [OF refl this] obtain n' where n': "run_writes ?ws ?after = Some n'" by auto
  have ws: "list_all (\<lambda>(ne, w). ne_conns ne 5 = WriteOk) ?ws" "list_all (write_fits (nd_defaultTTL ?n)) ?ws"
    by (simp_all add: example_node_env_def example_nodes nano_range_def)
  have r: "replica_ready (length ?ws) (nd_db example_follower)" using example_nodes(11,13) by simp
  from join_does_not_catch_up [OF i(1-4) net(1,2,3) fj refl ws n' r example_ready(2) example_nodes(12), of "\<lambda>_. WriteOk"] obtain db' where
    d: "RunFollower [9] [\<lparr>fr_raft = nd_raft example_follower, fr_dial = None, fr_joined = WriteOk, fr_envs = (\<lambda>_. example_env),
         fr_outs = (\<lambda>_. WriteOk), fr_reader = \<lparr>rd_data = net_sent (nd_net n') 5, rd_end = EOF\<rparr>\<rparr>] (nd_db example_follower) =
       Returns (Inr ()) db'"
    "\<forall>k. k \<notin> (\<lambda>(ne, w). write_key w) ` set ?ws \<longrightarrow> store_view db' k = store_view (nd_db example_follower) k \<and> store_view (nd_db n') k = store_view (nd_db ?n) k"
    by blast
  have "store_view (nd_db n') [3] = Some ([4], 107)" "store_view db' [3] = None"
    using d(2) [rule_format, of "[3]"] kv(3) e by (simp_all add: example_nodes)
  with kv(3) n' d(1) show ?thesis by (intro exI [of _ kv] exI [of _ n'] exI [of _ db']) simp
qed

text \<open>C31 (functional): a node that does not lead takes writes. A client that sends a \<open>SET\<close> to a node without a \<open>Leader\<close>, whatever raft knows of the
  leader, is answered \<open>OK\<close> over the wire; the node has the entry, and nothing is sent on any other connection, so no other node
  hears of it. The store is without a memory cap and its log can be written.\<close>

theorem follower_takes_writes:
  assumes "node_inv m" and "nd_leader m = None" and "replica_ready 1 (nd_db m)" and "fresh_conn ne c m"
    and "request_ok s (nd_defaultTTL m) ne (MSetRequest q)"
  shows "sendToNode (reply_of s ne c m (MSetRequest q)) (MSetRequest q) = Ok (MSetResponse \<lparr>ss_Success = True, ss_Message = str ''OK''\<rparr>) \<and>
    store_view (nd_db (node_after s ne c m (MSetRequest q))) = effect (nd_defaultTTL m) (Request ne c (MSetRequest q)) (store_view (nd_db m)) \<and>
    (\<forall>d. d \<noteq> c \<longrightarrow> net_sent (nd_net (node_after s ne c m (MSetRequest q))) d = net_sent (nd_net m) d)"
proof -
  let ?e = "Node_Set_expiry ne (sint (sr_TTL q)) m" and ?ok = "MSetResponse \<lparr>ss_Success = True, ss_Message = str ''OK''\<rparr>"
  have r: "Frame_valid (MSetRequest q)" "within_limit (ts_maxPayloadBytes s) (MSetRequest q)" "file_works (ne_env ne)"
    using assms(5) by (simp_all add: request_ok_def)
  obtain db where db: "SetWithExpiry (ne_env ne) (sr_Key q) (sr_Value q) ?e (nd_db m) = Returns (Inr ()) db"
    "store_view db = (store_view (nd_db m))(sr_Key q \<mapsto> (sr_Value q, ?e))"
    by (rule ready_Set [of 0 "nd_db m" "ne_env ne"]) (use assms(3) r(3) in simp_all)
  have d: "Dispatch the_handlers (MSetRequest q) (node_store ne) m = Returns (Inr ?ok) (m\<lparr>nd_db := db\<rparr>)"
    using db(1) assms(2) by (simp add: node_store_def Node_Set_def Node_Set_broadcast_def Let_def)
  have f: "Frame_valid ?ok" by (simp add: Frame_valid_def EncodeMessage_layout SetResponse_valid_def SetResponse_Encode_layout str_def)
  have "fresh_conn ne c (m\<lparr>nd_db := db\<rparr>)" using assms(4) by (simp add: fresh_conn_def)
  note call = command_call [OF _ r(1,2) d f this]
  have "net_sent (nd_net (close_conn c (snd (writeMessage ne c ?ok (m\<lparr>nd_db := db\<rparr>))))) e = net_sent (nd_net m) e" if "e \<noteq> c" for e
    using that by (simp add: close_conn_def conn_close_def writeMessage_def Let_def split: prod.splits)
  with call db(2) show ?thesis by (simp add: Node_Set_expiry_def Let_def)
qed

theorem follower_takes_writes_witness:
  "sendToNode (reply_of (NewTCPServer 100) example_node_env 5 example_follower (MSetRequest example_set)) (MSetRequest example_set) =
     Ok (MSetResponse \<lparr>ss_Success = True, ss_Message = str ''OK''\<rparr>) \<and> RunFollower_target (nd_raft example_follower) [9] = Some [8]"
proof -
  have "fresh_conn example_node_env 5 example_follower" by (simp add: fresh_conn_def example_nodes example_node_env_def)
  from follower_takes_writes [OF example_nodes(7,8) _ this, of "NewTCPServer 100" example_set] example_set_ok example_nodes(9,11-13)
  show ?thesis by simp
qed

end
