(* ===== verification/Spec2Isabelle.thy ===== *)
theory Spec2Isabelle
  imports Concurrency Leadership Node_Interleaving Loadgen_Report System_Interval System_Replica
begin

text \<open>
  \<^bold>\<open>Keva, a replicated key-value store.\<close> The program (Go, under \<open>src/\<close>) is a server process that keeps
  expiring keys in a sharded in-memory map with a write-ahead log, talks a framed binary protocol over
  TCP, elects a leader among its peers and replicates the leader's writes, together with a command line
  client, a benchmark client and a load generator. This development models the packages as HOL functions, one theory per component, and proves
  what each promises and what they promise together.

  \<^bold>\<open>How the parts interact.\<close> A client sends a frame; \<open>server/tcp.go\<close> decodes it with \<open>protocol\<close> and gives it
  to \<open>engine\<close>, whose handlers call the node of \<open>cluster/node.go\<close>. The node changes its store
  (\<open>storage/store\<close>), which logs the change (\<open>storage/wal\<close>), writes it to a shard and lets the policy of
  \<open>storage/eviction\<close> make room; a leading node then broadcasts the change to the followers registered with
  it (\<open>cluster/leader.go\<close>), which apply it to their stores (\<open>cluster/follower.go\<close>). Who leads is decided by
  \<open>cluster/raft.go\<close>. At start \<open>main.go\<close> reads the configuration, and the store replays its log.

  \<^bold>\<open>Conventions.\<close> Byte strings are lists of \<open>8 word\<close>; sized integers are words of their size, so that slice
  bounds, counters and lengths wrap where the code's do. Times and durations are integers of
  nanoseconds; \<open>unix_nano\<close> and \<open>from_nano\<close> cut them to 64 bits. A Go map is an association list without
  duplicate keys, and the order of \<open>range\<close> is an argument (\<open>map_order\<close>). A function that may return an
  error or panic has a result of type \<open>go\<close>; a stateful operation has an \<open>outcome\<close>: it returns with the new
  state, blocks, diverges or panics. What the operating system, the network, the clock and the random
  generator do is an argument of the operation that meets it (\<open>write_outcome\<close>, \<open>Reader\<close>, \<open>Env\<close>, \<open>NodeEnv\<close>,
  \<open>dialed\<close>, \<open>opened\<close>, \<open>accepted\<close>), so the theorems hold whatever they do unless a hypothesis says otherwise. What a process
  prints is part of its state. A section of code under a lock is one step.

  \<^bold>\<open>The theories.\<close>

  \<^item> \<open>Prelude\<close> has these types, buffers, byte order, maps and their lemmas; \<open>Go_IO\<close> readers and write outcomes;
    \<open>Go_Strings\<close> the functions of \<open>strings\<close> and \<open>strconv\<close> the program uses, on ASCII text.

  \<^item> \<open>Proto_Base\<close> (\<open>protocol/errors.go\<close>, \<open>opcodes_table.go\<close>), \<open>Proto_KV\<close> (\<open>protocol/kv\<close>), \<open>Proto_Cluster\<close>
    (\<open>protocol/cluster\<close>) and \<open>Proto_Client\<close> (\<open>protocol/client\<close>) model every message with its \<open>Encode\<close> and
    \<open>Decode\<close>, buffer write by buffer write. The contract of a message type is the locale \<open>wire_codec\<close>
    (decoding inverts encoding whatever follows; every cut is refused), interpreted sixteen times.
    \<open>Protocol\<close> (\<open>protocol/message.go\<close>) has the registry and \<open>EncodeMessage\<close>/\<open>DecodeMessage\<close>; \<open>Frame\<close>
    (\<open>protocol/frame.go\<close>) the length-prefixed frames. Shown: round trips, the errors of truncated, oversized
    and malformed input, and exactly which inputs make a decoder panic.

  \<^item> \<open>WAL_Record\<close> (\<open>wal_record.go\<close>, \<open>wal_replay.go\<close>) is the format of the log and its replay, \<open>WAL\<close>
    (\<open>wal_options.go\<close>, \<open>wal_writer.go\<close>, \<open>wal_compaction.go\<close>) the writer in its three modes, with the flusher
    goroutine as events that may interleave with appends, and compaction with every failure point. Shown:
    what is on disk after any run, how much can be lost, and where acknowledged records are lost.

  \<^item> \<open>Eviction\<close> (\<open>storage/eviction\<close>, \<open>store/shard.go\<close>) has the three policies; their contract, as the comments
    of the interface give it, is the locale \<open>eviction_policy\<close>, interpreted for each and for the dispatching
    \<open>Policy\<close>. \<open>Store\<close> (\<open>kv_store.go\<close>) proves from it, once for all policies, that a shard keeps its invariant and its
    budget, and then that the store refines a map. \<open>Store_Recovery\<close> (\<open>kv_store_util.go\<close>, \<open>NewKVStore\<close>) adds
    start-up, the sweep of expired keys and compaction: a restart brings back what the store had.
    \<open>Concurrency\<close> runs any number of calls of the store together with the sweeper, the snapshot of a compaction and the
    flusher, interleaved at their locks and at the log. Shown: every run is a run of a map in which each call takes effect at
    one moment between its invocation and its return (locale \<open>simulation\<close>, interpreted as \<open>shared_store\<close>), no call is stuck, what a
    crash and a restart bring back, and that the log may have two writes of a key in the other order.

  \<^item> \<open>Raft\<close> has the critical sections of \<open>cluster/raft.go\<close>; \<open>Election\<close> runs the goroutines of all nodes as a step
    relation in which messages are lost, delayed and overtaken and timers fire at any time. Shown: one
    leader per term (majorities intersect: locale \<open>quorums\<close>), that an election can always succeed, and that restarts give two
    leaders of a term. \<open>Leadership\<close> ties this to the rest: the vote and heartbeat calls over their connections do
    what the steps of \<open>Election\<close> say, and the callbacks, which run after the lock of raft is released, keep the field \<open>leader\<close>
    of the node in step with its role as long as none is overtaken; what happens otherwise is shown too.

  \<^item> \<open>Engine\<close> (\<open>engine\<close>) has the handlers and their table over the interface \<open>Store\<close>, whose contract is the
    locale \<open>engine_store\<close>. \<open>Replication\<close> (\<open>leader.go\<close>, \<open>follower.go\<close>) has the broadcast over connections that
    may fail and the loop of a follower over the bytes it receives; \<open>Node\<close> (\<open>node.go\<close>) joins store, raft and
    replication and interprets \<open>engine_store\<close>; \<open>Node_Interleaving\<close> runs any number of calls of one node together, each in
    its two steps, the change of the store and the broadcast. Shown: a follower that stays connected has the leader's keys, as long as
    writes of one key do not overlap, and when it does not: after concurrent writes of a key, and when it joins late.

  \<^item> \<open>Server\<close> (\<open>server/tcp.go\<close>) handles one connection from its first frame to its end; \<open>Config\<close> (\<open>utils\<close>,
    \<open>config\<close>) has the configuration; \<open>Process\<close> (\<open>main.go\<close>, \<open>TCPServer.Start\<close>, \<open>Node.Start\<close>) the server process from its
    environment to the connections it serves. Shown: connections end, a connection answers its
    messages as the engine does, and a started process serves what its log holds.

  \<^item> \<open>Client\<close> (\<open>cli/cli.go\<close>) is the command line process: discovery, routing, retries, the lines it reads and all it
    prints. \<open>Bench_Client\<close> (\<open>bench/client\<close>) has the persistent connection and the discovery of the benchmarks. Shown: a
    session over one connection is a sequence of local calls of the engine, a user reads back what they set, and why neither client finds a standalone node.

  \<^item> \<open>System\<close> puts whole processes together: clients, the server process with its sweeper and flusher, and its restart;
    \<open>System_Interval\<close> does so for the default mode of the log, \<open>System_Replica\<close> for a leader and its replica. Shown, over the wire: in
    the mode \<open>always\<close> a restart is invisible to readers, in the mode \<open>interval\<close> it loses a bounded tail of the writes, a replica answers
    reads from the map that the commands at the leader describe, and a node that does not lead takes writes of its own.

  \<^item> \<open>Loadgen\<close> (\<open>bench/loadgen\<close>) runs the coordinator and the workers of the load generator as a step relation over the
    token channel, with reconnection; \<open>Loadgen_Report\<close> has its summary and its CSV file. Shown: every token is counted once,
    and a CSV reader gets back the rows of all runs under one header. The type \<open>float64\<close> and the histograms of the
    third-party package are parameters (records \<open>Float64\<close> and \<open>Histogram\<close>), of which nothing is assumed.

  \<^bold>\<open>Termination and bounds.\<close> Loops over input (\<open>replay_loop\<close>, \<open>sync_loop\<close>, \<open>drain_loop\<close>, \<open>client_loop\<close>) are total
  functions; their measure is the number of bytes still to come, of which every frame or record takes at
  least its header. The loops of the eviction policies are total because each round removes an entry.
  Retries of the client are bounded as in the code, fifteen and eight; its loop over standard input takes a line per round.
  \<open>WaitForLeader_loop\<close> and \<open>reconnect_loop\<close>, which run until the clock or a leader ends them, are partial functions;
  \<open>WaitForLeader_returns\<close> shows that the first returns on a clock that passes its deadline, and \<open>worker_reconnects\<close> that the second
  returns once a leader can be reached. Loops that never end (\<open>RunFollower\<close>, \<open>accept_loop\<close>) are functions of the list of rounds done so
  far. Only \<open>ReadFrames\<close> has a bound of its own, the number of frames asked for.

  \<^bold>\<open>Assumptions worth knowing.\<close> Election safety is about nodes that do not restart (the code keeps term and
  vote in memory only, and \<open>restarts_elect_twice\<close> shows what follows), whose peer lists agree and have no duplicates, and about terms below \<open>2^64 - 1\<close>. The
  convergence of followers is for stores without a memory cap, since evictions are not replicated, and for
  writes of a key that do not overlap at the leader. Restarts are exact in the mode \<open>always\<close>; at the very nanosecond of an expiry a
  restarted store has dropped an entry that the old one would still return, so the reads of \<open>restart_invisible\<close> come later. The contract \<open>engine_store\<close> is about calls at one time.

  \<^bold>\<open>Not modelled.\<close> The packages \<open>flag\<close>, \<open>log\<close> (but for what is logged) and \<open>signal\<close>, the lengths of sleeps and
  the ticks of timers, which may come at any time; dialling, listening and accepting beyond their outcomes; the rounding of
  floating-point numbers and the buckets of the histograms. \<open>time.ParseDuration\<close> is a parameter of \<open>Load\<close>, of
  which nothing is assumed. Calls are interleaved at the granularity of their locks (\<open>Concurrency\<close>, \<open>Election\<close>, \<open>Leadership\<close>,
  the flusher); data races on fields read without a lock are not. Text that is not ASCII in configuration values
  and commands, and the unbuffered log channel of a batch size of zero (which the configuration never sets), are left out.
\<close>

end
